(* ===== verification/Prelude.thy ===== *)
theory Prelude
  imports Main "HOL-Library.Word" "HOL-Library.AList" "HOL-Library.Multiset" "HOL-Library.Sublist"
    "HOL-Library.Code_Target_Nat"
begin

section \<open>Shared vocabulary of the development\<close>

text \<open>
  The types and helper operations every component of the session daemon uses, and the generic
  lemmas about them.
  \<^item> Rust's \<open>u8\<close>, \<open>u32\<close>, \<open>u64\<close> are words of that width: \<open>+\<close> wraps, as it
    does in the release profile of \<open>Cargo.toml\<close> (no \<open>overflow-checks\<close>).
  \<^item> \<open>std::collections::HashMap\<close> is an association list with distinct keys, \<open>hash_map\<close>.
    Its list order stands for the iteration order, which the standard library leaves
    unspecified: \<open>hm_same\<close> relates two maps that differ in that order only.
  \<^item> \<open>Instant\<close> and \<open>Duration\<close> are counts of nanoseconds in \<^typ>\<open>nat\<close>.
  \<^item> \<open>String\<close> is a list of bytes, \<^typ>\<open>string\<close>; \<open>len()\<close> counts bytes in Rust too.
\<close>

subsection \<open>Machine integers and time\<close>

type_synonym u8 = "8 word"
type_synonym u32 = "32 word"
type_synonym u64 = "64 word"
type_synonym instant = nat
type_synonym duration = nat

definition nanos_per_sec :: nat where
  "nanos_per_sec = 1000000000"

definition from_secs :: "u64 \<Rightarrow> duration" where
  "from_secs s = unat s * nanos_per_sec"

definition as_secs :: "duration \<Rightarrow> u64" where
  "as_secs d = of_nat (d div nanos_per_sec)"

subsection \<open>Hash maps\<close>

type_synonym ('k, 'v) hash_map = "('k \<times> 'v) list"

definition hm_get :: "('k, 'v) hash_map \<Rightarrow> 'k \<Rightarrow> 'v option" where
  "hm_get m k = map_of m k"

definition hm_insert :: "'k \<Rightarrow> 'v \<Rightarrow> ('k, 'v) hash_map \<Rightarrow> ('k, 'v) hash_map" where
  "hm_insert k v m = AList.update k v m"

definition hm_remove :: "'k \<Rightarrow> ('k, 'v) hash_map \<Rightarrow> ('k, 'v) hash_map" where
  "hm_remove k m = AList.delete k m"

text \<open>Mutation through \<open>get_mut\<close>: the entry at \<open>k\<close>, if there is one, becomes \<open>f\<close> of it.\<close>

definition hm_modify :: "'k \<Rightarrow> ('v \<Rightarrow> 'v) \<Rightarrow> ('k, 'v) hash_map \<Rightarrow> ('k, 'v) hash_map" where
  "hm_modify k f m = map (\<lambda>(k', v). (k', if k' = k then f v else v)) m"

text \<open>The value \<open>entry(k).or_insert(d)\<close> refers to.\<close>

definition hm_entry :: "'k \<Rightarrow> 'v \<Rightarrow> ('k, 'v) hash_map \<Rightarrow> 'v" where
  "hm_entry k d m = (case hm_get m k of None \<Rightarrow> d | Some v \<Rightarrow> v)"

definition hm_keys :: "('k, 'v) hash_map \<Rightarrow> 'k list" where
  "hm_keys m = map fst m"

definition hm_values :: "('k, 'v) hash_map \<Rightarrow> 'v list" where
  "hm_values m = map snd m"

definition hm_map_values :: "('v \<Rightarrow> 'w) \<Rightarrow> ('k, 'v) hash_map \<Rightarrow> ('k, 'w) hash_map" where
  "hm_map_values f m = map (\<lambda>(k, v). (k, f v)) m"

definition hm_count :: "('v \<Rightarrow> bool) \<Rightarrow> ('k, 'v) hash_map \<Rightarrow> nat" where
  "hm_count P m = length (filter P (hm_values m))"

definition hm_ok :: "('k, 'v) hash_map \<Rightarrow> bool" where
  "hm_ok m \<longleftrightarrow> distinct (hm_keys m)"

definition hm_same :: "('k, 'v) hash_map \<Rightarrow> ('k, 'v) hash_map \<Rightarrow> bool" where
  "hm_same m m' \<longleftrightarrow> mset m = mset m'"

subsection \<open>Strings\<close>

fun dec_digits :: "nat \<Rightarrow> string" where
  "dec_digits n =
     (if n < 10 then [char_of (48 + n)] else dec_digits (n div 10) @ [char_of (48 + n mod 10)])"

declare dec_digits.simps [simp del]

text \<open>The decimal \<open>Display\<close> of an unsigned integer.\<close>

definition show_word :: "'a::len word \<Rightarrow> string" where
  "show_word w = dec_digits (unat w)"

text \<open>\<open>str::split\<close> at a character: always at least one field.\<close>

fun split_on :: "char \<Rightarrow> string \<Rightarrow> string list" where
  "split_on c [] = [[]]"
| "split_on c (x # xs) =
     (if x = c then [] # split_on c xs
      else (case split_on c xs of [] \<Rightarrow> [[x]] | f # fs \<Rightarrow> (x # f) # fs))"

text \<open>\<open>Path::join\<close>.\<close>

definition path_join :: "string \<Rightarrow> string \<Rightarrow> string" where
  "path_join base p =
     (if prefix ''/'' p then p
      else if base = [] then p
      else if last base = CHR ''/'' then base @ p
      else base @ CHR ''/'' # p)"

definition newline :: char where
  "newline = CHR 0x0A"

definition carriage_return :: char where
  "carriage_return = CHR 0x0D"

definition strip_cr :: "string \<Rightarrow> string" where
  "strip_cr l = (if l \<noteq> [] \<and> last l = carriage_return then butlast l else l)"

text \<open>\<open>str::lines\<close>: a final line terminator opens no further line, a line ends in \<open>\n\<close> or \<open>\r\n\<close>.\<close>

definition str_lines :: "string \<Rightarrow> string list" where
  "str_lines s =
     (let ls = split_on newline s
      in (if last ls = [] then map strip_cr (butlast ls)
          else map strip_cr (butlast ls) @ [last ls]))"

definition is_ws :: "char \<Rightarrow> bool" where
  "is_ws c \<longleftrightarrow> c \<in> {CHR 0x20, CHR 0x09, CHR 0x0A, CHR 0x0B, CHR 0x0C, CHR 0x0D}"

definition trim_start :: "string \<Rightarrow> string" where
  "trim_start s = dropWhile is_ws s"

definition trim :: "string \<Rightarrow> string" where
  "trim s = rev (dropWhile is_ws (rev (dropWhile is_ws s)))"

text \<open>\<open>u32::from_str\<close>: an optional \<open>+\<close>, then at least one digit, and no overflow.\<close>

definition is_digit :: "char \<Rightarrow> bool" where
  "is_digit c \<longleftrightarrow> 48 \<le> (of_char c :: nat) \<and> (of_char c :: nat) \<le> 57"

definition dec_value :: "string \<Rightarrow> nat" where
  "dec_value s = foldl (\<lambda>n c. n * 10 + (of_char c - 48)) 0 s"

definition parse_u32 :: "string \<Rightarrow> u32 option" where
  "parse_u32 s =
     (let ds = (case s of [] \<Rightarrow> [] | c # cs \<Rightarrow> if c = CHR ''+'' then cs else s)
      in (if ds \<noteq> [] \<and> list_all is_digit ds \<and> dec_value ds < 2 ^ 32
          then Some (of_nat (dec_value ds)) else None))"

subsection \<open>Sequences of system calls\<close>

text \<open>
  A chain of fallible system calls joined by \<open>?\<close>: the calls that were made, up to and including
  the first that failed, and the result. The answers come from the operating system, a parameter.
\<close>

fun perform_all :: "('op \<Rightarrow> 'e + unit) \<Rightarrow> 'op list \<Rightarrow> 'op list \<times> ('e + unit)" where
  "perform_all answer [] = ([], Inr ())"
| "perform_all answer (x # xs) =
     (case answer x of
        Inl e \<Rightarrow> ([x], Inl e)
      | Inr _ \<Rightarrow> (case perform_all answer xs of (made, r) \<Rightarrow> (x # made, r)))"

subsection \<open>Lemmas on strings\<close>

lemma split_on_neq_Nil [simp]: "split_on c s \<noteq> []"
  by (induction s) (auto split: list.splits)

lemma split_on_free: "c \<notin> set s \<Longrightarrow> split_on c s = [s]"
  by (induction s) (auto split: list.splits)

lemma split_on_append: "c \<notin> set xs \<Longrightarrow> split_on c (xs @ c # ys) = xs # split_on c ys"
  by (induction xs) auto

lemma split_on_fields_free: "f \<in> set (split_on c s) \<Longrightarrow> c \<notin> set f"
  by (induction s arbitrary: f) (auto split: list.splits if_splits)

lemma split_on_concat: "concat (map (\<lambda>f. f @ [c]) (split_on c s)) = s @ [c]"
  by (induction s) (auto split: list.splits)

lemma str_lines_Nil [simp]: "str_lines [] = []"
  by (simp add: str_lines_def)

lemma str_lines_line:
  "newline \<notin> set l \<Longrightarrow> str_lines (l @ newline # rest) = strip_cr l # str_lines rest"
  by (simp add: str_lines_def split_on_append Let_def)

lemma strip_cr_id: "l = [] \<or> last l \<noteq> carriage_return \<Longrightarrow> strip_cr l = l"
  by (auto simp: strip_cr_def)

subsection \<open>Lemmas on system calls\<close>

lemma perform_all_prefix: "perform_all answer xs = (made, r) \<Longrightarrow> prefix made xs"
  by (induction xs arbitrary: made) (auto split: sum.splits prod.splits)

lemma perform_all_Inr_iff:
  "perform_all answer xs = (made, Inr ()) \<longleftrightarrow> made = xs \<and> (\<forall>x \<in> set xs. \<exists>u. answer x = Inr u)"
  by (induction xs arbitrary: made) (fastforce split: sum.splits prod.splits)+

subsection \<open>Lemmas on time\<close>

lemma as_secs_from_secs [simp]: "as_secs (from_secs s) = s"
  by (simp add: as_secs_def from_secs_def nanos_per_sec_def)

lemma from_secs_pos [simp]: "0 < from_secs s \<longleftrightarrow> s \<noteq> 0"
  by (simp add: from_secs_def nanos_per_sec_def unat_gt_0)

lemma from_secs_mono: "from_secs s \<le> from_secs t \<longleftrightarrow> s \<le> t"
  by (simp add: from_secs_def nanos_per_sec_def word_le_nat_alt)

subsection \<open>Lemmas on hash maps\<close>

lemma hm_get_Nil [simp]: "hm_get [] k = None"
  by (simp add: hm_get_def)

lemma hm_get_Cons: "hm_get ((k', v) # m) k = (if k' = k then Some v else hm_get m k)"
  by (simp add: hm_get_def)

lemma hm_get_insert [simp]: "hm_get (hm_insert k v m) k' = (if k' = k then Some v else hm_get m k')"
  by (simp add: hm_get_def hm_insert_def update_conv')

lemma hm_get_remove [simp]: "hm_get (hm_remove k m) k' = (if k' = k then None else hm_get m k')"
  by (simp add: hm_get_def hm_remove_def delete_conv')

lemma hm_get_modify [simp]:
  "hm_get (hm_modify k f m) k' = (if k' = k then map_option f (hm_get m k') else hm_get m k')"
  by (induction m) (auto simp: hm_get_def hm_modify_def)

lemma hm_get_map_values [simp]: "hm_get (hm_map_values f m) k = map_option f (hm_get m k)"
  by (induction m) (auto simp: hm_get_def hm_map_values_def)

lemma hm_entry_insert [simp]:
  "hm_entry k d (hm_insert k' v m) = (if k = k' then v else hm_entry k d m)"
  by (simp add: hm_entry_def)

lemma hm_ok_Nil [simp]: "hm_ok []"
  by (simp add: hm_ok_def hm_keys_def)

lemma hm_ok_insert [simp]: "hm_ok m \<Longrightarrow> hm_ok (hm_insert k v m)"
  by (simp add: hm_ok_def hm_keys_def hm_insert_def distinct_update)

lemma hm_ok_remove [simp]: "hm_ok m \<Longrightarrow> hm_ok (hm_remove k m)"
  by (simp add: hm_ok_def hm_keys_def hm_remove_def distinct_delete)

lemma hm_keys_modify [simp]: "hm_keys (hm_modify k f m) = hm_keys m"
  by (induction m) (auto simp: hm_keys_def hm_modify_def)

lemma hm_keys_map_values [simp]: "hm_keys (hm_map_values f m) = hm_keys m"
  by (induction m) (auto simp: hm_keys_def hm_map_values_def)

lemma hm_ok_modify [simp]: "hm_ok (hm_modify k f m) \<longleftrightarrow> hm_ok m"
  by (simp add: hm_ok_def)

lemma hm_ok_map_values [simp]: "hm_ok (hm_map_values f m) \<longleftrightarrow> hm_ok m"
  by (simp add: hm_ok_def)

lemma hm_get_iff: "hm_ok m \<Longrightarrow> hm_get m k = Some v \<longleftrightarrow> (k, v) \<in> set m"
  by (simp add: hm_ok_def hm_keys_def hm_get_def)

lemma set_hm_keys: "k \<in> set (hm_keys m) \<longleftrightarrow> hm_get m k \<noteq> None"
  by (simp add: hm_keys_def hm_get_def map_of_eq_None_iff)

lemma set_hm_values: "hm_ok m \<Longrightarrow> v \<in> set (hm_values m) \<longleftrightarrow> (\<exists>k. hm_get m k = Some v)"
  by (force simp: hm_get_iff hm_values_def)

lemma hm_same_get: "hm_ok m \<Longrightarrow> hm_same m m' \<Longrightarrow> hm_get m' k = hm_get m k"
proof -
  assume ok: "hm_ok m" and same: "hm_same m m'"
  from same have "set m = set m'" and "mset (map fst m) = mset (map fst m')"
    unfolding hm_same_def by (metis set_mset_mset, metis mset_map)
  then show ?thesis
    using ok by (metis hm_get_def hm_keys_def hm_ok_def map_of_inject_set mset_eq_imp_distinct_iff)
qed

lemma hm_same_ok: "hm_same m m' \<Longrightarrow> hm_ok m' \<longleftrightarrow> hm_ok m"
  unfolding hm_same_def hm_ok_def hm_keys_def by (metis mset_eq_imp_distinct_iff mset_map)

lemma hm_same_count: "hm_same m m' \<Longrightarrow> hm_count P m' = hm_count P m"
  unfolding hm_same_def hm_count_def hm_values_def
  by (metis mset_eq_length mset_filter mset_map)

lemma hm_insert_fresh: "hm_get m k = None \<Longrightarrow> hm_insert k v m = m @ [(k, v)]"
  by (induction m) (auto simp: hm_get_def hm_insert_def split: if_splits)

lemma hm_count_Nil [simp]: "hm_count P [] = 0"
  by (simp add: hm_count_def hm_values_def)

lemma hm_count_insert_fresh:
  "hm_get m k = None \<Longrightarrow> hm_count P (hm_insert k v m) = hm_count P m + (if P v then 1 else 0)"
  by (simp add: hm_insert_fresh hm_count_def hm_values_def)

lemma hm_count_remove_le: "hm_count P (hm_remove k m) \<le> hm_count P m"
  by (induction m) (auto simp: hm_count_def hm_values_def hm_remove_def)

lemma hm_count_remove:
  "hm_ok m \<Longrightarrow> hm_get m k = Some v \<Longrightarrow>
     hm_count P m = hm_count P (hm_remove k m) + (if P v then 1 else 0)"
proof (induction m)
  case (Cons p m)
  have "hm_get m k = None" if "fst p = k"
    using Cons.prems(1) that by (auto simp: hm_ok_def hm_keys_def hm_get_def map_of_eq_None_iff)
  moreover have "AList.delete k m = m" if "hm_get m k = None"
    using that by (auto simp: hm_get_def map_of_eq_None_iff intro: delete_idem)
  ultimately show ?case
    using Cons by (cases p)
      (auto simp: hm_count_def hm_values_def hm_remove_def hm_get_def hm_ok_def hm_keys_def split: if_splits)
qed simp

lemma hm_remove_absent: "hm_get m k = None \<Longrightarrow> hm_remove k m = m"
  by (auto simp: hm_get_def hm_remove_def map_of_eq_None_iff intro: delete_idem)

lemma hm_modify_absent: "hm_get m k = None \<Longrightarrow> hm_modify k f m = m"
  by (induction m) (auto simp: hm_get_def hm_modify_def split: if_splits)

lemma hm_count_map_values:
  assumes "\<And>v. P (f v) = P v"
  shows "hm_count P (hm_map_values f m) = hm_count P m"
proof -
  have "filter P (map (\<lambda>x. f (snd x)) m) = map (\<lambda>x. f (snd x)) (filter (\<lambda>x. P (snd x)) m)"
    by (simp add: filter_map comp_def assms)
  then show ?thesis
    by (simp add: hm_count_def hm_values_def hm_map_values_def comp_def split_def filter_map)
qed

lemma hm_count_modify:
  assumes "\<And>v. P (f v) = P v"
  shows "hm_count P (hm_modify k f m) = hm_count P m"
proof (induction m)
  case Nil
  then show ?case by (simp add: hm_modify_def)
next
  case (Cons p m)
  then show ?case
    by (cases p) (simp add: hm_count_def hm_values_def hm_modify_def assms)
qed

end
