(* ===== verification/Errors.thy ===== *)
theory Errors
  imports Prelude
begin

section \<open>The crate-wide error type\<close>

text \<open>
  \<open>SessionError\<close> (\<open>src/errors/error.rs\<close>) with its \<open>Display\<close> text, which is what a client sees in
  \<open>Response::Error\<close>. An \<open>io::Error\<close> is its kind, as far as the code looks at it, and its text.
  A fallible function returns \<open>'a result\<close>: \<open>Inl\<close> the error, \<open>Inr\<close> the value.
\<close>

datatype io_kind = NotFound | AlreadyExists | UnexpectedEof | OtherKind

record io_error =
  io_kind :: io_kind
  io_text :: string

datatype session_error =
    IoError io_error
  | ConfigError string
  | UnknownUser string
  | UnknownSeat string
  | UnknownSession u32
  | UnknownInhibitor u64
  | UnknownElevationRequest u64
  | AuthFailed string
  | LockedOutError u64
  | PamError string
  | PermissionDenied string
  | ProtocolError string
  | DisconnectedError
  | InvalidTransition string
  | Unsupported string
  | CancelledError
  | Poisoned string

type_synonym 'a result = "session_error + 'a"

fun error_text :: "session_error \<Rightarrow> string" where
  "error_text (IoError e) = ''I/O error: '' @ io_text e"
| "error_text (ConfigError s) = ''configuration error: '' @ s"
| "error_text (UnknownUser s) = ''no such user: '' @ s"
| "error_text (UnknownSeat s) = ''no such seat: '' @ s"
| "error_text (UnknownSession i) = ''no such session: '' @ show_word i"
| "error_text (UnknownInhibitor i) = ''no such inhibitor: '' @ show_word i"
| "error_text (UnknownElevationRequest i) = ''no such elevation request: '' @ show_word i"
| "error_text (AuthFailed s) = ''authentication failed: '' @ s"
| "error_text (LockedOutError n) =
     ''account is temporarily locked out ('' @ show_word n @ ''s remaining)''"
| "error_text (PamError s) = ''PAM error: '' @ s"
| "error_text (PermissionDenied s) = ''permission denied: '' @ s"
| "error_text (ProtocolError s) = ''ipc protocol error: '' @ s"
| "error_text DisconnectedError = ''ipc peer disconnected''"
| "error_text (InvalidTransition s) = ''invalid state transition: '' @ s"
| "error_text (Unsupported s) = ''operation not supported: '' @ s"
| "error_text CancelledError = ''a background operation was cancelled''"
| "error_text (Poisoned s) = ''internal lock was poisoned: '' @ s"

text \<open>The \<open>From\<close> conversions behind \<open>?\<close>, each from the text of the foreign error.\<close>

definition from_poison :: "string \<Rightarrow> session_error" where
  "from_poison text = Poisoned text"

definition from_bincode :: "string \<Rightarrow> session_error" where
  "from_bincode text = ProtocolError text"

definition from_toml :: "string \<Rightarrow> session_error" where
  "from_toml text = ConfigError text"

definition from_nix_errno :: "io_error \<Rightarrow> session_error" where
  "from_nix_errno e = IoError e"

definition ok_or :: "session_error \<Rightarrow> 'a option \<Rightarrow> 'a result" where
  "ok_or e x = (case x of None \<Rightarrow> Inl e | Some v \<Rightarrow> Inr v)"

definition map_err :: "('e \<Rightarrow> session_error) \<Rightarrow> 'e + 'a \<Rightarrow> 'a result" where
  "map_err f r = (case r of Inl e \<Rightarrow> Inl (f e) | Inr v \<Rightarrow> Inr v)"

lemma ok_or_simps [simp]:
  "ok_or e None = Inl e"
  "ok_or e (Some v) = Inr v"
  "ok_or e x = Inr w \<longleftrightarrow> x = Some w"
  "ok_or e x = Inl e' \<longleftrightarrow> x = None \<and> e' = e"
  by (auto simp: ok_or_def split: option.splits)

lemma map_err_simps [simp]:
  "map_err f (Inl e) = Inl (f e)"
  "map_err f (Inr v) = Inr v"
  by (simp_all add: map_err_def)

end
