(* ===== verification/Config.thy ===== *)
theory Config
  imports Errors
begin

section \<open>Configuration\<close>

text \<open>
  The schema of \<open>session.toml\<close> (\<open>src/config/settings.rs\<close>), its compiled-in defaults
  (\<open>src/config/defaults.rs\<close>) and the loader (\<open>src/config/loader.rs\<close>). The environment, the file
  system and the TOML parser are parameters, the record \<open>config_os\<close>.
\<close>

subsection \<open>Schema\<close>

datatype power_backend_kind = MitosPowerKind | DirectKind | SupervisedKind

record session_settings =
  runtime_dir :: string
  max_sessions_per_user :: u32
  default_session_type :: string
  compositor_binary :: string
  max_compositor_restarts :: u32

record seat_settings =
  default_seat :: string

record lock_settings =
  lock_enabled :: bool
  lock_on_idle :: bool
  lock_on_suspend :: bool
  grace_period_secs :: u64
  max_auth_attempts :: u32
  lockout_secs :: u64

record idle_settings =
  dim_after_secs :: u64
  lock_after_secs :: u64
  suspend_after_secs :: u64

record auth_settings =
  auth_pam_service :: string
  auth_allow_empty_password :: bool

record elevation_settings =
  elev_enabled :: bool
  service_user :: string
  elev_pam_service :: string
  elev_allow_empty_password :: bool
  elev_max_attempts :: u32
  elev_lockout_secs :: u64
  prompt_timeout_secs :: u64
  max_pending_per_session :: u32

record power_settings =
  allow_suspend :: bool
  allow_reboot :: bool
  allow_poweroff :: bool
  suspend_inhibit_grace_secs :: u64
  power_backend_kind :: power_backend_kind
  mitos_power_socket_path :: string

record ipc_settings =
  ipc_socket_path :: string
  ipc_socket_mode :: u32

record logging_settings =
  log_level :: string
  log_json :: bool
  audit_log_path :: "string option"

record settings =
  set_session :: session_settings
  set_seat :: seat_settings
  set_lock :: lock_settings
  set_idle :: idle_settings
  set_authentication :: auth_settings
  set_elevation :: elevation_settings
  set_power :: power_settings
  set_ipc :: ipc_settings
  set_logging :: logging_settings

subsection \<open>Defaults\<close>

definition default_session_settings :: session_settings where
  "default_session_settings =
     \<lparr>runtime_dir = ''/run/mitos-session'', max_sessions_per_user = 4,
      default_session_type = ''wayland'', compositor_binary = ''/usr/bin/mitos-gui'',
      max_compositor_restarts = 3\<rparr>"

definition default_seat_settings :: seat_settings where
  "default_seat_settings = \<lparr>default_seat = ''seat0''\<rparr>"

definition default_lock_settings :: lock_settings where
  "default_lock_settings =
     \<lparr>lock_enabled = True, lock_on_idle = True, lock_on_suspend = True, grace_period_secs = 5,
      max_auth_attempts = 3, lockout_secs = 30\<rparr>"

definition default_idle_settings :: idle_settings where
  "default_idle_settings =
     \<lparr>dim_after_secs = 60, lock_after_secs = 300, suspend_after_secs = 600\<rparr>"

definition default_auth_settings :: auth_settings where
  "default_auth_settings =
     \<lparr>auth_pam_service = ''mitos-session'', auth_allow_empty_password = False\<rparr>"

definition default_elevation_settings :: elevation_settings where
  "default_elevation_settings =
     \<lparr>elev_enabled = True, service_user = ''mitos-service'', elev_pam_service = ''mitos-elevate'',
      elev_allow_empty_password = False, elev_max_attempts = 3, elev_lockout_secs = 30,
      prompt_timeout_secs = 120, max_pending_per_session = 3\<rparr>"

definition default_power_settings :: power_settings where
  "default_power_settings =
     \<lparr>allow_suspend = True, allow_reboot = True, allow_poweroff = True,
      suspend_inhibit_grace_secs = 2, power_backend_kind = MitosPowerKind,
      mitos_power_socket_path = ''/run/mitos/power.sock''\<rparr>"

definition default_ipc_settings :: ipc_settings where
  "default_ipc_settings =
     \<lparr>ipc_socket_path = ''/run/mitos-session/session.sock'', ipc_socket_mode = 432\<rparr>"

definition default_logging_settings :: logging_settings where
  "default_logging_settings =
     \<lparr>log_level = ''info'', log_json = False,
      audit_log_path = Some ''/var/log/mitos/session-audit.log''\<rparr>"

definition default_settings :: settings where
  "default_settings =
     \<lparr>set_session = default_session_settings, set_seat = default_seat_settings,
      set_lock = default_lock_settings, set_idle = default_idle_settings,
      set_authentication = default_auth_settings, set_elevation = default_elevation_settings,
      set_power = default_power_settings, set_ipc = default_ipc_settings,
      set_logging = default_logging_settings\<rparr>"

subsection \<open>Loader\<close>

record config_os =
  env_config_path :: "string option"
  path_exists :: "string \<Rightarrow> bool"
  read_file :: "string \<Rightarrow> io_error + string"
  toml_from_str :: "string \<Rightarrow> string + settings"

definition system_config_path :: string where
  "system_config_path = ''/etc/mitos/session.toml''"

definition load :: "config_os \<Rightarrow> string option \<Rightarrow> settings result" where
  "load os explicit_path =
     (let path = (case explicit_path of
                    Some p \<Rightarrow> p
                  | None \<Rightarrow> (case env_config_path os of
                               Some p \<Rightarrow> p
                             | None \<Rightarrow> system_config_path))
      in if \<not> path_exists os path then Inr default_settings
         else (case read_file os path of
                 Inl e \<Rightarrow> Inl (IoError e)
               | Inr raw \<Rightarrow> map_err from_toml (toml_from_str os raw)))"

subsection \<open>Lemmas\<close>

lemma default_thresholds_ordered:
  "dim_after_secs default_idle_settings < lock_after_secs default_idle_settings
   \<and> lock_after_secs default_idle_settings < suspend_after_secs default_idle_settings"
  by (simp add: default_idle_settings_def)

lemma load_explicit_ignores_environment:
  "load os (Some p) = load (os\<lparr>env_config_path := e\<rparr>) (Some p)"
  by (simp add: load_def split: sum.split)

lemma load_missing_file:
  "\<not> path_exists os p \<Longrightarrow> load os (Some p) = Inr default_settings"
  by (simp add: load_def)

end
