(* ===== verification/User_Account.thy ===== *)
theory User_Account
  imports Errors
begin

section \<open>Accounts, groups, home directories and privilege dropping\<close>

text \<open>
  \<open>src/user/\<close> and \<open>user_has_password\<close> of \<open>src/main.rs\<close>. What the code asks of the system is a
  parameter: the passwd database (\<open>nix::unistd::User\<close>), the text of \<open>/etc/group\<close> and
  \<open>/etc/shadow\<close>, and the answers of file-system and credential system calls. The functions that
  make system calls return the calls they made beside their result.
\<close>

subsection \<open>Accounts\<close>

text \<open>\<open>nix::unistd::User\<close>, the entry of the passwd database, as far as the code reads it.\<close>

record passwd_entry =
  pw_name :: string
  pw_uid :: u32
  pw_gid :: u32
  pw_dir :: string
  pw_shell :: string

record user =
  user_uid :: u32
  user_gid :: u32
  user_name :: string
  user_home :: string
  user_shell :: string

record passwd_db =
  pwd_from_name :: "string \<Rightarrow> io_error + passwd_entry option"
  pwd_from_uid :: "u32 \<Rightarrow> io_error + passwd_entry option"

definition from_nix :: "passwd_entry \<Rightarrow> user" where
  "from_nix e = \<lparr>user_uid = pw_uid e, user_gid = pw_gid e, user_name = pw_name e,
                 user_home = pw_dir e, user_shell = pw_shell e\<rparr>"

definition by_name :: "passwd_db \<Rightarrow> string \<Rightarrow> user result" where
  "by_name db name =
     (case pwd_from_name db name of
        Inl e \<Rightarrow> Inl (from_nix_errno e)
      | Inr None \<Rightarrow> Inl (UnknownUser name)
      | Inr (Some entry) \<Rightarrow> Inr (from_nix entry))"

definition by_uid :: "passwd_db \<Rightarrow> u32 \<Rightarrow> user result" where
  "by_uid db uid =
     (case pwd_from_uid db uid of
        Inl e \<Rightarrow> Inl (from_nix_errno e)
      | Inr None \<Rightarrow> Inl (UnknownUser (show_word uid))
      | Inr (Some entry) \<Rightarrow> Inr (from_nix entry))"

definition user_is_root :: "user \<Rightarrow> bool" where
  "user_is_root u \<longleftrightarrow> user_uid u = 0"

record account =
  acc_user :: user
  last_login :: "nat option"
  failed_attempts :: u32
  locked_until :: "nat option"

definition account_new :: "user \<Rightarrow> account" where
  "account_new u = \<lparr>acc_user = u, last_login = None, failed_attempts = 0, locked_until = None\<rparr>"

definition is_locked_out :: "account \<Rightarrow> nat \<Rightarrow> bool" where
  "is_locked_out a now = (case locked_until a of Some t \<Rightarrow> now < t | None \<Rightarrow> False)"

definition record_success :: "account \<Rightarrow> nat \<Rightarrow> account" where
  "record_success a now = a\<lparr>failed_attempts := 0, locked_until := None, last_login := Some now\<rparr>"

text \<open>\<open>saturating_add(1)\<close>.\<close>

definition record_failure :: "account \<Rightarrow> account" where
  "record_failure a =
     a\<lparr>failed_attempts := (if failed_attempts a = - 1 then - 1 else failed_attempts a + 1)\<rparr>"

subsection \<open>Supplementary groups\<close>

text \<open>
  One line of \<open>/etc/group\<close>: the fields of \<open>line.split(':')\<close>, an absent field being empty
  (\<open>unwrap_or_default\<close>).
\<close>

definition field :: "nat \<Rightarrow> string list \<Rightarrow> string" where
  "field i fs = (if i < length fs then fs ! i else [])"

definition group_line_gid :: "string \<Rightarrow> string \<Rightarrow> u32 list" where
  "group_line_gid name raw_line =
     (let line = trim raw_line
      in if line = [] \<or> hd line = CHR ''#'' then []
         else (let fields = split_on (CHR '':'') line;
                   gid_field = field 2 fields;
                   members_field = field 3 fields
               in if name \<in> set (split_on (CHR '','') members_field)
                  then (case parse_u32 gid_field of Some gid \<Rightarrow> [gid] | None \<Rightarrow> [])
                  else []))"

definition gids_from_group_file :: "io_error + string \<Rightarrow> string \<Rightarrow> u32 list result" where
  "gids_from_group_file file name =
     (case file of
        Inl e \<Rightarrow> if io_kind e = NotFound then Inr [] else Inl (IoError e)
      | Inr raw \<Rightarrow> Inr (concat (map (group_line_gid name) (str_lines raw))))"

fun push_new :: "u32 list \<Rightarrow> u32 list \<Rightarrow> u32 list" where
  "push_new gids [] = gids"
| "push_new gids (g # gs) = push_new (if g \<in> set gids then gids else gids @ [g]) gs"

definition supplementary_gids ::
  "passwd_db \<Rightarrow> io_error + string \<Rightarrow> string \<Rightarrow> u32 list result" where
  "supplementary_gids db group_file name =
     (case pwd_from_name db name of
        Inl e \<Rightarrow> Inl (from_nix_errno e)
      | Inr None \<Rightarrow> Inl (UnknownUser name)
      | Inr (Some entry) \<Rightarrow>
          (case gids_from_group_file group_file name of
             Inl e \<Rightarrow> Inl e
           | Inr extra \<Rightarrow> Inr (push_new [pw_gid entry] extra)))"

subsection \<open>Home directories\<close>

datatype fs_op =
    CreateDirAll string
  | CreateDir string
  | SetPermissions string nat
  | Chown string u32 u32

record metadata =
  md_uid :: u32
  md_is_dir :: bool

record fs =
  fs_metadata :: "string \<Rightarrow> io_error + metadata"
  fs_answer :: "fs_op \<Rightarrow> io_error + unit"

text \<open>Mode \<open>0o700\<close>.\<close>

definition mode_700 :: nat where
  "mode_700 = 448"

definition ensure_home_ready :: "fs \<Rightarrow> user \<Rightarrow> fs_op list \<times> unit result" where
  "ensure_home_ready os u =
     (case fs_metadata os (user_home u) of
        Inr meta \<Rightarrow>
          if md_uid meta \<noteq> user_uid u then
            ([], Inl (PermissionDenied
               (''home directory '' @ user_home u @ '' is not owned by '' @ user_name u)))
          else if \<not> md_is_dir meta then
            ([], Inl (ConfigError (''home directory '' @ user_home u @ '' is not a directory'')))
          else ([], Inr ())
      | Inl e \<Rightarrow>
          if io_kind e = NotFound then
            (case perform_all (fs_answer os)
                    [CreateDirAll (user_home u), SetPermissions (user_home u) mode_700,
                     Chown (user_home u) (user_uid u) (user_gid u)] of
               (made, r) \<Rightarrow> (made, map_err IoError r))
          else ([], Inl (IoError e)))"

subsection \<open>Dropping privileges\<close>

datatype cred_op = Setgroups "u32 list" | Setgid u32 | Setuid u32

definition drop_privileges ::
  "passwd_db \<Rightarrow> io_error + string \<Rightarrow> (cred_op \<Rightarrow> io_error + unit) \<Rightarrow> user
   \<Rightarrow> cred_op list \<times> unit result" where
  "drop_privileges db group_file answer u =
     (case supplementary_gids db group_file (user_name u) of
        Inl e \<Rightarrow> ([], Inl e)
      | Inr gids \<Rightarrow>
          (case perform_all answer [Setgroups gids, Setgid (user_gid u), Setuid (user_uid u)] of
             (made, r) \<Rightarrow> (made, map_err from_nix_errno r)))"

subsection \<open>Usable passwords\<close>

definition unusable_hash :: "string \<Rightarrow> bool" where
  "unusable_hash hash \<longleftrightarrow>
     hash = [] \<or> hash = ''!'' \<or> hash = ''*'' \<or> hash = ''!!'' \<or> prefix ''!'' hash"

fun shadow_scan :: "string \<Rightarrow> string list \<Rightarrow> bool" where
  "shadow_scan username [] = True"
| "shadow_scan username (line # rest) =
     (let parts = split_on (CHR '':'') line
      in if length parts \<ge> 2 \<and> parts ! 0 = username then \<not> unusable_hash (parts ! 1)
         else shadow_scan username rest)"

definition user_has_password :: "string option \<Rightarrow> string \<Rightarrow> bool" where
  "user_has_password shadow username =
     (case shadow of
        None \<Rightarrow> True
      | Some content \<Rightarrow> shadow_scan username (str_lines content))"

text \<open>A line of the shadow file for an account: its name, the hash and whatever else, set apart by colons.\<close>

definition shadow_entry :: "string \<Rightarrow> string \<Rightarrow> string \<Rightarrow> bool" where
  "shadow_entry u h line \<longleftrightarrow> CHR '':'' \<notin> set u \<and> CHR '':'' \<notin> set h
     \<and> (line = u @ CHR '':'' # h \<or> prefix (u @ CHR '':'' # h @ '':'') line)"

subsection \<open>A concrete account, for the witnesses\<close>

definition alice_entry :: passwd_entry where
  "alice_entry = \<lparr>pw_name = ''alice'', pw_uid = 1000, pw_gid = 1000, pw_dir = ''/home/alice'',
                  pw_shell = ''/bin/sh''\<rparr>"

definition alice :: user where
  "alice = from_nix alice_entry"

definition sample_db :: passwd_db where
  "sample_db = \<lparr>pwd_from_name = (\<lambda>n. Inr (if n = ''alice'' then Some alice_entry else None)),
                pwd_from_uid = (\<lambda>u. Inr (if u = 1000 then Some alice_entry else None))\<rparr>"

definition sample_group_file :: string where
  "sample_group_file =
     ''wheel:x:10:root,alice'' @ [newline] @ ''video:x:44:alice,bob'' @ [newline] @ ''empty:x:99:'' @ [newline]"

definition sample_shadow :: string where
  "sample_shadow =
     ''root:$6$x:1:'' @ [newline] @ ''alice:$6$abc:19000:0'' @ [newline] @ ''bob:!:19000:0'' @ [newline]"

subsection \<open>Lemmas\<close>

lemma set_push_new: "set (push_new gids gs) = set gids \<union> set gs"
  by (induction gids gs rule: push_new.induct) auto

lemma distinct_push_new: "distinct gids \<Longrightarrow> distinct (push_new gids gs)"
  by (induction gids gs rule: push_new.induct) auto

lemma push_new_prefix: "prefix gids (push_new gids gs)"
proof (induction gids gs rule: push_new.induct)
  case (1 gids)
  then show ?case by simp
next
  case (2 gids g gs)
  then show ?case by (auto simp: prefix_def split: if_splits)
qed

lemma shadow_entry_fields: "shadow_entry u h line \<longleftrightarrow> (\<exists>rest. split_on (CHR '':'') line = u # h # rest)"
proof
  assume "shadow_entry u h line"
  then consider "line = u @ CHR '':'' # h" "CHR '':'' \<notin> set u" "CHR '':'' \<notin> set h"
    | tail where "line = u @ CHR '':'' # h @ CHR '':'' # tail" "CHR '':'' \<notin> set u" "CHR '':'' \<notin> set h"
    by (auto simp: shadow_entry_def prefix_def)
  then show "\<exists>rest. split_on (CHR '':'') line = u # h # rest"
    by cases (simp_all add: split_on_append split_on_free)
next
  assume "\<exists>rest. split_on (CHR '':'') line = u # h # rest"
  then obtain rest where sp: "split_on (CHR '':'') line = u # h # rest" ..
  then have free: "CHR '':'' \<notin> set u" "CHR '':'' \<notin> set h" using split_on_fields_free [of _ "CHR '':''" line] by auto
  have "line @ '':'' = u @ CHR '':'' # h @ CHR '':'' # concat (map (\<lambda>f. f @ '':'') rest)"
    using split_on_concat [of "CHR '':''" line] by (simp add: sp)
  then have "line = u @ CHR '':'' # h \<or> prefix (u @ CHR '':'' # h @ '':'') line"
    by (cases rest rule: rev_cases) (auto simp: prefix_def)
  with free show "shadow_entry u h line" by (simp add: shadow_entry_def)
qed

lemma shadow_scan_Cons:
  "shadow_scan u (line # rest) =
     (if \<exists>h. shadow_entry u h line then (\<exists>h. shadow_entry u h line \<and> \<not> unusable_hash h) else shadow_scan u rest)"
proof -
  obtain a fs where "split_on (CHR '':'') line = a # fs" by (cases "split_on (CHR '':'') line") simp_all
  then show ?thesis by (cases fs) (auto simp: shadow_entry_fields Let_def)
qed

lemma shadow_scan_skip:
  "\<forall>l \<in> set ls. \<forall>h. \<not> shadow_entry u h l \<Longrightarrow> shadow_scan u (ls @ rest) = shadow_scan u rest"
  by (induction ls) (simp_all add: shadow_scan_Cons del: shadow_scan.simps(2))

lemma shadow_entry_unique: "shadow_entry u h l \<Longrightarrow> shadow_entry u h' l \<Longrightarrow> h = h'"
  by (auto simp: shadow_entry_fields)

subsection \<open>Properties\<close>

text \<open>
  The supplementary group list of a launched process starts with the account's primary group,
  has no duplicates, and holds exactly the primary group and the group of every line of
  \<open>/etc/group\<close> that lists the account as a member and has a well-formed gid field.
\<close>

lemma supplementary_gids_spec:
  assumes "pwd_from_name db name = Inr (Some entry)"
    and "supplementary_gids db (Inr content) name = Inr gids"
  shows "gids \<noteq> [] \<and> hd gids = pw_gid entry \<and> distinct gids
    \<and> set gids = insert (pw_gid entry) (\<Union>l \<in> set (str_lines content). set (group_line_gid name l))"
proof -
  let ?extra = "concat (map (group_line_gid name) (str_lines content))"
  from assms have gids: "gids = push_new [pw_gid entry] ?extra"
    by (simp add: supplementary_gids_def gids_from_group_file_def)
  then have "prefix [pw_gid entry] gids" by (simp add: push_new_prefix)
  then have "gids \<noteq> [] \<and> hd gids = pw_gid entry" by (auto simp: prefix_def)
  moreover have "distinct gids" by (simp add: gids distinct_push_new)
  moreover have "set gids = insert (pw_gid entry) (set ?extra)" by (simp add: gids set_push_new)
  ultimately show ?thesis by simp
qed

text \<open>
  Privileges are dropped in the only safe order: whatever the answers of the kernel, the calls
  made are an initial part of setgroups, setgid, setuid for that user, and the function reports
  success exactly when all three were made and succeeded.
\<close>

lemma drop_privileges_order:
  assumes "supplementary_gids db group_file (user_name u) = Inr gids"
    and "drop_privileges db group_file answer u = (made, r)"
  shows "prefix made [Setgroups gids, Setgid (user_gid u), Setuid (user_uid u)]
    \<and> (r = Inr () \<longleftrightarrow> made = [Setgroups gids, Setgid (user_gid u), Setuid (user_uid u)]
        \<and> (\<forall>c \<in> set made. \<exists>v. answer c = Inr v))"
proof -
  let ?calls = "[Setgroups gids, Setgid (user_gid u), Setuid (user_uid u)]"
  obtain r' where p: "perform_all answer ?calls = (made, r')" and r: "r = map_err from_nix_errno r'"
    using assms by (auto simp: drop_privileges_def split: prod.splits)
  have "r = Inr () \<longleftrightarrow> r' = Inr ()" using r by (cases r') auto
  moreover have "r' = Inr () \<longleftrightarrow> made = ?calls \<and> (\<forall>c \<in> set ?calls. \<exists>v. answer c = Inr v)"
    using perform_all_Inr_iff [of answer ?calls made] p by auto
  ultimately show ?thesis using perform_all_prefix [OF p] by auto
qed

text \<open>
  An existing home directory is never modified: if the path exists, no system call is made and
  the session may start only when the directory is the user's own; the only calls ever made create
  a missing directory, restrict it to mode 0700 and give it to the user, in that order.
\<close>

lemma ensure_home_ready_spec:
  "(\<forall>meta. fs_metadata os (user_home u) = Inr meta \<longrightarrow>
      fst (ensure_home_ready os u) = []
      \<and> (snd (ensure_home_ready os u) = Inr () \<longleftrightarrow> md_uid meta = user_uid u \<and> md_is_dir meta))
   \<and> prefix (fst (ensure_home_ready os u))
       [CreateDirAll (user_home u), SetPermissions (user_home u) mode_700,
        Chown (user_home u) (user_uid u) (user_gid u)]"
  by (auto simp: ensure_home_ready_def perform_all_prefix split: sum.splits prod.splits)

text \<open>
  C37. Which accounts count as having a password. An unreadable shadow file, and one with no line for the
  account, count as having one. Otherwise the first line for the account decides, whether or not
  anything follows its hash: the account has a usable password exactly when the hash is neither empty,
  nor \<open>*\<close>, nor starts with \<open>!\<close>.
\<close>

theorem user_has_password_spec:
  "user_has_password None u
   \<and> ((\<forall>l \<in> set (str_lines content). \<forall>h. \<not> shadow_entry u h l) \<longrightarrow> user_has_password (Some content) u)
   \<and> (\<forall>before l after h. str_lines content = before @ l # after \<and> shadow_entry u h l
        \<and> (\<forall>l' \<in> set before. \<forall>h'. \<not> shadow_entry u h' l') \<longrightarrow>
        (user_has_password (Some content) u \<longleftrightarrow> h \<noteq> [] \<and> h \<noteq> ''*'' \<and> \<not> prefix ''!'' h))"
proof (intro conjI impI allI)
  show "user_has_password None u" by (simp add: user_has_password_def)
  assume "\<forall>l \<in> set (str_lines content). \<forall>h. \<not> shadow_entry u h l"
  from shadow_scan_skip [OF this, of "[]"] show "user_has_password (Some content) u" by (simp add: user_has_password_def)
next
  fix before l after h
  assume first: "str_lines content = before @ l # after \<and> shadow_entry u h l
    \<and> (\<forall>l' \<in> set before. \<forall>h'. \<not> shadow_entry u h' l')"
  then have "user_has_password (Some content) u \<longleftrightarrow> shadow_scan u (l # after)"
    by (simp add: user_has_password_def shadow_scan_skip del: shadow_scan.simps)
  also have "\<dots> \<longleftrightarrow> \<not> unusable_hash h"
    using first shadow_entry_unique by (auto simp: shadow_scan_Cons simp del: shadow_scan.simps)
  also have "\<dots> \<longleftrightarrow> h \<noteq> [] \<and> h \<noteq> ''*'' \<and> \<not> prefix ''!'' h" by (auto simp: unusable_hash_def)
  finally show "user_has_password (Some content) u \<longleftrightarrow> h \<noteq> [] \<and> h \<noteq> ''*'' \<and> \<not> prefix ''!'' h" .
qed

theorem user_has_password_spec_witness:
  "user_has_password (Some sample_shadow) ''alice'' \<and> \<not> user_has_password (Some sample_shadow) ''bob''
   \<and> user_has_password (Some sample_shadow) ''carol''"
proof -
  have lines: "str_lines sample_shadow = [''root:$6$x:1:'', ''alice:$6$abc:19000:0'', ''bob:!:19000:0'']" by code_simp
  have fields: "split_on (CHR '':'') ''root:$6$x:1:'' = [''root'', ''$6$x'', ''1'', []]"
    "split_on (CHR '':'') ''alice:$6$abc:19000:0'' = [''alice'', ''$6$abc'', ''19000'', ''0'']"
    "split_on (CHR '':'') ''bob:!:19000:0'' = [''bob'', ''!'', ''19000'', ''0'']" by code_simp+
  note entries = shadow_entry_fields fields
  have alice: "str_lines sample_shadow = [''root:$6$x:1:''] @ ''alice:$6$abc:19000:0'' # [''bob:!:19000:0'']
      \<and> shadow_entry ''alice'' ''$6$abc'' ''alice:$6$abc:19000:0''
      \<and> (\<forall>l' \<in> set [''root:$6$x:1:'']. \<forall>h'. \<not> shadow_entry ''alice'' h' l')"
    by (simp add: lines entries)
  have bob: "str_lines sample_shadow = [''root:$6$x:1:'', ''alice:$6$abc:19000:0''] @ ''bob:!:19000:0'' # []
      \<and> shadow_entry ''bob'' ''!'' ''bob:!:19000:0''
      \<and> (\<forall>l' \<in> set [''root:$6$x:1:'', ''alice:$6$abc:19000:0'']. \<forall>h'. \<not> shadow_entry ''bob'' h' l')"
    by (simp add: lines entries)
  have carol: "\<forall>l \<in> set (str_lines sample_shadow). \<forall>h. \<not> shadow_entry ''carol'' h l" by (simp add: lines entries)
  note spec = user_has_password_spec [THEN conjunct2]
  have "user_has_password (Some sample_shadow) ''alice''" using spec [THEN conjunct2, rule_format, OF alice] by simp
  moreover have "\<not> user_has_password (Some sample_shadow) ''bob''" using spec [THEN conjunct2, rule_format, OF bob] by simp
  moreover have "user_has_password (Some sample_shadow) ''carol''" using spec [THEN conjunct1, rule_format, OF carol [rule_format]] .
  ultimately show ?thesis by blast
qed

end
