(* ===== verification/Interfaces.thy ===== *)
theory Interfaces
  imports Prelude
begin

section \<open>Interfaces several components share\<close>

text \<open>
  Five contracts recur in the daemon, and each is a locale here with the lemmas its clients need.
  \<^item> \<open>id_allocator\<close>: a registry that hands out ids from a counter. \<open>SessionManager\<close>,
    \<open>InhibitorRegistry\<close> and \<open>ElevationManager\<close> are such registries.
  \<^item> \<open>deadline_timer\<close> and its extension \<open>cancellable_timer\<close>: a map from keys to deadlines
    that is swept once a second. \<open>LockTimeouts\<close> holds two of them, \<open>ElevationTimeouts\<close> two.
  \<^item> \<open>refinement\<close>: the calls of a component implement those of a specification with the same
    answers, through a view of the state, while an invariant holds; the lock manager,
    the elevation manager and the seats do.
  \<^item> \<open>bounded_invariant\<close>: a step relation with a property that every step keeps, as long as the
    run is shorter than a bound (the bound is where a 32-bit counter would wrap);
    \<open>step_invariant\<close>, for a property kept without a bound, is one for every bound.
\<close>

subsection \<open>Operations on a registry of ids\<close>

datatype ('a, 'i) id_op = Alloc 'a | Release 'i

fun issued_ids ::
  "('a \<Rightarrow> 's \<Rightarrow> 's \<times> 'i option) \<Rightarrow> ('i \<Rightarrow> 's \<Rightarrow> 's) \<Rightarrow> ('a, 'i) id_op list \<Rightarrow> 's \<Rightarrow> 'i list"
where
  "issued_ids alloc release [] s = []"
| "issued_ids alloc release (Alloc a # ops) s =
     (case alloc a s of
        (s', None) \<Rightarrow> issued_ids alloc release ops s'
      | (s', Some i) \<Rightarrow> i # issued_ids alloc release ops s')"
| "issued_ids alloc release (Release i # ops) s = issued_ids alloc release ops (release i s)"

definition ids_below :: "('i::len word \<Rightarrow> 'v option) \<Rightarrow> nat \<Rightarrow> bool" where
  "ids_below look n \<longleftrightarrow> (\<forall>i. look i \<noteq> None \<longrightarrow> 0 < unat i \<and> unat i \<le> n)"

subsection \<open>Runs of a step relation\<close>

inductive run :: "('s \<Rightarrow> 'e \<Rightarrow> 's \<Rightarrow> bool) \<Rightarrow> 's \<Rightarrow> 'e list \<Rightarrow> 's \<Rightarrow> bool" for step where
  run_start: "run step s [] s"
| run_step: "run step s es t \<Longrightarrow> step t e u \<Longrightarrow> run step s (es @ [e]) u"

subsection \<open>Histories of calls\<close>

fun calls :: "('o \<Rightarrow> 's \<Rightarrow> 's \<times> 'r) \<Rightarrow> 'o list \<Rightarrow> 's \<Rightarrow> 's \<times> 'r list" where
  "calls call [] s = (s, [])"
| "calls call (x # xs) s = (case call x s of (s', r) \<Rightarrow> (case calls call xs s' of (s'', rs) \<Rightarrow> (s'', r # rs)))"

text \<open>A history in which every call meets its precondition, judged on the specification.\<close>

fun admitted :: "('o \<Rightarrow> 'a \<Rightarrow> bool) \<Rightarrow> ('o \<Rightarrow> 'a \<Rightarrow> 'a \<times> 'r) \<Rightarrow> 'o list \<Rightarrow> 'a \<Rightarrow> bool" where
  "admitted admits spec [] a \<longleftrightarrow> True"
| "admitted admits spec (x # xs) a \<longleftrightarrow> admits x a \<and> admitted admits spec xs (fst (spec x a))"

subsection \<open>Registries that allocate ids\<close>

locale id_allocator =
  fixes look :: "'s \<Rightarrow> 'i::len word \<Rightarrow> 'v option"
    and high :: "'s \<Rightarrow> nat"
    and alloc :: "'a \<Rightarrow> 's \<Rightarrow> 's \<times> 'i word option"
    and release :: "'i word \<Rightarrow> 's \<Rightarrow> 's"
    and reg_ok :: "'s \<Rightarrow> bool"
    and limit :: nat
  assumes alloc_Some: "reg_ok s \<Longrightarrow> Suc (high s) < limit \<Longrightarrow> alloc a s = (s', Some i) \<Longrightarrow>
      unat i = Suc (high s) \<and> high s' = Suc (high s)"
    and alloc_None: "reg_ok s \<Longrightarrow> Suc (high s) < limit \<Longrightarrow> alloc a s = (s', None) \<Longrightarrow>
      look s' = look s \<and> high s \<le> high s' \<and> high s' \<le> Suc (high s)"
    and alloc_ok: "reg_ok s \<Longrightarrow> Suc (high s) < limit \<Longrightarrow> alloc a s = (s', r) \<Longrightarrow> reg_ok s'"
    and alloc_look: "alloc a s = (s', Some i) \<Longrightarrow>
      look s' i \<noteq> None \<and> (\<forall>j. j \<noteq> i \<longrightarrow> look s' j = look s j)"
    and release_look: "look (release i s) = (look s)(i := None)"
    and release_high: "high (release i s) = high s"
    and release_ok: "reg_ok s \<Longrightarrow> reg_ok (release i s)"
begin

lemma alloc_fresh:
  assumes "ids_below (look s) (high s)" "reg_ok s" "Suc (high s) < limit" "alloc a s = (s', Some i)"
  shows "look s i = None"
proof (rule ccontr)
  assume "look s i \<noteq> None"
  with assms(1) have "unat i \<le> high s" by (simp add: ids_below_def)
  moreover from assms(2-) have "unat i = Suc (high s)" by (blast dest: alloc_Some)
  ultimately show False by simp
qed

lemma alloc_below:
  assumes "ids_below (look s) (high s)" "reg_ok s" "Suc (high s) < limit" "alloc a s = (s', r)"
  shows "ids_below (look s') (high s')"
proof (cases r)
  case None
  with assms show ?thesis
    using alloc_None [of s a s'] by (auto simp: ids_below_def intro: le_trans)
next
  case (Some i)
  with assms(2-) have hi: "unat i = Suc (high s)" "high s' = Suc (high s)"
    by (auto dest: alloc_Some)
  from Some assms(4) have "\<forall>j. j \<noteq> i \<longrightarrow> look s' j = look s j" by (auto dest: alloc_look)
  with assms(1) hi show ?thesis
    unfolding ids_below_def by (metis le_Suc_eq zero_less_Suc)
qed

lemma release_below: "ids_below (look s) (high s) \<Longrightarrow> ids_below (look (release i s)) (high (release i s))"
  by (simp add: ids_below_def release_look release_high)

lemma alloc_high:
  assumes "reg_ok s" "high s + length (Alloc a # ops) < limit" "alloc a s = (s', r)"
  shows "reg_ok s' \<and> high s \<le> high s' \<and> high s' + length ops < limit"
proof -
  have lim: "Suc (high s) < limit" using assms(2) by simp
  then have "high s \<le> high s' \<and> high s' \<le> Suc (high s)"
    using assms alloc_None [of s a s'] alloc_Some [of s a s'] by (cases r) auto
  with assms alloc_ok [OF assms(1) lim assms(3)] show ?thesis by auto
qed

lemma issued_above:
  "reg_ok s \<Longrightarrow> high s + length ops < limit \<Longrightarrow> i \<in> set (issued_ids alloc release ops s)
   \<Longrightarrow> high s < unat i"
proof (induction ops arbitrary: s)
  case Nil
  then show ?case by simp
next
  case (Cons oper ops)
  show ?case
  proof (cases oper)
    case (Alloc a)
    obtain s' r where al: "alloc a s = (s', r)" by fastforce
    from alloc_high [OF Cons.prems(1) _ al, of ops] Cons.prems(2) Alloc
    have hi: "reg_ok s'" "high s \<le> high s'" "high s' + length ops < limit" by auto
    from Cons.prems(2) have lim: "Suc (high s) < limit" by simp
    from Cons.prems(3) Alloc al have "r = Some i \<or> i \<in> set (issued_ids alloc release ops s')"
      by (auto split: option.splits)
    then show ?thesis
    proof
      assume "r = Some i"
      with alloc_Some [OF Cons.prems(1) lim] al show ?thesis by auto
    next
      assume "i \<in> set (issued_ids alloc release ops s')"
      with Cons.IH [OF hi(1,3)] hi(2) show ?thesis by simp
    qed
  next
    case (Release j)
    with Cons.prems Cons.IH [of "release j s"] show ?thesis by (simp add: release_high release_ok)
  qed
qed

lemma issued_distinct:
  "reg_ok s \<Longrightarrow> high s + length ops < limit \<Longrightarrow> distinct (issued_ids alloc release ops s)"
proof (induction ops arbitrary: s)
  case Nil
  then show ?case by simp
next
  case (Cons oper ops)
  show ?case
  proof (cases oper)
    case (Alloc a)
    obtain s' r where al: "alloc a s = (s', r)" by fastforce
    from alloc_high [OF Cons.prems(1) _ al, of ops] Cons.prems(2) Alloc
    have hi: "reg_ok s'" "high s' + length ops < limit" by auto
    show ?thesis
    proof (cases r)
      case None
      with Alloc al Cons.IH [OF hi] show ?thesis by simp
    next
      case (Some i)
      from Cons.prems(2) have "Suc (high s) < limit" by simp
      from alloc_Some [OF Cons.prems(1) this] al Some have "unat i = high s'" by auto
      then have "i \<notin> set (issued_ids alloc release ops s')"
        using issued_above [OF hi] by fastforce
      with Alloc al Some Cons.IH [OF hi] show ?thesis by simp
    qed
  next
    case (Release j)
    with Cons show ?thesis by (simp add: release_high release_ok)
  qed
qed

end

subsection \<open>Deadlines swept by a periodic tick\<close>

locale deadline_timer =
  fixes deadline :: "'s \<Rightarrow> 'k \<Rightarrow> instant option"
    and start :: "'s \<Rightarrow> 'k \<Rightarrow> instant \<Rightarrow> duration \<Rightarrow> 's"
    and drain :: "'s \<Rightarrow> instant \<Rightarrow> 's \<times> 'k list"
    and timer_ok :: "'s \<Rightarrow> bool"
  assumes start_deadline: "deadline (start s k now d) = (deadline s)(k := Some (now + d))"
    and drain_reports: "timer_ok s \<Longrightarrow>
      k \<in> set (snd (drain s now)) \<longleftrightarrow> (\<exists>t. deadline s k = Some t \<and> t \<le> now)"
    and drain_distinct: "timer_ok s \<Longrightarrow> distinct (snd (drain s now))"
    and drain_deadline: "timer_ok s \<Longrightarrow> deadline (fst (drain s now)) k =
      (if k \<in> set (snd (drain s now)) then None else deadline s k)"
    and start_ok: "timer_ok s \<Longrightarrow> timer_ok (start s k now d)"
    and drain_ok: "timer_ok s \<Longrightarrow> timer_ok (fst (drain s now))"
begin

lemma fires_exactly_when_due:
  assumes "timer_ok s"
  shows "k \<in> set (snd (drain (start s k now d) later)) \<longleftrightarrow> now + d \<le> later"
  using assms by (simp add: drain_reports start_ok start_deadline)

lemma fires_once:
  assumes "timer_ok s" "k \<in> set (snd (drain s now))"
  shows "k \<notin> set (snd (drain (fst (drain s now)) later))"
  using assms by (simp add: drain_reports drain_ok drain_deadline)

lemma pending_survives:
  assumes "timer_ok s" "deadline s k = Some t" "now < t"
  shows "deadline (fst (drain s now)) k = Some t"
  using assms by (simp add: drain_deadline drain_reports)

end

locale cancellable_timer = deadline_timer +
  fixes cancel :: "'s \<Rightarrow> 'k \<Rightarrow> 's"
  assumes cancel_deadline: "deadline (cancel s k) = (deadline s)(k := None)"
    and cancel_ok: "timer_ok s \<Longrightarrow> timer_ok (cancel s k)"
begin

lemma cancelled_never_fires:
  assumes "timer_ok s"
  shows "k \<notin> set (snd (drain (cancel s k) now))"
  using assms by (simp add: drain_reports cancel_ok cancel_deadline)

end

subsection \<open>Invariants along bounded runs\<close>

locale bounded_invariant =
  fixes step :: "'s \<Rightarrow> 'e \<Rightarrow> 's \<Rightarrow> bool"
    and start :: "'s \<Rightarrow> bool"
    and inv :: "nat \<Rightarrow> 's \<Rightarrow> bool"
    and bound :: nat
  assumes inv_start: "start s \<Longrightarrow> inv 0 s"
    and inv_step: "inv n s \<Longrightarrow> n < bound \<Longrightarrow> step s e t \<Longrightarrow> inv (Suc n) t"
begin

lemma run_inv: "run step s es t \<Longrightarrow> start s \<Longrightarrow> length es \<le> bound \<Longrightarrow> inv (length es) t"
proof (induction rule: run.induct)
  case (run_start s)
  then show ?case by (simp add: inv_start)
next
  case (run_step s es t e u)
  then show ?case by (auto intro: inv_step)
qed

end

subsection \<open>Invariants along all runs\<close>

locale step_invariant =
  fixes step :: "'s \<Rightarrow> 'e \<Rightarrow> 's \<Rightarrow> bool"
    and start :: "'s \<Rightarrow> bool"
    and inv :: "'s \<Rightarrow> bool"
  assumes start_inv: "start s \<Longrightarrow> inv s"
    and step_inv: "inv s \<Longrightarrow> step s e t \<Longrightarrow> inv t"

sublocale step_invariant \<subseteq> upto: bounded_invariant step start "\<lambda>_. inv" n for n
  by unfold_locales (auto intro: start_inv step_inv)

context step_invariant
begin

lemma always: "run step s es t \<Longrightarrow> start s \<Longrightarrow> inv t"
  using upto.run_inv [where n = "length es"] by blast

end

subsection \<open>Components that implement a specification\<close>

locale refinement =
  fixes call :: "'o \<Rightarrow> 'c \<Rightarrow> 'c \<times> 'r"
    and spec :: "'o \<Rightarrow> 'a \<Rightarrow> 'a \<times> 'r"
    and view :: "'c \<Rightarrow> 'a"
    and keeps :: "nat \<Rightarrow> 'c \<Rightarrow> bool"
    and admits :: "'o \<Rightarrow> 'a \<Rightarrow> bool"
    and bound :: nat
  assumes call_refines: "keeps n s \<Longrightarrow> n < bound \<Longrightarrow> admits x (view s) \<Longrightarrow> call x s = (s', r) \<Longrightarrow>
      spec x (view s) = (view s', r) \<and> keeps (Suc n) s'"
begin

lemma calls_refine:
  assumes "keeps n s" "n + length xs \<le> bound" "admitted admits spec xs (view s)" "calls call xs s = (s', rs)"
  shows "calls spec xs (view s) = (view s', rs) \<and> keeps (n + length xs) s'"
  using assms
proof (induction xs arbitrary: n s s' rs)
  case Nil
  then show ?case by simp
next
  case (Cons x xs)
  obtain t r where t: "call x s = (t, r)" by fastforce
  with Cons.prems(4) obtain qs where qs: "calls call xs t = (s', qs)" "rs = r # qs" by (auto split: prod.splits)
  have one: "spec x (view s) = (view t, r)" "keeps (Suc n) t"
    using call_refines [OF Cons.prems(1) _ _ t] Cons.prems(2,3) by simp_all
  with Cons.prems(3) have "admitted admits spec xs (view t)" by simp
  with Cons.IH [OF one(2) _ _ qs(1)] Cons.prems(2) one(1) qs(2) show ?case by simp
qed

end

end
