(* ===== verification/Session.thy ===== *)
theory Session
  imports Config User_Account Interfaces "HOL-Library.Char_ord" "HOL-Library.List_Lexorder"
begin

section \<open>Sessions: state machine, environment, lifecycle, registry\<close>

text \<open>
  \<open>src/session/\<close>: the session facts (\<open>session.rs\<close>), the lifecycle state machine (\<open>state.rs\<close>), the
  environment of a session's processes (\<open>environment.rs\<close>), the manager's record of a session
  (\<open>context.rs\<close>), starting and ending one (\<open>lifecycle.rs\<close>) and the registry (\<open>manager.rs\<close>).
  Functions that make system calls return the calls beside their result.
\<close>

subsection \<open>Session facts\<close>

type_synonym session_id = u32
type_synonym conn_id = u64

datatype session_type = Wayland | X11 | Tty

fun as_xdg_str :: "session_type \<Rightarrow> string" where
  "as_xdg_str Wayland = ''wayland''"
| "as_xdg_str X11 = ''x11''"
| "as_xdg_str Tty = ''tty''"

record session =
  sess_id :: session_id
  sess_uid :: u32
  sess_user_name :: string
  sess_seat_id :: string
  sess_type :: session_type
  sess_vt :: "u32 option"
  sess_created_at :: nat

subsection \<open>The lifecycle state machine\<close>

datatype session_state = Starting | Active | Idle | Locked | Closing | Closed

fun state_debug :: "session_state \<Rightarrow> string" where
  "state_debug Starting = ''Starting''"
| "state_debug Active = ''Active''"
| "state_debug Idle = ''Idle''"
| "state_debug Locked = ''Locked''"
| "state_debug Closing = ''Closing''"
| "state_debug Closed = ''Closed''"

definition can_transition_to :: "session_state \<Rightarrow> session_state \<Rightarrow> bool" where
  "can_transition_to s next \<longleftrightarrow>
     (s, next) \<in>
       {(Starting, Active), (Starting, Closing), (Starting, Locked),
        (Active, Idle), (Active, Locked), (Active, Closing), (Active, Starting),
        (Idle, Active), (Idle, Locked), (Idle, Closing), (Idle, Starting),
        (Locked, Active), (Locked, Closing), (Locked, Starting),
        (Closing, Closed)}"

definition state_transition :: "session_state \<Rightarrow> session_state \<Rightarrow> session_state result" where
  "state_transition s next =
     (if can_transition_to s next then Inr next
      else Inl (InvalidTransition (state_debug s @ '' -> '' @ state_debug next)))"

definition state_is_locked :: "session_state \<Rightarrow> bool" where
  "state_is_locked s \<longleftrightarrow> s = Locked"

subsection \<open>Environment\<close>

text \<open>\<open>BTreeMap<String, String>\<close>: an association list kept in key order.\<close>

type_synonym environment = "(string \<times> string) list"

fun env_set :: "string \<Rightarrow> string \<Rightarrow> environment \<Rightarrow> environment" where
  "env_set k v [] = [(k, v)]"
| "env_set k v ((k', v') # rest) =
     (if k = k' then (k, v) # rest
      else if k < k' then (k, v) # (k', v') # rest
      else (k', v') # env_set k v rest)"

definition env_get :: "environment \<Rightarrow> string \<Rightarrow> string option" where
  "env_get e k = map_of e k"

definition for_session ::
  "user \<Rightarrow> session_id \<Rightarrow> session_type \<Rightarrow> string \<Rightarrow> string \<Rightarrow> environment \<times> string" where
  "for_session u sid st seat_id runtime_base =
     (let runtime_dir = path_join runtime_base (show_word (user_uid u));
          e1 = env_set ''HOME'' (user_home u) [];
          e2 = env_set ''USER'' (user_name u) e1;
          e3 = env_set ''LOGNAME'' (user_name u) e2;
          e4 = env_set ''SHELL'' (user_shell u) e3;
          e5 = env_set ''XDG_RUNTIME_DIR'' runtime_dir e4;
          e6 = env_set ''XDG_SESSION_ID'' (show_word sid) e5;
          e7 = env_set ''XDG_SEAT'' seat_id e6;
          e8 = env_set ''XDG_SESSION_TYPE'' (as_xdg_str st) e7;
          e9 = env_set ''PATH'' ''/usr/local/bin:/usr/bin:/bin'' e8
      in (e9, runtime_dir))"

definition ensure_runtime_dir :: "fs \<Rightarrow> string \<Rightarrow> user \<Rightarrow> fs_op list \<times> unit result" where
  "ensure_runtime_dir os path u =
     (case perform_all (fs_answer os)
             [CreateDirAll path, SetPermissions path mode_700, Chown path (user_uid u) (user_gid u)] of
        (made, r) \<Rightarrow> (made, map_err IoError r))"

subsection \<open>The manager's record of a session\<close>

record session_context =
  ctx_session :: session
  ctx_user :: user
  ctx_state :: session_state
  ctx_environment :: environment
  ctx_compositor_conn :: "conn_id option"
  ctx_compositor_process :: "u32 option"
  ctx_compositor_restarts :: u32

definition ctx_id :: "session_context \<Rightarrow> session_id" where
  "ctx_id ctx = sess_id (ctx_session ctx)"

definition ctx_transition :: "session_context \<Rightarrow> session_state \<Rightarrow> session_context \<times> unit result" where
  "ctx_transition ctx next =
     (case state_transition (ctx_state ctx) next of
        Inl e \<Rightarrow> (ctx, Inl e)
      | Inr st \<Rightarrow> (ctx\<lparr>ctx_state := st\<rparr>, Inr ()))"

text \<open>\<open>let _ = ctx.transition(next)\<close>: an invalid transition is ignored.\<close>

definition try_transition :: "session_state \<Rightarrow> session_context \<Rightarrow> session_context" where
  "try_transition next ctx = fst (ctx_transition ctx next)"

subsection \<open>Starting and ending a session\<close>

datatype proc_op = KillChild u32 | WaitChild u32

definition lifecycle_begin ::
  "fs \<Rightarrow> nat \<Rightarrow> session_id \<Rightarrow> user \<Rightarrow> string \<Rightarrow> session_type \<Rightarrow> session_settings
   \<Rightarrow> fs_op list \<times> session_context result" where
  "lifecycle_begin os now sid u seat_id st settings =
     (case ensure_home_ready os u of
        (made, Inl e) \<Rightarrow> (made, Inl e)
      | (made, Inr _) \<Rightarrow>
          (case for_session u sid st seat_id (runtime_dir settings) of
             (env, dir) \<Rightarrow>
               (case ensure_runtime_dir os dir u of
                  (made', Inl e) \<Rightarrow> (made @ made', Inl e)
                | (made', Inr _) \<Rightarrow>
                    (made @ made',
                     Inr \<lparr>ctx_session =
                            \<lparr>sess_id = sid, sess_uid = user_uid u, sess_user_name = user_name u,
                             sess_seat_id = seat_id, sess_type = st, sess_vt = None,
                             sess_created_at = now\<rparr>,
                          ctx_user = u, ctx_state = Starting, ctx_environment = env,
                          ctx_compositor_conn = None, ctx_compositor_process = None,
                          ctx_compositor_restarts = 0\<rparr>))))"

definition lifecycle_end :: "session_context \<Rightarrow> proc_op list \<times> session_context" where
  "lifecycle_end ctx =
     ((case ctx_compositor_process ctx of
         None \<Rightarrow> []
       | Some pid \<Rightarrow> [KillChild pid, WaitChild pid]),
      ctx\<lparr>ctx_compositor_process := None,
          ctx_state := (case state_transition (ctx_state ctx) Closed of
                          Inl _ \<Rightarrow> Closed | Inr st \<Rightarrow> st)\<rparr>)"

subsection \<open>The registry\<close>

record session_manager =
  sm_sessions :: "(session_id, session_context) hash_map"
  sm_next_id :: session_id

definition sm_new :: session_manager where
  "sm_new = \<lparr>sm_sessions = [], sm_next_id = 1\<rparr>"

definition sessions_of_uid :: "u32 \<Rightarrow> session_manager \<Rightarrow> nat" where
  "sessions_of_uid uid m = hm_count (\<lambda>c. user_uid (ctx_user c) = uid) (sm_sessions m)"

definition sm_create_session ::
  "fs \<Rightarrow> nat \<Rightarrow> user \<Rightarrow> string \<Rightarrow> session_type \<Rightarrow> session_settings \<Rightarrow> session_manager
   \<Rightarrow> session_manager \<times> fs_op list \<times> session_id result" where
  "sm_create_session os now u seat_id st settings m =
     (let existing = (of_nat (sessions_of_uid (user_uid u) m) :: u32)
      in if existing \<ge> max_sessions_per_user settings then
           (m, [], Inl (PermissionDenied
              (user_name u @ '' already has '' @ show_word existing @ '' session(s) open (limit ''
               @ show_word (max_sessions_per_user settings) @ '')'')))
         else
           (let sid = sm_next_id m;
                m' = m\<lparr>sm_next_id := sm_next_id m + 1\<rparr>
            in (case lifecycle_begin os now sid u seat_id st settings of
                  (made, Inl e) \<Rightarrow> (m', made, Inl e)
                | (made, Inr ctx) \<Rightarrow>
                    (m'\<lparr>sm_sessions := hm_insert sid ctx (sm_sessions m')\<rparr>, made, Inr sid))))"

definition sm_terminate_session ::
  "session_id \<Rightarrow> session_manager \<Rightarrow> session_manager \<times> proc_op list \<times> unit result" where
  "sm_terminate_session sid m =
     (case hm_get (sm_sessions m) sid of
        None \<Rightarrow> (m, [], Inl (UnknownSession sid))
      | Some ctx \<Rightarrow>
          (m\<lparr>sm_sessions := hm_remove sid (sm_sessions m)\<rparr>, fst (lifecycle_end ctx), Inr ()))"

definition sm_get :: "session_manager \<Rightarrow> session_id \<Rightarrow> session_context result" where
  "sm_get m sid = ok_or (UnknownSession sid) (hm_get (sm_sessions m) sid)"

text \<open>\<open>get_mut\<close> followed by a mutation: nothing happens to an unknown session.\<close>

definition sm_modify ::
  "session_id \<Rightarrow> (session_context \<Rightarrow> session_context) \<Rightarrow> session_manager \<Rightarrow> session_manager" where
  "sm_modify sid f m = m\<lparr>sm_sessions := hm_modify sid f (sm_sessions m)\<rparr>"

definition sm_list :: "session_manager \<Rightarrow> session_context list" where
  "sm_list m = hm_values (sm_sessions m)"

definition sm_map_all ::
  "(session_context \<Rightarrow> session_context) \<Rightarrow> session_manager \<Rightarrow> session_manager" where
  "sm_map_all f m = m\<lparr>sm_sessions := hm_map_values f (sm_sessions m)\<rparr>"

definition sm_set_state ::
  "session_id \<Rightarrow> session_state \<Rightarrow> session_manager \<Rightarrow> session_manager \<times> unit result" where
  "sm_set_state sid next m =
     (case sm_get m sid of
        Inl e \<Rightarrow> (m, Inl e)
      | Inr ctx \<Rightarrow> (sm_modify sid (try_transition next) m, snd (ctx_transition ctx next)))"

definition owner_uid :: "session_manager \<Rightarrow> session_id \<Rightarrow> u32 result" where
  "owner_uid m sid =
     (case sm_get m sid of Inl e \<Rightarrow> Inl e | Inr ctx \<Rightarrow> Inr (sess_uid (ctx_session ctx)))"

text \<open>
  Terminating every session in turn, as \<open>power::reboot\<close>, \<open>power::poweroff\<close> and
  \<open>signals::graceful_shutdown\<close> do with the ids they first collect.
\<close>

fun sm_terminate_all :: "session_id list \<Rightarrow> session_manager \<Rightarrow> session_manager \<times> proc_op list" where
  "sm_terminate_all [] m = (m, [])"
| "sm_terminate_all (sid # sids) m =
     (case sm_terminate_session sid m of
        (m', made, _) \<Rightarrow>
          (case sm_terminate_all sids m' of (m'', made') \<Rightarrow> (m'', made @ made')))"

subsection \<open>Well-formed registries\<close>

definition ctx_ok :: "session_id \<Rightarrow> session_context \<Rightarrow> bool" where
  "ctx_ok sid ctx \<longleftrightarrow> ctx_id ctx = sid \<and> sess_uid (ctx_session ctx) = user_uid (ctx_user ctx)
     \<and> sess_user_name (ctx_session ctx) = user_name (ctx_user ctx)"

definition sm_high :: "session_manager \<Rightarrow> nat" where
  "sm_high m = unat (sm_next_id m) - 1"

definition sm_inv :: "session_manager \<Rightarrow> bool" where
  "sm_inv m \<longleftrightarrow> hm_ok (sm_sessions m) \<and> sm_next_id m \<noteq> 0
     \<and> ids_below (hm_get (sm_sessions m)) (sm_high m)
     \<and> (\<forall>sid ctx. hm_get (sm_sessions m) sid = Some ctx \<longrightarrow> ctx_ok sid ctx)"

text \<open>The arguments of \<open>create_session\<close> and \<open>terminate_session\<close> as registry operations.\<close>

type_synonym create_args = "fs \<times> nat \<times> user \<times> string \<times> session_type \<times> session_settings"

fun sm_alloc :: "create_args \<Rightarrow> session_manager \<Rightarrow> session_manager \<times> session_id option" where
  "sm_alloc (os, now, u, seat_id, st, settings) m =
     (case sm_create_session os now u seat_id st settings m of
        (m', _, Inl _) \<Rightarrow> (m', None)
      | (m', _, Inr sid) \<Rightarrow> (m', Some sid))"

definition sm_release :: "session_id \<Rightarrow> session_manager \<Rightarrow> session_manager" where
  "sm_release sid m = fst (sm_terminate_session sid m)"

text \<open>A file system with a home directory for \<open>alice\<close>, and a registry with one session of hers.\<close>

definition sample_fs :: fs where
  "sample_fs = \<lparr>fs_metadata = (\<lambda>_. Inr \<lparr>md_uid = 1000, md_is_dir = True\<rparr>), fs_answer = (\<lambda>_. Inr ())\<rparr>"

definition sample_sessions :: session_manager where
  "sample_sessions =
     fst (sm_create_session sample_fs 0 alice ''seat0'' Wayland default_session_settings sm_new)"

text \<open>The states of a session that has not been asked to end.\<close>

definition live_state :: "session_state \<Rightarrow> bool" where
  "live_state s \<longleftrightarrow> s \<in> {Starting, Active, Idle, Locked}"

text \<open>The state a sequence of requested transitions leads to, a refused one changing nothing.\<close>

definition follow :: "session_state list \<Rightarrow> session_state \<Rightarrow> session_state" where
  "follow ts s = fold (\<lambda>next s. if can_transition_to s next then next else s) ts s"

subsection \<open>Lemmas on the state machine and contexts\<close>

lemma can_transition_simps [simp]:
  "can_transition_to Starting n \<longleftrightarrow> n \<in> {Active, Closing, Locked}"
  "can_transition_to Active n \<longleftrightarrow> n \<in> {Idle, Locked, Closing, Starting}"
  "can_transition_to Idle n \<longleftrightarrow> n \<in> {Active, Locked, Closing, Starting}"
  "can_transition_to Locked n \<longleftrightarrow> n \<in> {Active, Closing, Starting}"
  "can_transition_to Closing n \<longleftrightarrow> n = Closed"
  "\<not> can_transition_to Closed n"
  by (auto simp: can_transition_to_def)

lemma ctx_state_try_transition:
  "ctx_state (try_transition next ctx) =
     (if can_transition_to (ctx_state ctx) next then next else ctx_state ctx)"
  by (simp add: try_transition_def ctx_transition_def state_transition_def)

lemma try_transition_fields [simp]:
  "ctx_session (try_transition next ctx) = ctx_session ctx"
  "ctx_user (try_transition next ctx) = ctx_user ctx"
  "ctx_environment (try_transition next ctx) = ctx_environment ctx"
  "ctx_compositor_conn (try_transition next ctx) = ctx_compositor_conn ctx"
  "ctx_compositor_process (try_transition next ctx) = ctx_compositor_process ctx"
  "ctx_compositor_restarts (try_transition next ctx) = ctx_compositor_restarts ctx"
  by (simp_all add: try_transition_def ctx_transition_def split: sum.split)

lemma ctx_ok_cong:
  "ctx_session ctx' = ctx_session ctx \<Longrightarrow> ctx_user ctx' = ctx_user ctx \<Longrightarrow> ctx_ok sid ctx' = ctx_ok sid ctx"
  by (simp add: ctx_ok_def ctx_id_def)

lemma lifecycle_begin_ctx:
  "lifecycle_begin os now sid u seat_id st settings = (made, Inr ctx) \<Longrightarrow>
     ctx_ok sid ctx \<and> ctx_user ctx = u \<and> ctx_state ctx = Starting \<and> ctx_compositor_conn ctx = None
     \<and> ctx_compositor_process ctx = None \<and> ctx_compositor_restarts ctx = 0
     \<and> sess_seat_id (ctx_session ctx) = seat_id \<and> sess_type (ctx_session ctx) = st"
  by (auto simp: lifecycle_begin_def ctx_ok_def ctx_id_def split: prod.splits sum.splits)

lemma lifecycle_end_closed: "ctx_state (snd (lifecycle_end ctx)) = Closed"
  by (cases "ctx_state ctx") (auto simp: lifecycle_end_def state_transition_def)

subsection \<open>Lemmas on the registry\<close>

lemma sm_get_Inr [simp]: "sm_get m sid = Inr ctx \<longleftrightarrow> hm_get (sm_sessions m) sid = Some ctx"
  by (simp add: sm_get_def)

lemma sm_get_Inl: "sm_get m sid = Inl e \<longleftrightarrow> hm_get (sm_sessions m) sid = None \<and> e = UnknownSession sid"
  by (simp add: sm_get_def)

lemma sm_modify_next_id [simp]: "sm_next_id (sm_modify sid f m) = sm_next_id m"
  by (simp add: sm_modify_def)

lemma sm_modify_get [simp]:
  "hm_get (sm_sessions (sm_modify sid f m)) sid' =
     (if sid' = sid then map_option f (hm_get (sm_sessions m) sid') else hm_get (sm_sessions m) sid')"
  by (simp add: sm_modify_def)

lemma sm_map_all_get [simp]:
  "hm_get (sm_sessions (sm_map_all f m)) sid = map_option f (hm_get (sm_sessions m) sid)"
  by (simp add: sm_map_all_def)

lemma sm_inv_new [simp]: "sm_inv sm_new"
  by (simp add: sm_inv_def sm_new_def ids_below_def)

lemma sm_inv_update:
  assumes inv: "sm_inv m" and ok: "hm_ok (sm_sessions m')" and next_id: "sm_next_id m' = sm_next_id m"
    and upd: "\<And>i ctx'. hm_get (sm_sessions m') i = Some ctx' \<Longrightarrow>
      \<exists>ctx. hm_get (sm_sessions m) i = Some ctx \<and> ctx_session ctx' = ctx_session ctx \<and> ctx_user ctx' = ctx_user ctx"
  shows "sm_inv m'"
proof -
  have "hm_get (sm_sessions m) i \<noteq> None" if "hm_get (sm_sessions m') i \<noteq> None" for i
    using that upd by auto
  moreover have "ids_below (hm_get (sm_sessions m)) (sm_high m)" and "sm_high m' = sm_high m"
    using inv next_id by (simp_all add: sm_inv_def sm_high_def)
  ultimately have below: "ids_below (hm_get (sm_sessions m')) (sm_high m')"
    unfolding ids_below_def by metis
  have "ctx_ok i ctx'" if get: "hm_get (sm_sessions m') i = Some ctx'" for i ctx'
  proof -
    from upd [OF get] obtain ctx where "hm_get (sm_sessions m) i = Some ctx"
      and same: "ctx_session ctx' = ctx_session ctx" "ctx_user ctx' = ctx_user ctx" by blast
    with inv have "ctx_ok i ctx" by (simp add: sm_inv_def)
    with ctx_ok_cong [OF same] show ?thesis by simp
  qed
  with below inv ok next_id show ?thesis by (simp add: sm_inv_def)
qed

lemma sm_inv_modify:
  assumes "sm_inv m" "\<And>ctx. ctx_session (f ctx) = ctx_session ctx \<and> ctx_user (f ctx) = ctx_user ctx"
  shows "sm_inv (sm_modify sid f m)"
proof (rule sm_inv_update [OF assms(1)])
  show "hm_ok (sm_sessions (sm_modify sid f m))" using assms(1) by (simp add: sm_inv_def sm_modify_def)
qed (auto simp: assms(2) split: if_splits)

lemma sm_inv_map_all:
  assumes "sm_inv m" "\<And>ctx. ctx_session (f ctx) = ctx_session ctx \<and> ctx_user (f ctx) = ctx_user ctx"
  shows "sm_inv (sm_map_all f m)"
proof (rule sm_inv_update [OF assms(1)])
  show "hm_ok (sm_sessions (sm_map_all f m))" using assms(1) by (simp add: sm_inv_def sm_map_all_def)
qed (auto simp: assms(2) sm_map_all_def)

lemma sm_terminate_cases:
  "sm_terminate_session sid m = (m', made, r) \<Longrightarrow>
     m' = m\<lparr>sm_sessions := sm_sessions m'\<rparr>
     \<and> (\<forall>i. hm_get (sm_sessions m') i = (if i = sid then None else hm_get (sm_sessions m) i))
     \<and> (r = Inr () \<longleftrightarrow> hm_get (sm_sessions m) sid \<noteq> None)"
  by (auto simp: sm_terminate_session_def split: option.splits)

lemma sm_inv_terminate: "sm_inv m \<Longrightarrow> sm_inv (fst (sm_terminate_session sid m))"
  by (auto simp: sm_inv_def sm_high_def ids_below_def sm_terminate_session_def split: option.splits)

lemma sm_next_id_terminate [simp]: "sm_next_id (fst (sm_terminate_session sid m)) = sm_next_id m"
  by (simp add: sm_terminate_session_def split: option.splits)

lemma sm_create_cases:
  "sm_create_session os now u seat_id st settings m = (m', made, r) \<Longrightarrow>
     (\<exists>e. r = Inl e \<and> sm_sessions m' = sm_sessions m \<and> sm_next_id m' \<in> {sm_next_id m, sm_next_id m + 1})
   \<or> (\<exists>ctx. r = Inr (sm_next_id m) \<and> sm_next_id m' = sm_next_id m + 1
        \<and> sm_sessions m' = hm_insert (sm_next_id m) ctx (sm_sessions m)
        \<and> ctx_ok (sm_next_id m) ctx \<and> ctx_user ctx = u \<and> ctx_state ctx = Starting
        \<and> ctx_compositor_conn ctx = None \<and> ctx_compositor_process ctx = None
        \<and> ctx_compositor_restarts ctx = 0
        \<and> sess_seat_id (ctx_session ctx) = seat_id \<and> sess_type (ctx_session ctx) = st
        \<and> of_nat (sessions_of_uid (user_uid u) m) < max_sessions_per_user settings)"
  by (auto simp: sm_create_session_def Let_def split: if_splits prod.splits sum.splits
      dest: lifecycle_begin_ctx)

lemma unat_Suc_word: "unat (w :: 'a::len word) + 1 < 2 ^ LENGTH('a) \<Longrightarrow> unat (w + 1) = unat w + 1"
  by (simp add: unat_word_ariths)

lemma sm_release_look: "hm_get (sm_sessions (sm_release i m)) = (hm_get (sm_sessions m))(i := None)"
  using sm_terminate_cases [of i m "fst (sm_terminate_session i m)"
      "fst (snd (sm_terminate_session i m))" "snd (snd (sm_terminate_session i m))"]
  by (auto simp: sm_release_def fun_eq_iff)

interpretation sm_ids: id_allocator
  "\<lambda>m. hm_get (sm_sessions m)" sm_high sm_alloc sm_release "\<lambda>m. sm_next_id m \<noteq> 0" "2 ^ 32 - 1"
proof (unfold_locales, goal_cases)
  case (1 s a s' i)
  have "unat (sm_next_id s) + 1 < 2 ^ LENGTH(32)" "0 < unat (sm_next_id s)"
    using 1(1,2) by (auto simp: sm_high_def unat_gt_0)
  then have "unat (sm_next_id s + 1) = unat (sm_next_id s) + 1" by (intro unat_Suc_word) auto
  with 1 \<open>0 < unat (sm_next_id s)\<close> show ?case
    by (cases a) (auto simp: sm_high_def split: prod.splits sum.splits dest!: sm_create_cases)
next
  case (2 s a s')
  have "unat (sm_next_id s) + 1 < 2 ^ LENGTH(32)" "0 < unat (sm_next_id s)"
    using 2(1,2) by (auto simp: sm_high_def unat_gt_0)
  then have "unat (sm_next_id s + 1) = unat (sm_next_id s) + 1" by (intro unat_Suc_word) auto
  with 2 show ?case
    by (cases a) (auto simp: sm_high_def split: prod.splits sum.splits dest!: sm_create_cases)
next
  case (3 s a s' r)
  have "unat (sm_next_id s) + 1 < 2 ^ LENGTH(32)"
    using 3(1,2) by (auto simp: sm_high_def unat_gt_0)
  then have "unat (sm_next_id s + 1) = unat (sm_next_id s) + 1" by (intro unat_Suc_word) auto
  then have "sm_next_id s + 1 \<noteq> 0" by (metis add_is_0 one_neq_zero unat_0)
  with 3 show ?case
    by (cases a) (auto split: prod.splits sum.splits dest!: sm_create_cases)
next
  case (4 a s s' i)
  then show ?case
    by (cases a) (auto split: prod.splits sum.splits dest!: sm_create_cases)
next
  case (5 i s)
  show ?case by (rule sm_release_look)
next
  case (6 i s)
  show ?case by (simp add: sm_release_def sm_high_def)
next
  case (7 s i)
  then show ?case by (simp add: sm_release_def)
qed

subsection \<open>Terminating every session\<close>

lemma sm_terminate_session_get:
  "hm_get (sm_sessions (fst (sm_terminate_session sid m))) i =
     (if i = sid then None else hm_get (sm_sessions m) i)"
  using sm_release_look [of sid m] by (simp add: sm_release_def)

lemma sm_terminate_all_Cons:
  "fst (sm_terminate_all (sid # sids) m) = fst (sm_terminate_all sids (fst (sm_terminate_session sid m)))"
  by (simp add: split_def)

lemma sm_terminate_all_get:
  "hm_get (sm_sessions (fst (sm_terminate_all sids m))) i =
     (if i \<in> set sids then None else hm_get (sm_sessions m) i)"
  by (induction sids arbitrary: m)
    (simp_all add: sm_terminate_all_Cons sm_terminate_session_get del: sm_terminate_all.simps(2))

lemma sm_terminate_all_inv:
  "sm_inv m \<Longrightarrow> sm_inv (fst (sm_terminate_all sids m)) \<and> sm_next_id (fst (sm_terminate_all sids m)) = sm_next_id m"
  by (induction sids arbitrary: m)
    (simp_all add: sm_terminate_all_Cons sm_inv_terminate del: sm_terminate_all.simps(2))

lemma sm_list_ids:
  assumes "sm_inv m"
  shows "set (map ctx_id (sm_list m)) = {sid. hm_get (sm_sessions m) sid \<noteq> None}"
proof -
  have ok: "hm_ok (sm_sessions m)" and id: "\<And>i c. hm_get (sm_sessions m) i = Some c \<Longrightarrow> ctx_id c = i"
    using assms by (auto simp: sm_inv_def ctx_ok_def)
  show ?thesis using id by (force simp: sm_list_def set_hm_values [OF ok])
qed

lemma terminate_every_session:
  assumes "sm_inv m"
  shows "hm_get (sm_sessions (fst (sm_terminate_all (map ctx_id (sm_list m)) m))) sid = None"
  using sm_list_ids [OF assms] by (auto simp: sm_terminate_all_get simp del: set_map)

lemma sm_inv_create:
  assumes inv: "sm_inv m" and lim: "Suc (sm_high m) < 2 ^ 32 - 1"
    and cr: "sm_create_session os now u seat_id st settings m = (m', made, r)"
  shows "sm_inv m'" "sm_high m' \<le> Suc (sm_high m)" "sm_high m \<le> sm_high m'"
    and "r = Inr sid \<Longrightarrow> hm_get (sm_sessions m) sid = None \<and> unat sid = Suc (sm_high m) \<and> sm_high m' = Suc (sm_high m)"
proof -
  let ?a = "(os, now, u, seat_id, st, settings)"
  have ok: "sm_next_id m \<noteq> 0" and below: "ids_below (hm_get (sm_sessions m)) (sm_high m)"
    using inv by (auto simp: sm_inv_def)
  obtain r' where al: "sm_alloc ?a m = (m', r')" and r': "\<And>i. r = Inr i \<longleftrightarrow> r' = Some i"
    using cr by (cases r) auto
  have below': "ids_below (hm_get (sm_sessions m')) (sm_high m')"
    by (rule sm_ids.alloc_below [OF below ok lim al])
  have ok': "sm_next_id m' \<noteq> 0" by (rule sm_ids.alloc_ok [OF ok lim al])
  have ctx: "ctx_ok i c" if "hm_get (sm_sessions m') i = Some c" for i c
    using that sm_create_cases [OF cr] inv by (auto simp: sm_inv_def split: if_splits)
  have "hm_ok (sm_sessions m')"
    using sm_create_cases [OF cr] inv by (auto simp: sm_inv_def)
  with below' ok' ctx show "sm_inv m'" by (simp add: sm_inv_def)
  show "sm_high m' \<le> Suc (sm_high m)" "sm_high m \<le> sm_high m'"
    using sm_ids.alloc_None [OF ok lim, of ?a m'] sm_ids.alloc_Some [OF ok lim, of ?a m'] al
    by (cases r', auto)+
  show "r = Inr sid \<Longrightarrow> hm_get (sm_sessions m) sid = None \<and> unat sid = Suc (sm_high m) \<and> sm_high m' = Suc (sm_high m)"
    using sm_ids.alloc_fresh [OF below ok lim, of ?a m' sid] sm_ids.alloc_Some [OF ok lim, of ?a m' sid] al r'
    by auto
qed

lemma sm_inv_sample: "sm_inv sample_sessions"
proof -
  have "Suc (sm_high sm_new) < 2 ^ 32 - 1" by (simp add: sm_high_def sm_new_def)
  from sm_inv_create(1) [OF sm_inv_new this] show ?thesis
    unfolding sample_sessions_def by (metis prod.collapse)
qed

subsection \<open>Sequences of transitions\<close>

lemma requests_follow: "ctx_state (fold (\<lambda>next c. fst (ctx_transition c next)) ts ctx) = follow ts (ctx_state ctx)"
  unfolding follow_def try_transition_def [symmetric] by (induction ts arbitrary: ctx) (simp_all add: ctx_state_try_transition)

lemma follow_range:
  "follow ts s = s \<or> s \<in> {Starting, Active, Idle, Locked} \<or> s = Closing \<and> follow ts s = Closed"
proof (induction ts arbitrary: s)
  case (Cons t ts)
  from Cons [of t] Cons [of s] show ?case by (cases s) (auto simp: follow_def)
qed (simp add: follow_def)

text \<open>Every live state leads to \<open>Active\<close> by way of \<open>Starting\<close>, and from there anywhere.\<close>

lemma follow_anywhere:
  assumes "s \<in> {Starting, Active, Idle, Locked}"
  shows "follow (if t = Closed then [Starting, Active, Closing, Closed] else [Starting, Active, t]) s = t"
  using assms by (cases t) (auto simp: follow_def)

lemma requests_reach:
  "(\<exists>ts. ctx_state (fold (\<lambda>next c. fst (ctx_transition c next)) ts ctx) = t) \<longleftrightarrow>
     ctx_state ctx = t \<or> ctx_state ctx \<in> {Starting, Active, Idle, Locked} \<or> ctx_state ctx = Closing \<and> t = Closed"
proof -
  have "follow [] s = s" "follow [Closed] Closing = Closed" for s by (simp_all add: follow_def)
  then show ?thesis unfolding requests_follow using follow_range follow_anywhere by metis
qed

lemma can_transition_rule:
  "can_transition_to s t \<longleftrightarrow>
     live_state s \<and> (if t = Idle then s = Active else t \<noteq> s \<and> t \<noteq> Closed) \<or> s = Closing \<and> t = Closed"
  by (cases s; cases t) (simp_all add: can_transition_to_def live_state_def)

lemma ctx_transition_rule:
  "ctx_transition ctx t =
     (let s = ctx_state ctx
      in if live_state s \<and> (if t = Idle then s = Active else t \<noteq> s \<and> t \<noteq> Closed) \<or> s = Closing \<and> t = Closed
         then (ctx\<lparr>ctx_state := t\<rparr>, Inr ())
         else (ctx, Inl (InvalidTransition (state_debug s @ '' -> '' @ state_debug t))))"
  by (simp add: ctx_transition_def state_transition_def can_transition_rule Let_def)

subsection \<open>Properties\<close>

text \<open>
  C17. Session ids are never reused: in every history of fewer than $2^{32} - 1$ creations and
  terminations the ids handed out are pairwise distinct and non-zero, also when a creation fails
  half-way and when sessions have been terminated in between.
\<close>

theorem session_ids_distinct:
  assumes "length ops < 2 ^ 32 - 1"
  shows "distinct (issued_ids sm_alloc sm_release ops sm_new)
    \<and> 0 \<notin> set (issued_ids sm_alloc sm_release ops sm_new)"
proof -
  have ok: "sm_next_id sm_new \<noteq> 0" and len: "sm_high sm_new + length ops < 2 ^ 32 - 1"
    using assms by (simp_all add: sm_new_def sm_high_def)
  from sm_ids.issued_distinct [OF ok len] sm_ids.issued_above [OF ok len, of 0] show ?thesis by auto
qed

theorem session_ids_distinct_witness:
  "let a = (sample_fs, 0, alice, ''seat0'', Wayland, default_session_settings);
       ops = [Alloc a, Alloc a, Release 1, Alloc a]
   in issued_ids sm_alloc sm_release ops sm_new = [1, 2, 3]
      \<and> distinct (issued_ids sm_alloc sm_release ops sm_new)"
proof -
  let ?a = "(sample_fs, 0, alice, ''seat0'', Wayland, default_session_settings)"
  let ?ops = "[Alloc ?a, Alloc ?a, Release 1, Alloc ?a]"
  have 1: "length ?ops < 2 ^ 32 - 1" by simp
  have 2: "issued_ids sm_alloc sm_release ?ops sm_new = [1, 2, 3]" by code_simp
  from session_ids_distinct [OF 1] show ?thesis unfolding Let_def by (intro conjI [OF 2]) (elim conjE)
qed

text \<open>
  C19. The lifecycle state machine. A live session can be moved to every other live state and to
  \<open>Closing\<close>, except that only an \<open>Active\<close> one becomes \<open>Idle\<close>; a \<open>Closing\<close> one can only become \<open>Closed\<close>; no other
  request is accepted, and a refused one leaves the session as it is and names the two states. So requests
  made one after the other can bring a live session to every state, and \<open>Closed\<close> is final. Ending a
  session sets \<open>Closed\<close> whatever the state was, past the table.
\<close>

theorem state_machine_spec:
  "ctx_transition ctx t =
     (let s = ctx_state ctx
      in if live_state s \<and> (if t = Idle then s = Active else t \<noteq> s \<and> t \<noteq> Closed) \<or> s = Closing \<and> t = Closed
         then (ctx\<lparr>ctx_state := t\<rparr>, Inr ())
         else (ctx, Inl (InvalidTransition (state_debug s @ '' -> '' @ state_debug t))))
   \<and> ((\<exists>ts. ctx_state (fold (\<lambda>next c. fst (ctx_transition c next)) ts ctx) = u) \<longleftrightarrow>
        ctx_state ctx = u \<or> live_state (ctx_state ctx) \<or> ctx_state ctx = Closing \<and> u = Closed)
   \<and> ctx_state (snd (lifecycle_end ctx)) = Closed"
  unfolding requests_reach lifecycle_end_closed
  by (intro conjI ctx_transition_rule) (simp_all add: live_state_def)

text \<open>
  C18. A user never exceeds the configured number of sessions: a creation that is granted found fewer
  than \<open>max_sessions_per_user\<close> sessions of that user, it adds exactly one and leaves everyone else's
  sessions alone; a refused creation changes no session.
\<close>

theorem session_limit_enforced:
  assumes "sm_inv m" "Suc (sm_high m) < 2 ^ 32 - 1"
    and "sm_create_session os now u seat_id st settings m = (m', made, r)"
    and "sessions_of_uid (user_uid u) m < 2 ^ 32"
  shows "case r of
      Inl _ \<Rightarrow> sm_sessions m' = sm_sessions m
    | Inr sid \<Rightarrow> sessions_of_uid (user_uid u) m' = Suc (sessions_of_uid (user_uid u) m)
        \<and> sessions_of_uid (user_uid u) m' \<le> unat (max_sessions_per_user settings)
        \<and> (\<forall>uid. uid \<noteq> user_uid u \<longrightarrow> sessions_of_uid uid m' = sessions_of_uid uid m)
        \<and> (\<forall>i. i \<noteq> sid \<longrightarrow> hm_get (sm_sessions m') i = hm_get (sm_sessions m) i)"
proof (cases r)
  case (Inl e)
  then show ?thesis using sm_create_cases [OF assms(3)] by auto
next
  case (Inr sid)
  from sm_create_cases [OF assms(3)] Inr obtain ctx where sid: "sid = sm_next_id m"
    and ins: "sm_sessions m' = hm_insert sid ctx (sm_sessions m)" and u: "ctx_user ctx = u"
    and lt: "(of_nat (sessions_of_uid (user_uid u) m) :: u32) < max_sessions_per_user settings" by auto
  have fresh: "hm_get (sm_sessions m) sid = None"
    using sm_inv_create(4) [OF assms(1-3) Inr] by blast
  have "unat (of_nat (sessions_of_uid (user_uid u) m) :: u32) = sessions_of_uid (user_uid u) m"
    using assms(4) by (simp add: take_bit_nat_eq_self unat_of_nat)
  with lt have "sessions_of_uid (user_uid u) m < unat (max_sessions_per_user settings)"
    by (simp add: word_less_nat_alt)
  then show ?thesis
    using Inr ins u by (auto simp: sessions_of_uid_def hm_count_insert_fresh [OF fresh])
qed

theorem session_limit_enforced_witness:
  "sessions_of_uid (user_uid alice) sample_sessions = Suc (sessions_of_uid (user_uid alice) sm_new)"
proof -
  let ?c = "sm_create_session sample_fs 0 alice ''seat0'' Wayland default_session_settings sm_new"
  have 2: "Suc (sm_high sm_new) < 2 ^ 32 - 1" by (simp add: sm_high_def sm_new_def)
  have 3: "?c = (sample_sessions, fst (snd ?c), Inr 1)" by code_simp
  have 4: "sessions_of_uid (user_uid alice) sm_new < 2 ^ 32" by code_simp
  from session_limit_enforced [OF sm_inv_new 2 3 4] show ?thesis by simp
qed

end
