(* ===== verification/Seat.thy ===== *)
theory Seat
  imports Session
begin

section \<open>Seats, their devices and the active session\<close>

text \<open>
  \<open>src/seat/\<close>: a seat holds devices, at most one active session and a queue of sessions that wait
  (\<open>seat.rs\<close>); \<open>manager.rs\<close> attaches, detaches and switches sessions; \<open>device.rs\<close> and \<open>monitor.rs\<close>
  classify what udev reports; \<open>display.rs\<close> and \<open>input.rs\<close> are descriptors. The udev library is the
  record \<open>udev\<close> of its answers. The abstract view of a seat is one list, the active session
  first, and the lemmas \<open>seat_sessions_attach\<close>, \<open>seat_sessions_detach\<close> and
  \<open>seat_sessions_switch\<close> say what each operation does to that list.
\<close>

subsection \<open>Devices\<close>

datatype device_kind = Keyboard | Pointer | Touch | Drm | OtherDevice

record device =
  dev_syspath :: string
  dev_kind :: device_kind

text \<open>What the udev library answers: a device is its path, its subsystem and its properties.\<close>

record udev_device =
  udev_syspath :: string
  udev_subsystem :: "string option"
  udev_property :: "string \<Rightarrow> string option"

record udev =
  enumerator_new :: "io_error + unit"
  match_subsystem :: "string \<Rightarrow> io_error + unit"
  scan_devices :: "string \<Rightarrow> io_error + udev_device list"

definition classify_input :: "udev_device \<Rightarrow> device_kind" where
  "classify_input d =
     (if udev_property d ''ID_INPUT_KEYBOARD'' \<noteq> None then Keyboard
      else if udev_property d ''ID_INPUT_TOUCHSCREEN'' \<noteq> None then Touch
      else if udev_property d ''ID_INPUT_MOUSE'' \<noteq> None
              \<or> udev_property d ''ID_INPUT_TOUCHPAD'' \<noteq> None then Pointer
      else OtherDevice)"

definition device_classify :: "string \<Rightarrow> udev_device \<Rightarrow> device_kind" where
  "device_classify subsystem d =
     (if subsystem = ''drm'' then Drm
      else if udev_property d ''ID_INPUT_KEYBOARD'' \<noteq> None then Keyboard
      else if udev_property d ''ID_INPUT_TOUCHSCREEN'' \<noteq> None then Touch
      else if udev_property d ''ID_INPUT_MOUSE'' \<noteq> None
              \<or> udev_property d ''ID_INPUT_TOUCHPAD'' \<noteq> None then Pointer
      else OtherDevice)"

fun enumerate_from :: "udev \<Rightarrow> string list \<Rightarrow> device list \<Rightarrow> device list result" where
  "enumerate_from os [] devices = Inr devices"
| "enumerate_from os (subsystem # rest) devices =
     (case enumerator_new os of
        Inl e \<Rightarrow> Inl (IoError e)
      | Inr _ \<Rightarrow>
          (case match_subsystem os subsystem of
             Inl e \<Rightarrow> Inl (IoError e)
           | Inr _ \<Rightarrow>
               (case scan_devices os subsystem of
                  Inl e \<Rightarrow> Inl (IoError e)
                | Inr entries \<Rightarrow>
                    enumerate_from os rest
                      (devices @ map (\<lambda>d. \<lparr>dev_syspath = udev_syspath d,
                                          dev_kind = device_classify subsystem d\<rparr>) entries))))"

definition enumerate_devices :: "udev \<Rightarrow> device list result" where
  "enumerate_devices os = enumerate_from os [''input'', ''drm''] []"

text \<open>Hotplug events (\<open>monitor.rs\<close>).\<close>

datatype udev_event_type = EventAdd | EventRemove | EventChange | EventBind | EventUnbind | EventUnknown

datatype device_event = Added device | Removed device | Changed device

record hotplug_event =
  hp_seat :: string
  hp_event :: device_event

definition classify_event ::
  "udev_device \<Rightarrow> udev_event_type \<Rightarrow> string \<Rightarrow> hotplug_event option" where
  "classify_event d ty fallback_seat =
     (case udev_subsystem d of
        None \<Rightarrow> None
      | Some subsystem \<Rightarrow>
          if subsystem \<noteq> ''input'' \<and> subsystem \<noteq> ''drm'' then None
          else
            (let kind = (if subsystem = ''drm'' then Drm else classify_input d);
                 dev = \<lparr>dev_syspath = udev_syspath d, dev_kind = kind\<rparr>;
                 seat = (case udev_property d ''ID_SEAT'' of
                           Some s \<Rightarrow> if s \<noteq> [] then s else fallback_seat
                         | None \<Rightarrow> fallback_seat)
             in (case ty of
                   EventAdd \<Rightarrow> Some \<lparr>hp_seat = seat, hp_event = Added dev\<rparr>
                 | EventRemove \<Rightarrow> Some \<lparr>hp_seat = seat, hp_event = Removed dev\<rparr>
                 | EventChange \<Rightarrow> Some \<lparr>hp_seat = seat, hp_event = Changed dev\<rparr>
                 | _ \<Rightarrow> None)))"

text \<open>
  \<open>monitor::register\<close>: the calls that open the udev socket, what happens to its descriptor, and the
  callback, which hands every event it understands to the \<open>HotplugSink\<close>. \<open>O_NONBLOCK\<close> is 0x800 on Linux.
\<close>

datatype monitor_op = NewMonitorBuilder | MatchSubsystem string | MonitorListen

record monitor_os =
  mo_udev :: "monitor_op \<Rightarrow> io_error + unit"
  mo_getfl :: "io_error + u32"
  mo_setfl :: "u32 \<Rightarrow> io_error + unit"
  mo_insert_source :: "string + unit"

definition set_nonblocking :: "monitor_os \<Rightarrow> io_error + unit" where
  "set_nonblocking os =
     (case mo_getfl os of Inl e \<Rightarrow> Inl e | Inr flags \<Rightarrow> mo_setfl os (or flags 0x800))"

definition hotplug_callback ::
  "(hotplug_event \<Rightarrow> 's \<Rightarrow> 's) \<Rightarrow> string \<Rightarrow> (udev_device \<times> udev_event_type) list \<Rightarrow> 's \<Rightarrow> 's" where
  "hotplug_callback handle_hotplug fallback_seat events state =
     fold (\<lambda>(d, ty) st. case classify_event d ty fallback_seat of
             Some hotplug \<Rightarrow> handle_hotplug hotplug st
           | None \<Rightarrow> st) events state"

definition monitor_register :: "monitor_os \<Rightarrow> monitor_op list \<times> unit result" where
  "monitor_register os =
     (case perform_all (mo_udev os)
             [NewMonitorBuilder, MatchSubsystem ''input'', MatchSubsystem ''drm'', MonitorListen] of
        (made, Inl e) \<Rightarrow> (made, Inl (IoError e))
      | (made, Inr _) \<Rightarrow>
          (made, (case set_nonblocking os of
                    Inl e \<Rightarrow> Inl (IoError e)
                  | Inr _ \<Rightarrow> map_err (\<lambda>e. ProtocolError (''failed to register udev monitor: '' @ e))
                               (mo_insert_source os))))"

lemma hotplug_callback_classified:
  "hotplug_callback h fb events st =
     fold h (concat (map (\<lambda>(d, ty). case classify_event d ty fb of None \<Rightarrow> [] | Some e \<Rightarrow> [e]) events)) st"
  by (induction events arbitrary: st) (auto simp: hotplug_callback_def split: option.splits)

lemma classify_event_seat:
  "classify_event d ty fb = Some e \<Longrightarrow> hp_seat e = [] \<longrightarrow> fb = []"
  by (auto simp: classify_event_def Let_def split: option.splits if_splits udev_event_type.splits)

subsection \<open>Displays and input devices\<close>

datatype display_backend = DrmBackend | NestedBackend

record display =
  disp_backend :: display_backend
  wayland_socket :: "string option"

definition display_new :: "display_backend \<Rightarrow> display" where
  "display_new b = \<lparr>disp_backend = b, wayland_socket = None\<rparr>"

record input_device =
  input_dev :: device
  input_name :: string

definition is_pointer_or_keyboard :: "input_device \<Rightarrow> bool" where
  "is_pointer_or_keyboard d \<longleftrightarrow> dev_kind (input_dev d) \<in> {Keyboard, Pointer, Touch}"

subsection \<open>A seat\<close>

record seat =
  seat_id :: string
  active_session :: "session_id option"
  queued_sessions :: "session_id list"
  seat_devices :: "device list"

definition seat_new :: "string \<Rightarrow> seat" where
  "seat_new i = \<lparr>seat_id = i, active_session = None, queued_sessions = [], seat_devices = []\<rparr>"

definition seat_sessions :: "seat \<Rightarrow> session_id list" where
  "seat_sessions s =
     (case active_session s of None \<Rightarrow> [] | Some a \<Rightarrow> [a]) @ queued_sessions s"

definition has_session :: "seat \<Rightarrow> session_id \<Rightarrow> bool" where
  "has_session s i \<longleftrightarrow> active_session s = Some i \<or> i \<in> set (queued_sessions s)"

subsection \<open>The registry of seats\<close>

record seat_manager =
  seats :: "(string, seat) hash_map"

definition seats_new :: seat_manager where
  "seats_new = \<lparr>seats = []\<rparr>"

definition ensure_seat :: "string \<Rightarrow> seat_manager \<Rightarrow> seat_manager" where
  "ensure_seat i m =
     (case hm_get (seats m) i of
        None \<Rightarrow> m\<lparr>seats := hm_insert i (seat_new i) (seats m)\<rparr>
      | Some _ \<Rightarrow> m)"

definition seat_get :: "seat_manager \<Rightarrow> string \<Rightarrow> seat result" where
  "seat_get m i = ok_or (UnknownSeat i) (hm_get (seats m) i)"

text \<open>A mutation through the reference \<open>ensure_seat\<close> or \<open>seat_mut\<close> returns.\<close>

definition seat_modify :: "string \<Rightarrow> (seat \<Rightarrow> seat) \<Rightarrow> seat_manager \<Rightarrow> seat_manager" where
  "seat_modify i f m = m\<lparr>seats := hm_modify i f (seats m)\<rparr>"

definition set_devices :: "string \<Rightarrow> device list \<Rightarrow> seat_manager \<Rightarrow> seat_manager" where
  "set_devices i devices m = seat_modify i (\<lambda>s. s\<lparr>seat_devices := devices\<rparr>) (ensure_seat i m)"

definition seat_attach :: "session_id \<Rightarrow> seat \<Rightarrow> seat" where
  "seat_attach sid s =
     (if active_session s = None then s\<lparr>active_session := Some sid\<rparr>
      else s\<lparr>queued_sessions := queued_sessions s @ [sid]\<rparr>)"

definition attach_session :: "string \<Rightarrow> session_id \<Rightarrow> seat_manager \<Rightarrow> seat_manager" where
  "attach_session i sid m = seat_modify i (seat_attach sid) (ensure_seat i m)"

definition seat_detach :: "session_id \<Rightarrow> seat \<Rightarrow> seat" where
  "seat_detach sid s =
     (if active_session s = Some sid then
        (case queued_sessions s of
           [] \<Rightarrow> s\<lparr>active_session := None\<rparr>
         | q # qs \<Rightarrow> s\<lparr>active_session := Some q, queued_sessions := qs\<rparr>)
      else s\<lparr>queued_sessions := filter (\<lambda>x. x \<noteq> sid) (queued_sessions s)\<rparr>)"

definition detach_session :: "session_id \<Rightarrow> seat_manager \<Rightarrow> seat_manager" where
  "detach_session sid m = m\<lparr>seats := hm_map_values (seat_detach sid) (seats m)\<rparr>"

definition seat_switch :: "session_id \<Rightarrow> seat \<Rightarrow> seat" where
  "seat_switch sid s =
     (if active_session s = Some sid then s
      else
        (let q = (case active_session s of
                    Some prev \<Rightarrow> queued_sessions s @ [prev]
                  | None \<Rightarrow> queued_sessions s)
         in s\<lparr>queued_sessions := filter (\<lambda>x. x \<noteq> sid) q, active_session := Some sid\<rparr>))"

definition switch_active ::
  "string \<Rightarrow> session_id \<Rightarrow> seat_manager \<Rightarrow> seat_manager \<times> session_id option result" where
  "switch_active i sid m =
     (case seat_get m i of
        Inl e \<Rightarrow> (m, Inl e)
      | Inr s \<Rightarrow>
          if \<not> has_session s sid then (m, Inl (UnknownSession sid))
          else (seat_modify i (seat_switch sid) m,
                Inr (case active_session s of
                       Some p \<Rightarrow> if p \<noteq> sid then Some p else None
                     | None \<Rightarrow> None)))"

definition seat_active_session :: "seat_manager \<Rightarrow> string \<Rightarrow> session_id option result" where
  "seat_active_session m i =
     (case seat_get m i of Inl e \<Rightarrow> Inl e | Inr s \<Rightarrow> Inr (active_session s))"

subsection \<open>Well-formed seats\<close>

definition seat_ok :: "seat \<Rightarrow> bool" where
  "seat_ok s \<longleftrightarrow> distinct (seat_sessions s) \<and> (active_session s = None \<longrightarrow> queued_sessions s = [])"

text \<open>Every seat is well-formed, and a session waits or runs on one seat only.\<close>

definition seats_ok :: "seat_manager \<Rightarrow> bool" where
  "seats_ok m \<longleftrightarrow> hm_ok (seats m)
     \<and> (\<forall>i s. hm_get (seats m) i = Some s \<longrightarrow> seat_ok s)
     \<and> (\<forall>i j s t. hm_get (seats m) i = Some s \<longrightarrow> hm_get (seats m) j = Some t \<longrightarrow> i \<noteq> j \<longrightarrow>
          set (seat_sessions s) \<inter> set (seat_sessions t) = {})"

definition seated :: "seat_manager \<Rightarrow> session_id \<Rightarrow> bool" where
  "seated m sid \<longleftrightarrow> list_ex (\<lambda>s. has_session s sid) (hm_values (seats m))"

text \<open>
  The specification of a seat: the list of the sessions on it, the one in front being on display.
  Attaching goes to the back, detaching removes, switching brings a session to the front and sends
  the one that was there to the back.
\<close>

definition seat_list :: "seat_manager \<Rightarrow> string \<Rightarrow> session_id list option" where
  "seat_list m i = map_option seat_sessions (hm_get (seats m) i)"

definition queue_active :: "session_id list \<Rightarrow> session_id option" where
  "queue_active xs = (case xs of [] \<Rightarrow> None | x # _ \<Rightarrow> Some x)"

definition queue_switch :: "session_id \<Rightarrow> session_id list \<Rightarrow> session_id list" where
  "queue_switch sid xs = (if hd xs = sid then xs else sid # filter (\<lambda>x. x \<noteq> sid) (tl xs) @ [hd xs])"

subsection \<open>What the operations do to the list of sessions of a seat\<close>

lemma has_session_iff: "has_session s i \<longleftrightarrow> i \<in> set (seat_sessions s)"
  by (auto simp: has_session_def seat_sessions_def split: option.splits)

lemma seat_sessions_attach:
  "seat_ok s \<Longrightarrow> seat_sessions (seat_attach sid s) = seat_sessions s @ [sid]"
  by (auto simp: seat_ok_def seat_attach_def seat_sessions_def split: option.splits)

lemma seat_sessions_detach:
  "seat_ok s \<Longrightarrow> seat_sessions (seat_detach sid s) = filter (\<lambda>x. x \<noteq> sid) (seat_sessions s)"
proof (cases "active_session s = Some sid")
  case True
  moreover assume "seat_ok s"
  ultimately have "filter (\<lambda>x. x \<noteq> sid) (queued_sessions s) = queued_sessions s"
    by (auto simp: seat_ok_def seat_sessions_def filter_id_conv)
  with True show ?thesis by (auto simp: seat_detach_def seat_sessions_def split: list.splits)
next
  case False
  then show ?thesis by (auto simp: seat_detach_def seat_sessions_def split: option.splits)
qed

lemma seat_sessions_switch:
  assumes "seat_ok s" "active_session s = Some a" "a \<noteq> sid"
  shows "seat_sessions (seat_switch sid s) = sid # filter (\<lambda>x. x \<noteq> sid) (queued_sessions s) @ [a]"
  using assms by (simp add: seat_switch_def seat_sessions_def Let_def)

lemma seat_ok_new [simp]: "seat_ok (seat_new i)"
  by (simp add: seat_ok_def seat_new_def seat_sessions_def)

lemma seat_sessions_new [simp]: "seat_sessions (seat_new i) = []"
  by (simp add: seat_new_def seat_sessions_def)

lemma seat_sessions_devices [simp]: "seat_sessions (s\<lparr>seat_devices := ds\<rparr>) = seat_sessions s"
  by (simp add: seat_sessions_def)

lemma seat_ok_devices [simp]: "seat_ok (s\<lparr>seat_devices := ds\<rparr>) = seat_ok s"
  by (simp add: seat_ok_def)

lemma seat_ok_attach: "seat_ok s \<Longrightarrow> sid \<notin> set (seat_sessions s) \<Longrightarrow> seat_ok (seat_attach sid s)"
  by (auto simp: seat_ok_def seat_attach_def seat_sessions_def split: option.splits)

lemma seat_ok_detach: "seat_ok s \<Longrightarrow> seat_ok (seat_detach sid s)"
  by (auto simp: seat_ok_def seat_detach_def seat_sessions_def split: option.splits list.splits)

lemma seat_ok_switch: "seat_ok s \<Longrightarrow> sid \<in> set (seat_sessions s) \<Longrightarrow> seat_ok (seat_switch sid s)"
  by (auto simp: seat_ok_def seat_switch_def seat_sessions_def Let_def split: option.splits if_splits)

lemma set_seat_switch:
  "seat_ok s \<Longrightarrow> sid \<in> set (seat_sessions s) \<Longrightarrow>
     set (seat_sessions (seat_switch sid s)) = set (seat_sessions s)"
  by (auto simp: seat_ok_def seat_switch_def seat_sessions_def Let_def split: option.splits if_splits)

subsection \<open>Lemmas on the registry\<close>

lemma seat_get_Inr [simp]: "seat_get m i = Inr s \<longleftrightarrow> hm_get (seats m) i = Some s"
  by (simp add: seat_get_def)

lemma seat_get_Inl [simp]: "seat_get m i = Inl e \<longleftrightarrow> hm_get (seats m) i = None \<and> e = UnknownSeat i"
  by (simp add: seat_get_def)

lemma seat_active_Inr:
  "seat_active_session m i = Inr a \<longleftrightarrow> (\<exists>s. hm_get (seats m) i = Some s \<and> active_session s = a)"
  by (auto simp: seat_active_session_def split: sum.splits)

lemma seated_iff:
  "hm_ok (seats m) \<Longrightarrow>
     seated m sid \<longleftrightarrow> (\<exists>i s. hm_get (seats m) i = Some s \<and> sid \<in> set (seat_sessions s))"
  by (simp add: seated_def list_ex_iff has_session_iff Bex_def set_hm_values) blast

lemma ensure_seat_get:
  "hm_get (seats (ensure_seat i m)) j =
     (if j = i \<and> hm_get (seats m) i = None then Some (seat_new i) else hm_get (seats m) j)"
  by (auto simp: ensure_seat_def split: option.splits)

lemma seats_ok_update:
  assumes "seats_ok m" "hm_ok (seats m')"
    and "\<And>i s'. hm_get (seats m') i = Some s' \<Longrightarrow>
      seat_ok s' \<and> (set (seat_sessions s') \<subseteq> fresh i
        \<or> (\<exists>s. hm_get (seats m) i = Some s \<and> set (seat_sessions s') \<subseteq> set (seat_sessions s) \<union> fresh i))"
    and "\<And>i j. i \<noteq> j \<Longrightarrow> fresh i \<inter> fresh j = {}"
    and "\<And>i j s. hm_get (seats m) i = Some s \<Longrightarrow> set (seat_sessions s) \<inter> fresh j = {}"
  shows "seats_ok m'"
proof -
  have "set (seat_sessions s') \<inter> set (seat_sessions t') = {}"
    if "hm_get (seats m') i = Some s'" "hm_get (seats m') j = Some t'" "i \<noteq> j" for i j s' t'
  proof -
    from assms(3) [OF that(1)] obtain A where A: "set (seat_sessions s') \<subseteq> A \<union> fresh i"
      "A = {} \<or> (\<exists>s. hm_get (seats m) i = Some s \<and> A = set (seat_sessions s))" by auto
    from assms(3) [OF that(2)] obtain B where B: "set (seat_sessions t') \<subseteq> B \<union> fresh j"
      "B = {} \<or> (\<exists>t. hm_get (seats m) j = Some t \<and> B = set (seat_sessions t))" by auto
    have "A \<inter> B = {}" using A(2) B(2) assms(1) that(3) unfolding seats_ok_def by fast
    moreover have "A \<inter> fresh j = {}" "B \<inter> fresh i = {}" using A(2) B(2) assms(5) by auto
    ultimately show ?thesis using A(1) B(1) assms(4) [OF that(3)] by blast
  qed
  with assms(2,3) show ?thesis unfolding seats_ok_def by blast
qed

lemma seats_ok_new [simp]: "seats_ok seats_new"
  by (simp add: seats_ok_def seats_new_def)

lemma seats_ok_ensure: "seats_ok m \<Longrightarrow> seats_ok (ensure_seat i m)"
  by (rule seats_ok_update [where m = m and fresh = "\<lambda>_. {}"])
    (auto simp: ensure_seat_def seats_ok_def split: option.splits if_splits)

lemma seats_ok_set_devices: "seats_ok m \<Longrightarrow> seats_ok (set_devices i devices m)"
proof -
  assume "seats_ok m"
  then have ok: "seats_ok (ensure_seat i m)" by (rule seats_ok_ensure)
  then show ?thesis
    by (rule seats_ok_update [where fresh = "\<lambda>_. {}"])
      (use ok in \<open>auto simp: set_devices_def seat_modify_def seats_ok_def split: if_splits\<close>)
qed

lemma seats_ok_attach:
  assumes "seats_ok m" "\<not> seated m sid"
  shows "seats_ok (attach_session i sid m)"
proof (rule seats_ok_update [where m = "ensure_seat i m" and fresh = "\<lambda>j. if j = i then {sid} else {}"])
  have unseated: "sid \<notin> set (seat_sessions s)" if "hm_get (seats (ensure_seat i m)) j = Some s" for j s
    using that assms seated_iff [of m sid]
    by (auto simp: ensure_seat_get seats_ok_def split: if_splits)
  show ok: "seats_ok (ensure_seat i m)" by (rule seats_ok_ensure [OF assms(1)])
  then show "hm_ok (seats (attach_session i sid m))"
    by (simp add: attach_session_def seat_modify_def seats_ok_def)
  show "set (seat_sessions s) \<inter> (if j = i then {sid} else {}) = {}"
    if "hm_get (seats (ensure_seat i m)) k = Some s" for k j s
    using unseated [OF that] by simp
  show "seat_ok s' \<and> (set (seat_sessions s') \<subseteq> (if j = i then {sid} else {})
      \<or> (\<exists>s. hm_get (seats (ensure_seat i m)) j = Some s
           \<and> set (seat_sessions s') \<subseteq> set (seat_sessions s) \<union> (if j = i then {sid} else {})))"
    if get: "hm_get (seats (attach_session i sid m)) j = Some s'" for j s'
  proof (cases "j = i")
    case True
    with get obtain s where s: "hm_get (seats (ensure_seat i m)) i = Some s" "s' = seat_attach sid s"
      by (auto simp: attach_session_def seat_modify_def)
    with ok have "seat_ok s" by (auto simp: seats_ok_def)
    with s True unseated [OF s(1)] show ?thesis
      by (auto simp: seat_sessions_attach seat_ok_attach)
  next
    case False
    with get ok show ?thesis by (auto simp: attach_session_def seat_modify_def seats_ok_def)
  qed
qed auto

lemma seats_ok_detach: "seats_ok m \<Longrightarrow> seats_ok (detach_session sid m)"
  by (rule seats_ok_update [where m = m and fresh = "\<lambda>_. {}"])
    (auto simp: detach_session_def seats_ok_def seat_ok_detach seat_sessions_detach)

lemma switch_active_cases:
  "switch_active i sid m = (m', r) \<Longrightarrow>
     (m' = m \<and> (\<exists>e. r = Inl e))
   \<or> (\<exists>s. hm_get (seats m) i = Some s \<and> sid \<in> set (seat_sessions s)
        \<and> m' = seat_modify i (seat_switch sid) m \<and> (\<exists>p. r = Inr p))"
  by (auto simp: switch_active_def has_session_iff split: sum.splits if_splits)

lemma seats_ok_switch: "seats_ok m \<Longrightarrow> seats_ok (fst (switch_active i sid m))"
proof -
  assume ok: "seats_ok m"
  obtain m' r where sw: "switch_active i sid m = (m', r)" by fastforce
  from switch_active_cases [OF this] show ?thesis
  proof
    assume "\<exists>s. hm_get (seats m) i = Some s \<and> sid \<in> set (seat_sessions s)
        \<and> m' = seat_modify i (seat_switch sid) m \<and> (\<exists>p. r = Inr p)"
    then obtain s where s: "hm_get (seats m) i = Some s" "sid \<in> set (seat_sessions s)"
      and m': "m' = seat_modify i (seat_switch sid) m" by blast
    from ok s(1) have "seat_ok s" by (auto simp: seats_ok_def)
    with s have "seat_ok (seat_switch sid s)"
      "set (seat_sessions (seat_switch sid s)) = set (seat_sessions s)"
      by (simp_all add: seat_ok_switch set_seat_switch)
    note sw_ok = this
    have "seats_ok m'"
    proof (rule seats_ok_update [OF ok, where fresh = "\<lambda>_. {}"])
      show "hm_ok (seats m')" using ok m' by (simp add: seat_modify_def seats_ok_def)
      show "seat_ok t' \<and> (set (seat_sessions t') \<subseteq> {}
          \<or> (\<exists>t. hm_get (seats m) j = Some t \<and> set (seat_sessions t') \<subseteq> set (seat_sessions t) \<union> {}))"
        if "hm_get (seats m') j = Some t'" for j t'
        using that m' s(1) sw_ok ok by (cases "j = i") (auto simp: seat_modify_def seats_ok_def)
    qed auto
    with sw show ?thesis by simp
  qed (use ok sw in simp)
qed

lemma seated_attach:
  assumes "seats_ok m"
  shows "seated (attach_session i sid m) x \<longleftrightarrow> seated m x \<or> x = sid"
proof -
  have ok: "seats_ok (ensure_seat i m)" by (rule seats_ok_ensure [OF assms])
  then have hok: "hm_ok (seats (ensure_seat i m))" "hm_ok (seats (attach_session i sid m))"
    by (simp_all add: seats_ok_def attach_session_def seat_modify_def)
  obtain s where s: "hm_get (seats (ensure_seat i m)) i = Some s"
    by (cases "hm_get (seats m) i") (auto simp: ensure_seat_get)
  with ok have "seat_ok s" by (auto simp: seats_ok_def)
  with s have get: "hm_get (seats (attach_session i sid m)) j =
      (if j = i then Some (seat_attach sid s) else hm_get (seats (ensure_seat i m)) j)" for j
    by (simp add: attach_session_def seat_modify_def)
  have "seated (attach_session i sid m) x \<longleftrightarrow> seated (ensure_seat i m) x \<or> x = sid"
    using s \<open>seat_ok s\<close>
    by (simp add: seated_iff hok get seat_sessions_attach) (metis option.inject)
  moreover have "seated (ensure_seat i m) x \<longleftrightarrow> seated m x"
    using assms by (auto simp: seated_iff [OF hok(1)] seated_iff seats_ok_def ensure_seat_get
        split: if_splits)
  ultimately show ?thesis by simp
qed

lemma seated_detach:
  "seats_ok m \<Longrightarrow> seated (detach_session sid m) x \<longleftrightarrow> seated m x \<and> x \<noteq> sid"
proof -
  assume ok: "seats_ok m"
  then have "hm_ok (seats (detach_session sid m))" by (simp add: detach_session_def seats_ok_def)
  with ok show ?thesis
    by (fastforce simp: seated_iff seats_ok_def detach_session_def seat_sessions_detach)
qed

subsection \<open>The registry implements the lists\<close>

lemma seat_list_attach:
  assumes "seats_ok m"
  shows "seat_list (attach_session i sid m) =
    (seat_list m)(i := Some ((case seat_list m i of None \<Rightarrow> [] | Some xs \<Rightarrow> xs) @ [sid]))"
proof (rule ext)
  fix j
  have "seat_ok s" if "hm_get (seats m) i = Some s" for s using assms that by (auto simp: seats_ok_def)
  then show "seat_list (attach_session i sid m) j =
      ((seat_list m)(i := Some ((case seat_list m i of None \<Rightarrow> [] | Some xs \<Rightarrow> xs) @ [sid]))) j"
    by (auto simp: seat_list_def attach_session_def seat_modify_def ensure_seat_get seat_sessions_attach
        split: option.split)
qed

lemma seat_list_detach:
  assumes "seats_ok m"
  shows "seat_list (detach_session sid m) i = map_option (filter (\<lambda>x. x \<noteq> sid)) (seat_list m i)"
  using assms by (cases "hm_get (seats m) i")
    (auto simp: seat_list_def detach_session_def seats_ok_def seat_sessions_detach)

lemma seat_list_devices: "seat_list (set_devices i devices m) j = seat_list (ensure_seat i m) j"
  by (cases "hm_get (seats (ensure_seat i m)) j") (auto simp: seat_list_def set_devices_def seat_modify_def)

lemma seat_active_front:
  assumes "seat_ok s"
  shows "active_session s = queue_active (seat_sessions s)"
  using assms by (auto simp: seat_ok_def seat_sessions_def queue_active_def split: option.splits)

lemma seat_switch_front:
  assumes "seat_ok s" "sid \<in> set (seat_sessions s)"
  shows "seat_sessions (seat_switch sid s) = queue_switch sid (seat_sessions s)"
proof (cases "active_session s")
  case None
  with assms show ?thesis by (simp add: seat_ok_def seat_sessions_def)
next
  case (Some a)
  then show ?thesis
    using seat_sessions_switch [OF assms(1) Some]
    by (cases "a = sid") (simp_all add: queue_switch_def seat_sessions_def seat_switch_def)
qed

lemma switch_active_front:
  assumes "seats_ok m" "switch_active i sid m = (m', r)"
  shows "case r of
      Inl e \<Rightarrow> m' = m \<and> (e = UnknownSeat i \<and> seat_list m i = None
                       \<or> e = UnknownSession sid \<and> (\<exists>xs. seat_list m i = Some xs \<and> sid \<notin> set xs))
    | Inr prev \<Rightarrow> \<exists>xs. seat_list m i = Some xs \<and> sid \<in> set xs
        \<and> seat_list m' = (seat_list m)(i := Some (queue_switch sid xs))
        \<and> prev = (if hd xs = sid then None else queue_active xs)"
proof (cases "hm_get (seats m) i")
  case None
  with assms(2) show ?thesis by (auto simp: switch_active_def seat_get_def ok_or_def seat_list_def)
next
  case (Some s)
  with assms(1) have ok: "seat_ok s" by (auto simp: seats_ok_def)
  show ?thesis
  proof (cases "sid \<in> set (seat_sessions s)")
    case False
    with Some assms(2) show ?thesis
      by (auto simp: switch_active_def seat_get_def ok_or_def seat_list_def has_session_iff)
  next
    case True
    then have "hd (seat_sessions s) = the (queue_active (seat_sessions s))"
      and "queue_active (seat_sessions s) \<noteq> None" by (auto simp: queue_active_def split: list.splits)
    moreover have "seat_list (seat_modify i (seat_switch sid) m) =
        (seat_list m)(i := Some (queue_switch sid (seat_sessions s)))"
      using Some by (auto simp: seat_list_def seat_modify_def seat_switch_front [OF ok True])
    ultimately show ?thesis
      using Some True assms(2) seat_active_front [OF ok]
      by (auto simp: switch_active_def seat_get_def ok_or_def seat_list_def has_session_iff split: option.splits
          intro!: exI [of _ "seat_sessions s"])
  qed
qed

lemma seat_active_queue:
  assumes "seats_ok m"
  shows "seat_active_session m i =
    (case seat_list m i of None \<Rightarrow> Inl (UnknownSeat i) | Some xs \<Rightarrow> Inr (queue_active xs))"
  using assms by (cases "hm_get (seats m) i")
    (auto simp: seat_active_session_def seat_get_def ok_or_def seat_list_def seats_ok_def seat_active_front)

end
