(* ===== verification/Authentication.thy ===== *)
theory Authentication
  imports Session
begin

section \<open>Credential checks\<close>

text \<open>
  \<open>src/authentication/\<close>: the request (\<open>request.rs\<close>), the policy built from configuration
  (\<open>policy.rs\<close>), the outcome (\<open>result.rs\<close>), the PAM backend and \<open>check\<close>, which turns a rejected
  credential into a failure count (\<open>authenticator.rs\<close>). A \<open>dyn Authenticator\<close> is a function of the
  request; the PAM library is the record \<open>pam\<close> of its answers.
\<close>

subsection \<open>Data\<close>

record auth_request =
  req_session_id :: session_id
  req_user_name :: string
  req_password :: string

datatype auth_outcome =
    AuthSuccess
  | is_AuthFailure: AuthFailure (attempts_remaining: u32)
  | is_AuthLockedOut: AuthLockedOut (retry_after_secs: u64)
  | AuthError string
  | AuthCancelled

text \<open>The derived \<open>Debug\<close> text; a string is quoted as it stands (no character of the daemon's own
  messages needs an escape).\<close>

fun outcome_debug :: "auth_outcome \<Rightarrow> string" where
  "outcome_debug AuthSuccess = ''Success''"
| "outcome_debug (AuthFailure n) = ''Failure { attempts_remaining: '' @ show_word n @ '' }''"
| "outcome_debug (AuthLockedOut s) = ''LockedOut { retry_after_secs: '' @ show_word s @ '' }''"
| "outcome_debug (AuthError e) = ''Error('' @ [CHR 0x22] @ e @ [CHR 0x22] @ '')''"
| "outcome_debug AuthCancelled = ''Cancelled''"

record auth_policy =
  ap_pam_service :: string
  ap_allow_empty_password :: bool
  ap_max_attempts :: u32
  ap_lockout :: duration

definition auth_policy_new :: "auth_settings \<Rightarrow> lock_settings \<Rightarrow> auth_policy" where
  "auth_policy_new auth lock =
     \<lparr>ap_pam_service = auth_pam_service auth,
      ap_allow_empty_password = auth_allow_empty_password auth,
      ap_max_attempts = max_auth_attempts lock,
      ap_lockout = from_secs (lockout_secs lock)\<rparr>"

type_synonym authenticator = "auth_request \<Rightarrow> unit result"

subsection \<open>The PAM backend\<close>

text \<open>
  The PAM client: creating it for a service, and the answers to \<open>authenticate\<close> and
  \<open>open_session\<close> for the credentials it was given, each an error text or success.
\<close>

record pam =
  pam_with_password :: "string \<Rightarrow> string + unit"
  pam_client_authenticate :: "string \<Rightarrow> string \<Rightarrow> string \<Rightarrow> string + unit"
  pam_client_open_session :: "string \<Rightarrow> string \<Rightarrow> string \<Rightarrow> string + unit"

record pam_authenticator =
  pam_service_name :: string

definition pam_authenticator_new :: "auth_policy \<Rightarrow> pam_authenticator" where
  "pam_authenticator_new policy = \<lparr>pam_service_name = ap_pam_service policy\<rparr>"

definition pam_authenticate :: "pam \<Rightarrow> pam_authenticator \<Rightarrow> authenticator" where
  "pam_authenticate lib self request =
     (if req_password request = [] then Inl (AuthFailed ''empty password'')
      else
        (let service = pam_service_name self;
             user = req_user_name request;
             password = req_password request
         in (case pam_with_password lib service of
               Inl e \<Rightarrow> Inl (PamError e)
             | Inr _ \<Rightarrow>
                 (case pam_client_authenticate lib service user password of
                    Inl e \<Rightarrow> Inl (AuthFailed e)
                  | Inr _ \<Rightarrow>
                      (case pam_client_open_session lib service user password of
                         Inl e \<Rightarrow> Inl (PamError e)
                       | Inr _ \<Rightarrow> Inr ())))))"

subsection \<open>Counting attempts\<close>

definition check ::
  "authenticator \<Rightarrow> auth_request \<Rightarrow> auth_policy \<Rightarrow> u32 \<Rightarrow> auth_outcome \<times> u32" where
  "check authenticator request policy attempts =
     (case authenticator request of
        Inr _ \<Rightarrow> (AuthSuccess, 0)
      | Inl e \<Rightarrow>
          (let attempts' = attempts + 1
           in if attempts' \<ge> ap_max_attempts policy
              then (AuthLockedOut (as_secs (ap_lockout policy)), attempts')
              else (AuthFailure (ap_max_attempts policy - attempts'), attempts')))"

subsection \<open>Lemmas\<close>

lemma check_Success_iff: "fst (check a r p n) = AuthSuccess \<longleftrightarrow> a r = Inr ()"
  by (auto simp: check_def Let_def split: sum.splits)

lemma check_accept [simp]: "a r = Inr () \<Longrightarrow> check a r p n = (AuthSuccess, 0)"
  by (simp add: check_def)

lemma check_reject:
  "a r = Inl e \<Longrightarrow> check a r p n =
     (if n + 1 \<ge> ap_max_attempts p then (AuthLockedOut (as_secs (ap_lockout p)), n + 1)
      else (AuthFailure (ap_max_attempts p - (n + 1)), n + 1))"
  by (simp add: check_def Let_def)

lemma check_outcomes:
  "fst (check a r p n) \<in> {AuthSuccess, AuthLockedOut (as_secs (ap_lockout p))} \<union> range AuthFailure"
  by (auto simp: check_def Let_def split: sum.splits)

lemma check_never_error [simp]:
  "fst (check a r p n) \<noteq> AuthError e" "fst (check a r p n) \<noteq> AuthCancelled"
  by (auto simp: check_def Let_def split: sum.splits)

lemma pam_accepts_iff:
  "pam_authenticate lib self r = Inr () \<longleftrightarrow>
     req_password r \<noteq> []
   \<and> (\<exists>u. pam_with_password lib (pam_service_name self) = Inr u)
   \<and> (\<exists>u. pam_client_authenticate lib (pam_service_name self) (req_user_name r) (req_password r) = Inr u)
   \<and> (\<exists>u. pam_client_open_session lib (pam_service_name self) (req_user_name r) (req_password r) = Inr u)"
  by (auto simp: pam_authenticate_def Let_def split: sum.splits)

end
