(* ===== verification/Lock.thy ===== *)
theory Lock
  imports Authentication
begin

section \<open>Screen locks, inhibitors and their timers\<close>

text \<open>
  \<open>src/lock/\<close>: the policy (\<open>policy.rs\<close>), the inhibitor registry (\<open>inhibitor.rs\<close>), the two timer
  tables (\<open>timeout.rs\<close>) and the lock manager (\<open>state.rs\<close>, \<open>lock.rs\<close>). The registry interprets
  \<open>id_allocator\<close>, the grace table \<open>cancellable_timer\<close> and the lockout table \<open>deadline_timer\<close>.
\<close>

subsection \<open>Policy\<close>

record lock_policy =
  lp_enabled :: bool
  lp_lock_on_idle :: bool
  lp_lock_on_suspend :: bool
  lp_grace_period :: duration

definition lock_policy_from :: "lock_settings \<Rightarrow> lock_policy" where
  "lock_policy_from s =
     \<lparr>lp_enabled = lock_enabled s, lp_lock_on_idle = lock_on_idle s,
      lp_lock_on_suspend = lock_on_suspend s, lp_grace_period = from_secs (grace_period_secs s)\<rparr>"

datatype lock_reason = ManualLock | IdleLock | SuspendLock

subsection \<open>Inhibitors\<close>

datatype inhibit_what = InhibitIdle | InhibitLock | InhibitSuspend | InhibitShutdown

datatype inhibit_mode = BlockMode | DelayMode

record inhibitor =
  inh_id :: u64
  inh_what :: inhibit_what
  inh_who :: string
  inh_why :: string
  inh_mode :: inhibit_mode

record inhibitor_registry =
  inhibitors :: "(u64, inhibitor) hash_map"
  inh_next_id :: u64

definition inhibitors_new :: inhibitor_registry where
  "inhibitors_new = \<lparr>inhibitors = [], inh_next_id = 0\<rparr>"

definition inhibitor_add ::
  "inhibit_what \<Rightarrow> string \<Rightarrow> string \<Rightarrow> inhibit_mode \<Rightarrow> inhibitor_registry \<Rightarrow> inhibitor_registry \<times> u64"
where
  "inhibitor_add what who why mode reg =
     (let next = inh_next_id reg + 1
      in (reg\<lparr>inh_next_id := next,
              inhibitors := hm_insert next
                \<lparr>inh_id = next, inh_what = what, inh_who = who, inh_why = why, inh_mode = mode\<rparr>
                (inhibitors reg)\<rparr>, next))"

definition inhibitor_remove :: "u64 \<Rightarrow> inhibitor_registry \<Rightarrow> inhibitor_registry \<times> unit result" where
  "inhibitor_remove i reg =
     (reg\<lparr>inhibitors := hm_remove i (inhibitors reg)\<rparr>,
      (case hm_get (inhibitors reg) i of None \<Rightarrow> Inl (UnknownInhibitor i) | Some _ \<Rightarrow> Inr ()))"

definition blocks :: "inhibit_what \<Rightarrow> inhibitor_registry \<Rightarrow> bool" where
  "blocks what reg =
     list_ex (\<lambda>i. inh_what i = what \<and> inh_mode i = BlockMode) (hm_values (inhibitors reg))"

definition delays :: "inhibit_what \<Rightarrow> inhibitor_registry \<Rightarrow> inhibitor list" where
  "delays what reg =
     filter (\<lambda>i. inh_what i = what \<and> inh_mode i = DelayMode) (hm_values (inhibitors reg))"

definition inhibitor_list :: "inhibitor_registry \<Rightarrow> inhibitor list" where
  "inhibitor_list reg = hm_values (inhibitors reg)"

subsection \<open>Timers\<close>

record lock_timeouts =
  grace_expiry :: "(session_id, instant) hash_map"
  lockout_expiry :: "(session_id, instant) hash_map"

definition lock_timeouts_new :: lock_timeouts where
  "lock_timeouts_new = \<lparr>grace_expiry = [], lockout_expiry = []\<rparr>"

definition drain_expired ::
  "('k, instant) hash_map \<Rightarrow> instant \<Rightarrow> ('k, instant) hash_map \<times> 'k list" where
  "drain_expired m now =
     (let expired = map fst (filter (\<lambda>(_, t). t \<le> now) m) in (fold hm_remove expired m, expired))"

definition start_grace :: "lock_timeouts \<Rightarrow> session_id \<Rightarrow> instant \<Rightarrow> duration \<Rightarrow> lock_timeouts" where
  "start_grace t sid now grace = t\<lparr>grace_expiry := hm_insert sid (now + grace) (grace_expiry t)\<rparr>"

definition cancel_grace :: "lock_timeouts \<Rightarrow> session_id \<Rightarrow> lock_timeouts" where
  "cancel_grace t sid = t\<lparr>grace_expiry := hm_remove sid (grace_expiry t)\<rparr>"

definition expired_grace :: "lock_timeouts \<Rightarrow> instant \<Rightarrow> lock_timeouts \<times> session_id list" where
  "expired_grace t now =
     (case drain_expired (grace_expiry t) now of (m, ids) \<Rightarrow> (t\<lparr>grace_expiry := m\<rparr>, ids))"

definition start_lockout :: "lock_timeouts \<Rightarrow> session_id \<Rightarrow> instant \<Rightarrow> duration \<Rightarrow> lock_timeouts" where
  "start_lockout t sid now lockout =
     t\<lparr>lockout_expiry := hm_insert sid (now + lockout) (lockout_expiry t)\<rparr>"

definition expired_lockouts :: "lock_timeouts \<Rightarrow> instant \<Rightarrow> lock_timeouts \<times> session_id list" where
  "expired_lockouts t now =
     (case drain_expired (lockout_expiry t) now of (m, ids) \<Rightarrow> (t\<lparr>lockout_expiry := m\<rparr>, ids))"

subsection \<open>The lock manager\<close>

datatype lock_state = LockUnlocked | LockLocked | LockLockedOut

record session_lock =
  lk_state :: lock_state
  lk_attempts :: u32

definition session_lock_default :: session_lock where
  "session_lock_default = \<lparr>lk_state = LockUnlocked, lk_attempts = 0\<rparr>"

record lock_manager =
  lm_locks :: "(session_id, session_lock) hash_map"
  lm_inhibitors :: inhibitor_registry
  lm_timeouts :: lock_timeouts

definition lm_new :: lock_manager where
  "lm_new = \<lparr>lm_locks = [], lm_inhibitors = inhibitors_new, lm_timeouts = lock_timeouts_new\<rparr>"

definition lm_is_locked :: "lock_manager \<Rightarrow> session_id \<Rightarrow> bool" where
  "lm_is_locked m sid =
     (case hm_get (lm_locks m) sid of
        None \<Rightarrow> False
      | Some l \<Rightarrow> lk_state l = LockLocked \<or> lk_state l = LockLockedOut)"

definition lm_lock :: "session_id \<Rightarrow> lock_policy \<Rightarrow> lock_manager \<Rightarrow> lock_manager \<times> unit result" where
  "lm_lock sid policy m =
     (if \<not> lp_enabled policy then (m, Inl (Unsupported ''locking is disabled in config''))
      else if blocks InhibitLock (lm_inhibitors m) then
        (m, Inl (PermissionDenied ''an application is inhibiting the lock screen''))
      else
        (m\<lparr>lm_locks := hm_insert sid
             ((hm_entry sid session_lock_default (lm_locks m))\<lparr>lk_state := LockLocked\<rparr>)
             (lm_locks m)\<rparr>, Inr ()))"

definition lm_unlock :: "session_id \<Rightarrow> lock_manager \<Rightarrow> lock_manager" where
  "lm_unlock sid m =
     m\<lparr>lm_locks := hm_modify sid (\<lambda>l. l\<lparr>lk_state := LockUnlocked, lk_attempts := 0\<rparr>) (lm_locks m),
       lm_timeouts := cancel_grace (lm_timeouts m) sid\<rparr>"

definition attempt_unlock ::
  "authenticator \<Rightarrow> auth_request \<Rightarrow> auth_policy \<Rightarrow> instant \<Rightarrow> lock_manager \<Rightarrow> lock_manager \<times> auth_outcome"
where
  "attempt_unlock auth request policy now m =
     (let sid = req_session_id request;
          entry = hm_entry sid session_lock_default (lm_locks m)
      in if lk_state entry = LockLockedOut then
           (m\<lparr>lm_locks := hm_insert sid entry (lm_locks m)\<rparr>,
            AuthLockedOut (as_secs (ap_lockout policy)))
         else
           (case check auth request policy (lk_attempts entry) of
              (outcome, attempts) \<Rightarrow>
                (let entry' = entry\<lparr>lk_attempts := attempts\<rparr>
                 in (case outcome of
                       AuthSuccess \<Rightarrow>
                         (m\<lparr>lm_locks := hm_insert sid (entry'\<lparr>lk_state := LockUnlocked\<rparr>) (lm_locks m)\<rparr>,
                          outcome)
                     | AuthLockedOut _ \<Rightarrow>
                         (m\<lparr>lm_locks := hm_insert sid (entry'\<lparr>lk_state := LockLockedOut\<rparr>) (lm_locks m),
                            lm_timeouts := start_lockout (lm_timeouts m) sid now (ap_lockout policy)\<rparr>,
                          outcome)
                     | _ \<Rightarrow> (m\<lparr>lm_locks := hm_insert sid entry' (lm_locks m)\<rparr>, outcome)))))"

definition clear_lockout :: "session_id \<Rightarrow> lock_manager \<Rightarrow> lock_manager" where
  "clear_lockout sid m =
     m\<lparr>lm_locks := hm_modify sid
         (\<lambda>l. if lk_state l = LockLockedOut then l\<lparr>lk_state := LockLocked, lk_attempts := 0\<rparr> else l)
         (lm_locks m)\<rparr>"

definition add_inhibitor ::
  "inhibit_what \<Rightarrow> string \<Rightarrow> string \<Rightarrow> inhibit_mode \<Rightarrow> lock_manager \<Rightarrow> lock_manager \<times> u64" where
  "add_inhibitor what who why mode m =
     (case inhibitor_add what who why mode (lm_inhibitors m) of
        (reg, i) \<Rightarrow> (m\<lparr>lm_inhibitors := reg\<rparr>, i))"

definition release_inhibitor :: "u64 \<Rightarrow> lock_manager \<Rightarrow> lock_manager \<times> unit result" where
  "release_inhibitor i m =
     (case inhibitor_remove i (lm_inhibitors m) of
        (reg, r) \<Rightarrow> (m\<lparr>lm_inhibitors := reg\<rparr>, r))"

text \<open>A sequence of unlock attempts with the outcomes, for statements about repeated guesses.\<close>

fun attempt_all ::
  "authenticator \<Rightarrow> auth_policy \<Rightarrow> instant \<Rightarrow> auth_request list \<Rightarrow> lock_manager
   \<Rightarrow> lock_manager \<times> auth_outcome list" where
  "attempt_all auth policy now [] m = (m, [])"
| "attempt_all auth policy now (r # rs) m =
     (case attempt_unlock auth r policy now m of
        (m', outcome) \<Rightarrow>
          (case attempt_all auth policy now rs m' of (m'', outcomes) \<Rightarrow> (m'', outcome # outcomes)))"

text \<open>The lock state of a session, \<open>Unlocked\<close> for one the manager has never seen.\<close>

definition lock_state_of :: "lock_manager \<Rightarrow> session_id \<Rightarrow> lock_state" where
  "lock_state_of m sid = lk_state (hm_entry sid session_lock_default (lm_locks m))"

definition attempts_of :: "lock_manager \<Rightarrow> session_id \<Rightarrow> u32" where
  "attempts_of m sid = lk_attempts (hm_entry sid session_lock_default (lm_locks m))"

definition lm_ok :: "lock_manager \<Rightarrow> bool" where
  "lm_ok m \<longleftrightarrow> hm_ok (lm_locks m) \<and> hm_ok (inhibitors (lm_inhibitors m))
     \<and> hm_ok (grace_expiry (lm_timeouts m)) \<and> hm_ok (lockout_expiry (lm_timeouts m))"

text \<open>\<open>add\<close> and \<open>remove\<close> as operations of a registry of ids.\<close>

type_synonym inhibit_args = "inhibit_what \<times> string \<times> string \<times> inhibit_mode"

fun inhibitor_alloc :: "inhibit_args \<Rightarrow> inhibitor_registry \<Rightarrow> inhibitor_registry \<times> u64 option" where
  "inhibitor_alloc (what, who, why, mode) reg =
     (case inhibitor_add what who why mode reg of (reg', i) \<Rightarrow> (reg', Some i))"

definition inhibitor_release :: "u64 \<Rightarrow> inhibitor_registry \<Rightarrow> inhibitor_registry" where
  "inhibitor_release i reg = fst (inhibitor_remove i reg)"

text \<open>A password table, a request and policies for the concrete examples.\<close>

definition password_auth :: "string \<Rightarrow> string \<Rightarrow> authenticator" where
  "password_auth name password r =
     (if req_user_name r = name \<and> req_password r = password then Inr () else Inl (AuthFailed ''denied''))"

definition guess :: "session_id \<Rightarrow> string \<Rightarrow> auth_request" where
  "guess sid password = \<lparr>req_session_id = sid, req_user_name = ''alice'', req_password = password\<rparr>"

definition sample_auth_policy :: auth_policy where
  "sample_auth_policy = auth_policy_new default_auth_settings default_lock_settings"

definition sample_lock_policy :: lock_policy where
  "sample_lock_policy = lock_policy_from default_lock_settings"

subsection \<open>Timers fire once, when due\<close>

lemma hm_get_fold_remove:
  "hm_get (fold hm_remove ks m) k = (if k \<in> set ks then None else hm_get m k)"
  by (induction ks arbitrary: m) auto

lemma hm_ok_fold_remove [simp]: "hm_ok m \<Longrightarrow> hm_ok (fold hm_remove ks m)"
  by (induction ks arbitrary: m) auto

lemma drain_expired_reports:
  assumes "hm_ok m"
  shows "k \<in> set (snd (drain_expired m now)) \<longleftrightarrow> (\<exists>t. hm_get m k = Some t \<and> t \<le> now)"
  using assms by (force simp: drain_expired_def Let_def hm_get_iff)

lemma drain_expired_distinct: "hm_ok m \<Longrightarrow> distinct (snd (drain_expired m now))"
  by (simp add: drain_expired_def Let_def hm_ok_def hm_keys_def distinct_map_filter)

lemma drain_expired_get:
  "hm_get (fst (drain_expired m now)) k = (if k \<in> set (snd (drain_expired m now)) then None else hm_get m k)"
  by (simp add: drain_expired_def Let_def hm_get_fold_remove)

lemma drain_expired_ok: "hm_ok m \<Longrightarrow> hm_ok (fst (drain_expired m now))"
  by (simp add: drain_expired_def Let_def)

lemmas drain_expired_simps =
  drain_expired_reports drain_expired_distinct drain_expired_get drain_expired_ok

lemma expired_grace_eq:
  "expired_grace t now =
     (t\<lparr>grace_expiry := fst (drain_expired (grace_expiry t) now)\<rparr>, snd (drain_expired (grace_expiry t) now))"
  by (simp add: expired_grace_def split_def)

lemma expired_lockouts_eq:
  "expired_lockouts t now =
     (t\<lparr>lockout_expiry := fst (drain_expired (lockout_expiry t) now)\<rparr>,
      snd (drain_expired (lockout_expiry t) now))"
  by (simp add: expired_lockouts_def split_def)

interpretation grace: cancellable_timer
  "\<lambda>t. hm_get (grace_expiry t)" start_grace expired_grace "\<lambda>t. hm_ok (grace_expiry t)" cancel_grace
  by unfold_locales
    (auto simp: start_grace_def cancel_grace_def expired_grace_eq drain_expired_simps fun_eq_iff)

interpretation lockout: deadline_timer
  "\<lambda>t. hm_get (lockout_expiry t)" start_lockout expired_lockouts "\<lambda>t. hm_ok (lockout_expiry t)"
  by unfold_locales
    (auto simp: start_lockout_def expired_lockouts_eq drain_expired_simps fun_eq_iff)

subsection \<open>Inhibitors\<close>

interpretation inhibitor_ids: id_allocator
  "\<lambda>reg. hm_get (inhibitors reg)" "\<lambda>reg. unat (inh_next_id reg)" inhibitor_alloc inhibitor_release
  "\<lambda>_. True" "2 ^ 64"
proof (unfold_locales, goal_cases)
  case (1 s a s' i)
  then have "unat (inh_next_id s + 1) = unat (inh_next_id s) + 1" by (intro unat_Suc_word) simp
  with 1(3) show ?case by (cases a) (auto simp: inhibitor_add_def Let_def)
next
  case (2 s a s')
  then show ?case by (cases a) (auto simp: inhibitor_add_def Let_def)
next
  case (4 a s s' i)
  then show ?case by (cases a) (auto simp: inhibitor_add_def Let_def)
qed (auto simp: inhibitor_release_def inhibitor_remove_def fun_eq_iff)

lemma blocks_iff:
  "hm_ok (inhibitors reg) \<Longrightarrow> blocks what reg \<longleftrightarrow>
     (\<exists>i h. hm_get (inhibitors reg) i = Some h \<and> inh_what h = what \<and> inh_mode h = BlockMode)"
  by (simp add: blocks_def list_ex_iff Bex_def set_hm_values) blast

subsection \<open>The lock state of a session\<close>

lemma lm_is_locked_iff: "lm_is_locked m sid \<longleftrightarrow> lock_state_of m sid \<noteq> LockUnlocked"
  by (cases "lock_state_of m sid")
    (auto simp: lm_is_locked_def lock_state_of_def hm_entry_def session_lock_default_def split: option.splits)

lemma lm_lock_cases:
  "lm_lock sid p m = (m', r) \<Longrightarrow>
     (\<exists>e. r = Inl e) \<and> m' = m \<and> (\<not> lp_enabled p \<or> blocks InhibitLock (lm_inhibitors m))
   \<or> r = Inr () \<and> lp_enabled p \<and> \<not> blocks InhibitLock (lm_inhibitors m)
     \<and> lm_inhibitors m' = lm_inhibitors m \<and> lm_timeouts m' = lm_timeouts m
     \<and> (\<forall>i. lock_state_of m' i = (if i = sid then LockLocked else lock_state_of m i))
     \<and> (\<forall>i. attempts_of m' i = attempts_of m i)"
  by (auto simp: lm_lock_def lock_state_of_def attempts_of_def hm_entry_def split: if_splits)

lemma lm_lock_state:
  "lock_state_of (fst (lm_lock sid p m)) i =
     (if i = sid \<and> lp_enabled p \<and> \<not> blocks InhibitLock (lm_inhibitors m) then LockLocked else lock_state_of m i)"
  by (auto simp: lm_lock_def lock_state_of_def hm_entry_def)

lemma attempt_unlock_locked_out:
  "lock_state_of m (req_session_id r) = LockLockedOut \<Longrightarrow>
     attempt_unlock a r p now m =
       (m\<lparr>lm_locks := hm_insert (req_session_id r)
           (hm_entry (req_session_id r) session_lock_default (lm_locks m)) (lm_locks m)\<rparr>,
        AuthLockedOut (as_secs (ap_lockout p)))"
  by (simp add: attempt_unlock_def lock_state_of_def Let_def)

lemma attempt_unlock_outcome:
  "lock_state_of m (req_session_id r) \<noteq> LockLockedOut \<Longrightarrow>
     snd (attempt_unlock a r p now m) = fst (check a r p (attempts_of m (req_session_id r)))"
  by (auto simp: attempt_unlock_def lock_state_of_def attempts_of_def Let_def
      split: prod.splits auth_outcome.splits)

lemma attempt_unlock_state:
  "lock_state_of (fst (attempt_unlock a r p now m)) i =
     (if i \<noteq> req_session_id r then lock_state_of m i
      else case snd (attempt_unlock a r p now m) of
             AuthSuccess \<Rightarrow> LockUnlocked
           | AuthLockedOut _ \<Rightarrow> LockLockedOut
           | _ \<Rightarrow> lock_state_of m i)"
  by (auto simp: attempt_unlock_def lock_state_of_def hm_entry_def Let_def
      split: prod.splits auth_outcome.splits)

lemma attempt_unlock_attempts:
  "attempts_of (fst (attempt_unlock a r p now m)) i =
     (if i \<noteq> req_session_id r \<or> lock_state_of m i = LockLockedOut then attempts_of m i
      else snd (check a r p (attempts_of m i)))"
  by (auto simp: attempt_unlock_def lock_state_of_def attempts_of_def hm_entry_def Let_def
      split: prod.splits auth_outcome.splits)

lemma attempt_unlock_frame [simp]:
  "lm_inhibitors (fst (attempt_unlock a r p now m)) = lm_inhibitors m"
  by (auto simp: attempt_unlock_def Let_def split: prod.splits auth_outcome.splits)

lemma attempt_unlock_timeouts:
  "lm_timeouts (fst (attempt_unlock a r p now m)) =
     (if lock_state_of m (req_session_id r) \<noteq> LockLockedOut
         \<and> lock_state_of (fst (attempt_unlock a r p now m)) (req_session_id r) = LockLockedOut
      then start_lockout (lm_timeouts m) (req_session_id r) now (ap_lockout p) else lm_timeouts m)"
  by (auto simp: attempt_unlock_def lock_state_of_def hm_entry_def Let_def
      split: prod.splits auth_outcome.splits)

lemma attempt_unlock_Success_iff:
  "snd (attempt_unlock a r p now m) = AuthSuccess \<longleftrightarrow>
     lock_state_of m (req_session_id r) \<noteq> LockLockedOut \<and> a r = Inr ()"
  by (cases "lock_state_of m (req_session_id r) = LockLockedOut")
    (simp_all add: attempt_unlock_locked_out attempt_unlock_outcome check_Success_iff)

lemma clear_lockout_state:
  "lock_state_of (clear_lockout sid m) i =
     (if i = sid \<and> lock_state_of m i = LockLockedOut then LockLocked else lock_state_of m i)"
  by (auto simp: clear_lockout_def lock_state_of_def hm_entry_def session_lock_default_def split: option.splits)

lemma clear_lockout_frame [simp]:
  "lm_inhibitors (clear_lockout sid m) = lm_inhibitors m" "lm_timeouts (clear_lockout sid m) = lm_timeouts m"
  by (simp_all add: clear_lockout_def)

lemma lm_ok_new [simp]: "lm_ok lm_new"
  by (simp add: lm_ok_def lm_new_def inhibitors_new_def lock_timeouts_new_def)

lemma lm_ok_lock: "lm_ok m \<Longrightarrow> lm_ok (fst (lm_lock sid p m))"
  by (simp add: lm_ok_def lm_lock_def)

lemma lm_ok_attempt: "lm_ok m \<Longrightarrow> lm_ok (fst (attempt_unlock a r p now m))"
  by (auto simp: lm_ok_def attempt_unlock_def start_lockout_def Let_def split: prod.splits auth_outcome.splits)

lemma lm_ok_clear: "lm_ok m \<Longrightarrow> lm_ok (clear_lockout sid m)"
  by (simp add: lm_ok_def clear_lockout_def)

lemma lm_ok_add_inhibitor: "lm_ok m \<Longrightarrow> lm_ok (fst (add_inhibitor what who why mode m))"
  by (simp add: lm_ok_def add_inhibitor_def inhibitor_add_def Let_def)

lemma lm_ok_release_inhibitor: "lm_ok m \<Longrightarrow> lm_ok (fst (release_inhibitor i m))"
  by (simp add: lm_ok_def release_inhibitor_def inhibitor_remove_def)

lemma clear_lockouts_state:
  "lock_state_of (fold clear_lockout sids m) i =
     (if i \<in> set sids \<and> lock_state_of m i = LockLockedOut then LockLocked else lock_state_of m i)"
  by (induction sids arbitrary: m) (auto simp: clear_lockout_state)

lemma clear_lockouts_frame [simp]:
  "lm_inhibitors (fold clear_lockout sids m) = lm_inhibitors m" "lm_timeouts (fold clear_lockout sids m) = lm_timeouts m"
  by (induction sids arbitrary: m) simp_all

lemma lm_ok_clear_lockouts: "lm_ok m \<Longrightarrow> lm_ok (fold clear_lockout sids m)"
  by (induction sids arbitrary: m) (simp_all add: lm_ok_clear)

subsection \<open>Repeated guesses\<close>

lemma attempt_all_Cons [simp]:
  "fst (attempt_all a p now (r # rs) m) = fst (attempt_all a p now rs (fst (attempt_unlock a r p now m)))"
  "snd (attempt_all a p now (r # rs) m) =
     snd (attempt_unlock a r p now m) # snd (attempt_all a p now rs (fst (attempt_unlock a r p now m)))"
  by (simp_all add: split_def)

declare attempt_all.simps(2) [simp del]

lemma attempt_all_locked_out:
  assumes "lock_state_of m sid = LockLockedOut" "\<forall>r \<in> set rs. req_session_id r = sid"
  shows "snd (attempt_all a p now rs m) = replicate (length rs) (AuthLockedOut (as_secs (ap_lockout p)))
    \<and> fst (attempt_all a p now rs m) = fst (attempt_all a' p now' rs m)
    \<and> lock_state_of (fst (attempt_all a p now rs m)) sid = LockLockedOut"
  using assms
proof (induction rs arbitrary: m)
  case Nil
  then show ?case by simp
next
  case (Cons r rs)
  then have st: "lock_state_of m (req_session_id r) = LockLockedOut" by simp
  define m' where "m' = fst (attempt_unlock a r p now m)"
  have "lock_state_of m' sid = LockLockedOut"
    using Cons.prems st attempt_unlock_locked_out [OF st, of a p now]
    attempt_unlock_state [of a r p now m sid] by (simp add: m'_def)
  with Cons.prems have "snd (attempt_all a p now rs m') =
      replicate (length rs) (AuthLockedOut (as_secs (ap_lockout p)))
    \<and> fst (attempt_all a p now rs m') = fst (attempt_all a' p now' rs m')
    \<and> lock_state_of (fst (attempt_all a p now rs m')) sid = LockLockedOut"
    by (intro Cons.IH) auto
  then show ?case by (elim conjE) (simp add: m'_def attempt_unlock_locked_out [OF st])
qed

lemma rejected_attempt:
  assumes "lock_state_of m sid \<noteq> LockLockedOut" "attempts_of m sid < ap_max_attempts p"
    and "req_session_id r = sid" "a r = Inl e"
  shows "lock_state_of (fst (attempt_unlock a r p now m)) sid =
      (if Suc (unat (attempts_of m sid)) < unat (ap_max_attempts p) then lock_state_of m sid else LockLockedOut)"
    and "unat (attempts_of (fst (attempt_unlock a r p now m)) sid) = Suc (unat (attempts_of m sid))"
proof -
  have "unat (attempts_of m sid) + 1 < 2 ^ LENGTH(32)"
    using assms(2) unsigned_less [where 'a = nat, of "ap_max_attempts p"] by (simp add: word_less_nat_alt)
  then have inc: "unat (attempts_of m sid + 1) = Suc (unat (attempts_of m sid))"
    using unat_Suc_word [of "attempts_of m sid"] by simp
  then have "ap_max_attempts p \<le> attempts_of m sid + 1 \<longleftrightarrow>
      \<not> Suc (unat (attempts_of m sid)) < unat (ap_max_attempts p)"
    by (auto simp: word_le_nat_alt)
  with assms inc show "lock_state_of (fst (attempt_unlock a r p now m)) sid =
      (if Suc (unat (attempts_of m sid)) < unat (ap_max_attempts p) then lock_state_of m sid else LockLockedOut)"
    and "unat (attempts_of (fst (attempt_unlock a r p now m)) sid) = Suc (unat (attempts_of m sid))"
    by (simp_all add: attempt_unlock_state attempt_unlock_outcome attempt_unlock_attempts check_reject)
qed

lemma attempt_all_rejected:
  assumes "lock_state_of m sid \<noteq> LockLockedOut" "attempts_of m sid < ap_max_attempts p"
    and "\<forall>r \<in> set rs. req_session_id r = sid \<and> (\<exists>e. a r = Inl e)"
  shows "lock_state_of (fst (attempt_all a p now rs m)) sid =
    (if unat (ap_max_attempts p) \<le> unat (attempts_of m sid) + length rs then LockLockedOut
     else lock_state_of m sid)"
  using assms
proof (induction rs arbitrary: m)
  case Nil
  then show ?case by (simp add: word_less_nat_alt)
next
  case (Cons r rs)
  define m' where "m' = fst (attempt_unlock a r p now m)"
  from Cons.prems obtain e where r: "req_session_id r = sid" "a r = Inl e" by auto
  note one = rejected_attempt [where a = a and now = now, OF Cons.prems(1,2) r, folded m'_def]
  show ?case
  proof (cases "Suc (unat (attempts_of m sid)) < unat (ap_max_attempts p)")
    case True
    with one Cons.prems(1) have "lock_state_of m' sid \<noteq> LockLockedOut"
      "attempts_of m' sid < ap_max_attempts p" by (simp_all add: m'_def word_less_nat_alt)
    with Cons.IH [of m'] Cons.prems(3) one True show ?thesis by (simp add: m'_def)
  next
    case False
    with one have "lock_state_of m' sid = LockLockedOut" by (simp add: m'_def)
    with attempt_all_locked_out [of m' sid rs a p now] Cons.prems(3) False show ?thesis
      by (simp add: m'_def)
  qed
qed

subsection \<open>Properties\<close>

text \<open>
  C10. The brute-force bound of the lock screen. From a session that is not locked out, rejected
  passwords lock it out exactly when the count reaches \<open>max_auth_attempts\<close>, and no earlier. Once
  it is locked out every further attempt is answered \<open>LockedOut\<close>, and neither the answers nor the
  state depend on the authenticator: the credential is not checked at all.
\<close>

theorem lockout_exactly_at_max:
  assumes "lock_state_of m sid \<noteq> LockLockedOut" "attempts_of m sid < ap_max_attempts p"
    and "\<forall>r \<in> set rs. req_session_id r = sid \<and> (\<exists>e. a r = Inl e)"
    and "\<forall>r \<in> set later. req_session_id r = sid"
  shows "(if unat (ap_max_attempts p) \<le> unat (attempts_of m sid) + length rs
      then lock_state_of (fst (attempt_all a p now rs m)) sid = LockLockedOut
        \<and> snd (attempt_all b p now' later (fst (attempt_all a p now rs m))) =
            replicate (length later) (AuthLockedOut (as_secs (ap_lockout p)))
        \<and> fst (attempt_all b p now' later (fst (attempt_all a p now rs m))) =
            fst (attempt_all c p now'' later (fst (attempt_all a p now rs m)))
      else lock_state_of (fst (attempt_all a p now rs m)) sid = lock_state_of m sid)"
  using attempt_all_rejected [OF assms(1-3), of now]
    attempt_all_locked_out [OF _ assms(4), of "fst (attempt_all a p now rs m)" b p now' c now'']
  by simp

theorem lockout_exactly_at_max_witness:
  "lock_state_of (fst (attempt_all (password_auth ''alice'' ''hunter2'') sample_auth_policy 0
      [guess 1 ''a'', guess 1 ''b'', guess 1 ''c''] (fst (lm_lock 1 sample_lock_policy lm_new)))) 1 = LockLockedOut"
proof -
  let ?m = "fst (lm_lock 1 sample_lock_policy lm_new)"
  have 1: "lock_state_of ?m 1 \<noteq> LockLockedOut" by code_simp
  have 2: "attempts_of ?m 1 < ap_max_attempts sample_auth_policy" by code_simp
  have 3: "\<forall>r \<in> set [guess 1 ''a'', guess 1 ''b'', guess 1 ''c''].
      req_session_id r = 1 \<and> (\<exists>e. password_auth ''alice'' ''hunter2'' r = Inl e)"
    by (simp add: guess_def password_auth_def)
  have 4: "\<forall>r \<in> set [guess 1 ''hunter2'']. req_session_id r = 1" by (simp add: guess_def)
  have 5: "unat (ap_max_attempts sample_auth_policy) \<le> unat (attempts_of ?m 1)
      + length [guess 1 ''a'', guess 1 ''b'', guess 1 ''c'']" by code_simp
  show ?thesis
    using lockout_exactly_at_max [OF 1 2 3 4, of 0] unfolding if_P [OF 5] by (rule conjunct1)
qed

text \<open>
  C38. A lockout does not survive a new lock request: \<open>lock\<close> on a session in \<open>LockedOut\<close> puts it back
  to \<open>Locked\<close>, so the very next attempt is checked again, at the same instant. Alternating
  \<open>LockSession\<close> and \<open>Unlock\<close> gives one checked guess per round without ever waiting.
\<close>

theorem relock_ends_lockout:
  assumes "lock_state_of m (req_session_id r) = LockLockedOut" "lp_enabled lp"
    and "\<not> blocks InhibitLock (lm_inhibitors m)" "a r = Inr ()"
  shows "snd (attempt_unlock a r p now m) = AuthLockedOut (as_secs (ap_lockout p))
    \<and> snd (attempt_unlock a r p now (fst (lm_lock (req_session_id r) lp m))) = AuthSuccess
    \<and> lock_state_of (fst (attempt_unlock a r p now (fst (lm_lock (req_session_id r) lp m))))
        (req_session_id r) = LockUnlocked"
proof -
  have "lock_state_of (fst (lm_lock (req_session_id r) lp m)) (req_session_id r) = LockLocked"
    using assms by (simp add: lm_lock_state)
  with assms(4) have "snd (attempt_unlock a r p now (fst (lm_lock (req_session_id r) lp m))) = AuthSuccess"
    by (simp add: attempt_unlock_Success_iff)
  with assms(1) show ?thesis by (simp add: attempt_unlock_locked_out attempt_unlock_state)
qed

theorem relock_ends_lockout_witness:
  "let a = password_auth ''alice'' ''d'';
       m = fst (attempt_all a sample_auth_policy 0 [guess 1 ''a'', guess 1 ''b'', guess 1 ''c'']
             (fst (lm_lock 1 sample_lock_policy lm_new)))
   in snd (attempt_unlock a (guess 1 ''d'') sample_auth_policy 0 m) = AuthLockedOut (as_secs (ap_lockout sample_auth_policy))
      \<and> snd (attempt_unlock a (guess 1 ''d'') sample_auth_policy 0
            (fst (lm_lock (req_session_id (guess 1 ''d'')) sample_lock_policy m))) = AuthSuccess"
proof -
  let ?a = "password_auth ''alice'' ''d''"
  let ?m = "fst (attempt_all ?a sample_auth_policy 0 [guess 1 ''a'', guess 1 ''b'', guess 1 ''c'']
             (fst (lm_lock 1 sample_lock_policy lm_new)))"
  have 1: "lock_state_of ?m (req_session_id (guess 1 ''d'')) = LockLockedOut" by code_simp
  have 2: "lp_enabled sample_lock_policy" by code_simp
  have 3: "\<not> blocks InhibitLock (lm_inhibitors ?m)" by code_simp
  have 4: "?a (guess 1 ''d'') = Inr ()" by code_simp
  show ?thesis
    unfolding Let_def
    using relock_ends_lockout [where a = ?a and p = sample_auth_policy and now = 0, OF 1 2 3 4]
    by - (elim conjE, intro conjI; assumption)
qed

text \<open>
  The lockout timer. A lockout started at \<open>now\<close> for \<open>d\<close> is reported by a sweep at \<open>later\<close>
  exactly when \<open>now + d \<le> later\<close>; what a sweep reports, no later sweep reports again; and a
  deadline still in the future is kept.
\<close>

lemma lockout_timer_exact:
  assumes "hm_ok (lockout_expiry t)"
  shows "(sid \<in> set (snd (expired_lockouts (start_lockout t sid now d) later)) \<longleftrightarrow> now + d \<le> later)
    \<and> (sid \<in> set (snd (expired_lockouts t now)) \<longrightarrow>
         sid \<notin> set (snd (expired_lockouts (fst (expired_lockouts t now)) later)))
    \<and> (\<forall>due. hm_get (lockout_expiry t) sid = Some due \<longrightarrow> now < due \<longrightarrow>
         hm_get (lockout_expiry (fst (expired_lockouts t now))) sid = Some due)"
  using lockout.fires_exactly_when_due [OF assms] lockout.fires_once [OF assms]
    lockout.pending_survives [OF assms] by auto

text \<open>
  Inhibitors. The id a client is given is fresh and non-zero in every history shorter than
  $2^{64}$ operations, and a \<open>Block\<close> inhibitor on the lock makes \<open>lock\<close> fail and change nothing
  until that id is released.
\<close>

lemma inhibitor_lifecycle:
  assumes "length ops < 2 ^ 64" "lm_ok m" "add_inhibitor InhibitLock who why BlockMode m = (m', i)"
  shows "distinct (issued_ids inhibitor_alloc inhibitor_release ops inhibitors_new)
    \<and> 0 \<notin> set (issued_ids inhibitor_alloc inhibitor_release ops inhibitors_new)
    \<and> (\<exists>e. lm_lock sid p m' = (m', Inl e))
    \<and> snd (release_inhibitor i m') = Inr ()
    \<and> hm_get (inhibitors (lm_inhibitors (fst (release_inhibitor i m')))) i = None"
proof (intro conjI)
  have len: "unat (inh_next_id inhibitors_new) + length ops < 2 ^ 64"
    using assms(1) by (simp add: inhibitors_new_def)
  show "distinct (issued_ids inhibitor_alloc inhibitor_release ops inhibitors_new)"
    by (rule inhibitor_ids.issued_distinct [OF TrueI len])
  show "0 \<notin> set (issued_ids inhibitor_alloc inhibitor_release ops inhibitors_new)"
    using inhibitor_ids.issued_above [OF TrueI len, of 0] by auto
  have get: "hm_get (inhibitors (lm_inhibitors m')) i =
      Some \<lparr>inh_id = i, inh_what = InhibitLock, inh_who = who, inh_why = why, inh_mode = BlockMode\<rparr>"
    using assms(3) by (auto simp: add_inhibitor_def inhibitor_add_def Let_def)
  have "hm_ok (inhibitors (lm_inhibitors m'))"
    using lm_ok_add_inhibitor [OF assms(2), of InhibitLock who why BlockMode] assms(3)
    by (simp add: lm_ok_def)
  with get have "blocks InhibitLock (lm_inhibitors m')" using blocks_iff by fastforce
  then show "\<exists>e. lm_lock sid p m' = (m', Inl e)" by (simp add: lm_lock_def)
qed (use assms(3) in \<open>auto simp: add_inhibitor_def inhibitor_add_def release_inhibitor_def
    inhibitor_remove_def Let_def\<close>)

end
