(* ===== verification/Elevation.thy ===== *)
theory Elevation
  imports Lock
begin

section \<open>Elevation prompts\<close>

text \<open>
  \<open>src/elevation/\<close>: what a prompt shows and its validation (\<open>action.rs\<close>), the policy
  (\<open>policy.rs\<close>), the timers (\<open>timeout.rs\<close>) and the manager of pending prompts (\<open>manager.rs\<close>).
  The manager interprets \<open>id_allocator\<close>, its prompt table \<open>cancellable_timer\<close> and its lockout
  table \<open>deadline_timer\<close>.
\<close>

subsection \<open>Actions\<close>

datatype elevation_risk = Elevated | Critical

record elevation_action =
  requesting_app :: string
  description :: string
  risk :: elevation_risk
  duration_label :: string

definition max_label_len :: nat where
  "max_label_len = 256"

definition validate :: "elevation_action \<Rightarrow> string + unit" where
  "validate a =
     (if requesting_app a = [] then Inl ''requesting_app must not be empty''
      else if length (requesting_app a) > max_label_len then
        Inl ''requesting_app exceeds the maximum label length''
      else if description a = [] then Inl ''description must not be empty''
      else if length (description a) > max_label_len then
        Inl ''description exceeds the maximum label length''
      else if length (duration_label a) > max_label_len then
        Inl ''duration_label exceeds the maximum label length''
      else Inr ())"

datatype elevation_response = Password string | CancelPrompt

subsection \<open>Policy\<close>

record elevation_policy =
  ep_enabled :: bool
  ep_prompt_timeout :: duration
  ep_max_pending :: nat

definition elevation_policy_from :: "elevation_settings \<Rightarrow> elevation_policy" where
  "elevation_policy_from s =
     \<lparr>ep_enabled = elev_enabled s, ep_prompt_timeout = from_secs (prompt_timeout_secs s),
      ep_max_pending = unat (max_pending_per_session s)\<rparr>"

subsection \<open>Timers\<close>

type_synonym request_id = u64

record elevation_timeouts =
  prompt_expiry :: "(request_id, instant) hash_map"
  elev_lockout_expiry :: "(session_id, instant) hash_map"

definition elevation_timeouts_new :: elevation_timeouts where
  "elevation_timeouts_new = \<lparr>prompt_expiry = [], elev_lockout_expiry = []\<rparr>"

definition elev_drain_expired ::
  "('k, instant) hash_map \<Rightarrow> instant \<Rightarrow> ('k, instant) hash_map \<times> 'k list" where
  "elev_drain_expired m now =
     (let expired = map fst (filter (\<lambda>(_, t). t \<le> now) m) in (fold hm_remove expired m, expired))"

definition start_prompt ::
  "elevation_timeouts \<Rightarrow> request_id \<Rightarrow> instant \<Rightarrow> duration \<Rightarrow> elevation_timeouts" where
  "start_prompt t i now timeout = t\<lparr>prompt_expiry := hm_insert i (now + timeout) (prompt_expiry t)\<rparr>"

definition cancel_prompt :: "elevation_timeouts \<Rightarrow> request_id \<Rightarrow> elevation_timeouts" where
  "cancel_prompt t i = t\<lparr>prompt_expiry := hm_remove i (prompt_expiry t)\<rparr>"

definition expired_prompts :: "elevation_timeouts \<Rightarrow> instant \<Rightarrow> elevation_timeouts \<times> request_id list"
where
  "expired_prompts t now =
     (case elev_drain_expired (prompt_expiry t) now of (m, ids) \<Rightarrow> (t\<lparr>prompt_expiry := m\<rparr>, ids))"

definition elev_start_lockout ::
  "elevation_timeouts \<Rightarrow> session_id \<Rightarrow> instant \<Rightarrow> duration \<Rightarrow> elevation_timeouts" where
  "elev_start_lockout t sid now lockout =
     t\<lparr>elev_lockout_expiry := hm_insert sid (now + lockout) (elev_lockout_expiry t)\<rparr>"

definition elev_expired_lockouts ::
  "elevation_timeouts \<Rightarrow> instant \<Rightarrow> elevation_timeouts \<times> session_id list" where
  "elev_expired_lockouts t now =
     (case elev_drain_expired (elev_lockout_expiry t) now of
        (m, ids) \<Rightarrow> (t\<lparr>elev_lockout_expiry := m\<rparr>, ids))"

subsection \<open>The manager\<close>

record session_elevation_auth =
  ea_locked_out :: bool
  ea_attempts :: u32

definition session_elevation_auth_default :: session_elevation_auth where
  "session_elevation_auth_default = \<lparr>ea_locked_out = False, ea_attempts = 0\<rparr>"

record pending_elevation =
  pe_session_id :: session_id
  pe_compositor_conn :: conn_id
  pe_requester_conn :: conn_id

record pending_elevation_info =
  pi_session_id :: session_id
  pi_compositor_conn :: conn_id

record elevation_outcome =
  eo_session_id :: session_id
  eo_compositor_conn :: conn_id
  eo_requester_conn :: conn_id
  eo_outcome :: auth_outcome
  eo_terminal :: bool

record abandoned_elevation =
  ab_request_id :: request_id
  ab_session_id :: session_id
  ab_compositor_conn :: conn_id
  ab_requester_conn :: conn_id

record elevation_manager =
  em_pending :: "(request_id, pending_elevation) hash_map"
  em_next_id :: u64
  em_session_auth :: "(session_id, session_elevation_auth) hash_map"
  em_timeouts :: elevation_timeouts
  em_requester_uid :: "u32 option"

definition em_new :: elevation_manager where
  "em_new = \<lparr>em_pending = [], em_next_id = 0, em_session_auth = [],
      em_timeouts = elevation_timeouts_new, em_requester_uid = None\<rparr>"

definition set_requester_uid :: "u32 option \<Rightarrow> elevation_manager \<Rightarrow> elevation_manager" where
  "set_requester_uid uid m = m\<lparr>em_requester_uid := uid\<rparr>"

definition is_authorized_requester :: "elevation_manager \<Rightarrow> u32 \<Rightarrow> bool" where
  "is_authorized_requester m uid \<longleftrightarrow> em_requester_uid m = Some uid"

definition peek :: "elevation_manager \<Rightarrow> request_id \<Rightarrow> pending_elevation_info option" where
  "peek m i = map_option (\<lambda>p. \<lparr>pi_session_id = pe_session_id p, pi_compositor_conn = pe_compositor_conn p\<rparr>)
     (hm_get (em_pending m) i)"

definition compositor_conn_for :: "elevation_manager \<Rightarrow> request_id \<Rightarrow> conn_id option" where
  "compositor_conn_for m i = map_option pe_compositor_conn (hm_get (em_pending m) i)"

definition em_begin ::
  "session_id \<Rightarrow> conn_id \<Rightarrow> conn_id \<Rightarrow> elevation_policy \<Rightarrow> auth_policy \<Rightarrow> instant \<Rightarrow> elevation_manager
   \<Rightarrow> elevation_manager \<times> request_id result" where
  "em_begin sid cconn rconn policy apolicy now m =
     (if (case hm_get (em_session_auth m) sid of None \<Rightarrow> False | Some a \<Rightarrow> ea_locked_out a) then
        (m, Inl (LockedOutError (as_secs (ap_lockout apolicy))))
      else
        (let pending_for_session = hm_count (\<lambda>p. pe_session_id p = sid) (em_pending m)
         in if pending_for_session \<ge> ep_max_pending policy then
              (m, Inl (PermissionDenied
                 (''session '' @ show_word sid @ '' already has '' @ dec_digits pending_for_session
                  @ '' elevation prompt(s) pending'')))
            else
              (let i = em_next_id m + 1
               in (m\<lparr>em_next_id := i,
                     em_pending := hm_insert i
                       \<lparr>pe_session_id = sid, pe_compositor_conn = cconn, pe_requester_conn = rconn\<rparr>
                       (em_pending m),
                     em_timeouts := start_prompt (em_timeouts m) i now (ep_prompt_timeout policy)\<rparr>,
                   Inr i))))"

definition em_attempt ::
  "request_id \<Rightarrow> authenticator \<Rightarrow> auth_request \<Rightarrow> auth_policy \<Rightarrow> instant \<Rightarrow> elevation_manager
   \<Rightarrow> elevation_manager \<times> elevation_outcome option" where
  "em_attempt i auth request policy now m =
     (case hm_get (em_pending m) i of
        None \<Rightarrow> (m, None)
      | Some p \<Rightarrow>
          (let sid = pe_session_id p;
               entry = hm_entry sid session_elevation_auth_default (em_session_auth m)
           in (case check auth request policy (ea_attempts entry) of
                 (outcome, attempts) \<Rightarrow>
                   (let (entry', timeouts', terminal) =
                          (case outcome of
                             AuthSuccess \<Rightarrow> (entry\<lparr>ea_attempts := 0\<rparr>, em_timeouts m, True)
                           | AuthLockedOut _ \<Rightarrow>
                               (entry\<lparr>ea_attempts := attempts, ea_locked_out := True\<rparr>,
                                elev_start_lockout (em_timeouts m) sid now (ap_lockout policy), True)
                           | AuthFailure _ \<Rightarrow> (entry\<lparr>ea_attempts := attempts\<rparr>, em_timeouts m, False)
                           | _ \<Rightarrow> (entry\<lparr>ea_attempts := attempts\<rparr>, em_timeouts m, True));
                        m' = m\<lparr>em_session_auth := hm_insert sid entry' (em_session_auth m),
                               em_timeouts := timeouts'\<rparr>;
                        m'' = (if terminal then
                                 m'\<lparr>em_pending := hm_remove i (em_pending m'),
                                    em_timeouts := cancel_prompt (em_timeouts m') i\<rparr>
                               else m')
                    in (m'', Some \<lparr>eo_session_id = sid, eo_compositor_conn = pe_compositor_conn p,
                                   eo_requester_conn = pe_requester_conn p, eo_outcome = outcome,
                                   eo_terminal = terminal\<rparr>)))))"

definition em_cancel :: "request_id \<Rightarrow> elevation_manager \<Rightarrow> elevation_manager \<times> elevation_outcome option"
where
  "em_cancel i m =
     (case hm_get (em_pending m) i of
        None \<Rightarrow> (m, None)
      | Some p \<Rightarrow>
          (m\<lparr>em_pending := hm_remove i (em_pending m), em_timeouts := cancel_prompt (em_timeouts m) i\<rparr>,
           Some \<lparr>eo_session_id = pe_session_id p, eo_compositor_conn = pe_compositor_conn p,
                 eo_requester_conn = pe_requester_conn p, eo_outcome = AuthCancelled,
                 eo_terminal = True\<rparr>))"

fun clear_elev_lockouts :: "session_id list \<Rightarrow> elevation_manager \<Rightarrow> elevation_manager" where
  "clear_elev_lockouts [] m = m"
| "clear_elev_lockouts (sid # sids) m =
     clear_elev_lockouts sids
       (m\<lparr>em_session_auth := hm_modify sid (\<lambda>a. a\<lparr>ea_locked_out := False, ea_attempts := 0\<rparr>)
            (em_session_auth m)\<rparr>)"

definition clear_expired_lockouts :: "instant \<Rightarrow> elevation_manager \<Rightarrow> elevation_manager" where
  "clear_expired_lockouts now m =
     (case elev_expired_lockouts (em_timeouts m) now of
        (t, sids) \<Rightarrow> clear_elev_lockouts sids (m\<lparr>em_timeouts := t\<rparr>))"

definition take_abandoned ::
  "request_id \<Rightarrow> elevation_manager \<Rightarrow> elevation_manager \<times> abandoned_elevation option" where
  "take_abandoned i m =
     (m\<lparr>em_timeouts := cancel_prompt (em_timeouts m) i, em_pending := hm_remove i (em_pending m)\<rparr>,
      map_option (\<lambda>p. \<lparr>ab_request_id = i, ab_session_id = pe_session_id p,
                      ab_compositor_conn = pe_compositor_conn p, ab_requester_conn = pe_requester_conn p\<rparr>)
        (hm_get (em_pending m) i))"

text \<open>\<open>ids.into_iter().filter_map(|id| self.take_abandoned(id)).collect()\<close>.\<close>

fun take_abandoned_all ::
  "request_id list \<Rightarrow> elevation_manager \<Rightarrow> elevation_manager \<times> abandoned_elevation list" where
  "take_abandoned_all [] m = (m, [])"
| "take_abandoned_all (i # ids) m =
     (case take_abandoned i m of
        (m', x) \<Rightarrow>
          (case take_abandoned_all ids m' of
             (m'', xs) \<Rightarrow> (m'', (case x of None \<Rightarrow> xs | Some a \<Rightarrow> a # xs))))"

definition expire_pending :: "instant \<Rightarrow> elevation_manager \<Rightarrow> elevation_manager \<times> abandoned_elevation list"
where
  "expire_pending now m =
     (case expired_prompts (em_timeouts m) now of
        (t, ids) \<Rightarrow> take_abandoned_all ids (m\<lparr>em_timeouts := t\<rparr>))"

definition abandon_where ::
  "(pending_elevation \<Rightarrow> bool) \<Rightarrow> elevation_manager \<Rightarrow> elevation_manager \<times> abandoned_elevation list" where
  "abandon_where P m = take_abandoned_all (map fst (filter (\<lambda>(_, p). P p) (em_pending m))) m"

definition abandon_session ::
  "session_id \<Rightarrow> elevation_manager \<Rightarrow> elevation_manager \<times> abandoned_elevation list" where
  "abandon_session sid m = abandon_where (\<lambda>p. pe_session_id p = sid) m"

definition abandon_connection ::
  "conn_id \<Rightarrow> elevation_manager \<Rightarrow> elevation_manager \<times> abandoned_elevation list" where
  "abandon_connection c m =
     abandon_where (\<lambda>p. pe_compositor_conn p = c \<or> pe_requester_conn p = c) m"

subsection \<open>Well-formed managers\<close>

text \<open>
  Every open prompt has a deadline and every deadline an open prompt, ids are below the counter,
  and a session that is locked out has a deadline at which the lockout ends.
\<close>

definition em_inv :: "elevation_manager \<Rightarrow> bool" where
  "em_inv m \<longleftrightarrow> hm_ok (em_pending m) \<and> hm_ok (em_session_auth m)
     \<and> hm_ok (prompt_expiry (em_timeouts m)) \<and> hm_ok (elev_lockout_expiry (em_timeouts m))
     \<and> ids_below (hm_get (em_pending m)) (unat (em_next_id m))
     \<and> (\<forall>i. hm_get (prompt_expiry (em_timeouts m)) i = None \<longleftrightarrow> hm_get (em_pending m) i = None)
     \<and> (\<forall>sid a. hm_get (em_session_auth m) sid = Some a \<longrightarrow> ea_locked_out a \<longrightarrow>
          hm_get (elev_lockout_expiry (em_timeouts m)) sid \<noteq> None)"

definition pending_of :: "session_id \<Rightarrow> elevation_manager \<Rightarrow> nat" where
  "pending_of sid m = hm_count (\<lambda>p. pe_session_id p = sid) (em_pending m)"

definition elev_locked_out :: "elevation_manager \<Rightarrow> session_id \<Rightarrow> bool" where
  "elev_locked_out m sid \<longleftrightarrow> ea_locked_out (hm_entry sid session_elevation_auth_default (em_session_auth m))"

definition elev_attempts :: "elevation_manager \<Rightarrow> session_id \<Rightarrow> u32" where
  "elev_attempts m sid = ea_attempts (hm_entry sid session_elevation_auth_default (em_session_auth m))"

text \<open>\<open>begin\<close> and \<open>cancel\<close> as operations of a registry of ids.\<close>

type_synonym begin_args = "session_id \<times> conn_id \<times> conn_id \<times> elevation_policy \<times> auth_policy \<times> instant"

fun em_alloc :: "begin_args \<Rightarrow> elevation_manager \<Rightarrow> elevation_manager \<times> request_id option" where
  "em_alloc (sid, cconn, rconn, policy, apolicy, now) m =
     (case em_begin sid cconn rconn policy apolicy now m of
        (m', Inl _) \<Rightarrow> (m', None)
      | (m', Inr i) \<Rightarrow> (m', Some i))"

definition em_release :: "request_id \<Rightarrow> elevation_manager \<Rightarrow> elevation_manager" where
  "em_release i m = fst (em_cancel i m)"

text \<open>What every way of closing a set of prompts does to the manager.\<close>

definition closes :: "request_id set \<Rightarrow> elevation_manager \<Rightarrow> elevation_manager \<Rightarrow> bool" where
  "closes X m m' \<longleftrightarrow> em_next_id m' = em_next_id m \<and> em_requester_uid m' = em_requester_uid m
     \<and> em_session_auth m' = em_session_auth m
     \<and> elev_lockout_expiry (em_timeouts m') = elev_lockout_expiry (em_timeouts m)
     \<and> (hm_ok (em_pending m) \<longrightarrow> hm_ok (em_pending m'))
     \<and> (hm_ok (prompt_expiry (em_timeouts m)) \<longrightarrow> hm_ok (prompt_expiry (em_timeouts m')))
     \<and> (\<forall>i. hm_get (em_pending m') i = (if i \<in> X then None else hm_get (em_pending m) i))
     \<and> (\<forall>i. hm_get (prompt_expiry (em_timeouts m')) i =
            (if i \<in> X then None else hm_get (prompt_expiry (em_timeouts m)) i))
     \<and> (\<forall>P. hm_count P (em_pending m') \<le> hm_count P (em_pending m))"

text \<open>What is reported of a prompt closed without an answer.\<close>

definition abandoned_of :: "request_id \<Rightarrow> pending_elevation \<Rightarrow> abandoned_elevation" where
  "abandoned_of i p = \<lparr>ab_request_id = i, ab_session_id = pe_session_id p,
     ab_compositor_conn = pe_compositor_conn p, ab_requester_conn = pe_requester_conn p\<rparr>"

definition sample_elevation_policy :: elevation_policy where
  "sample_elevation_policy = elevation_policy_from default_elevation_settings"

text \<open>Two prompts open for session 1, shown on connection 2 and asked for on connection 3.\<close>

definition one_prompt :: elevation_manager where
  "one_prompt = fst (em_begin 1 2 3 sample_elevation_policy sample_auth_policy 0 em_new)"

definition two_prompts :: elevation_manager where
  "two_prompts = fst (em_begin 1 2 3 sample_elevation_policy sample_auth_policy 0 one_prompt)"

text \<open>The same after three wrong passwords for the first prompt: it is closed and the session locked out.\<close>

definition lockout_with_prompt :: elevation_manager where
  "lockout_with_prompt = fold (\<lambda>g m. fst (em_attempt 1 (password_auth ''alice'' ''d'') (guess 1 g) sample_auth_policy 0 m))
     [''a'', ''b'', ''c''] two_prompts"

subsection \<open>Timers fire once, when due\<close>

lemma elev_drain_expired_eq: "elev_drain_expired = drain_expired"
  by (simp add: fun_eq_iff elev_drain_expired_def drain_expired_def)

lemma expired_prompts_eq:
  "expired_prompts t now =
     (t\<lparr>prompt_expiry := fst (drain_expired (prompt_expiry t) now)\<rparr>, snd (drain_expired (prompt_expiry t) now))"
  by (simp add: expired_prompts_def elev_drain_expired_eq split_def)

lemma elev_expired_lockouts_eq:
  "elev_expired_lockouts t now =
     (t\<lparr>elev_lockout_expiry := fst (drain_expired (elev_lockout_expiry t) now)\<rparr>,
      snd (drain_expired (elev_lockout_expiry t) now))"
  by (simp add: elev_expired_lockouts_def elev_drain_expired_eq split_def)

interpretation prompts: cancellable_timer
  "\<lambda>t. hm_get (prompt_expiry t)" start_prompt expired_prompts "\<lambda>t. hm_ok (prompt_expiry t)" cancel_prompt
  by unfold_locales
    (auto simp: start_prompt_def cancel_prompt_def expired_prompts_eq drain_expired_simps fun_eq_iff)

interpretation elev_lockout: deadline_timer
  "\<lambda>t. hm_get (elev_lockout_expiry t)" elev_start_lockout elev_expired_lockouts
  "\<lambda>t. hm_ok (elev_lockout_expiry t)"
  by unfold_locales
    (auto simp: elev_start_lockout_def elev_expired_lockouts_eq drain_expired_simps fun_eq_iff)

subsection \<open>Opening a prompt\<close>

lemma em_begin_cases:
  "em_begin sid cconn rconn policy apolicy now m = (m', r) \<Longrightarrow>
     (\<exists>e. r = Inl e \<and> m' = m)
   \<or> (r = Inr (em_next_id m + 1) \<and> \<not> elev_locked_out m sid
      \<and> pending_of sid m < ep_max_pending policy
      \<and> m' = m\<lparr>em_next_id := em_next_id m + 1,
              em_pending := hm_insert (em_next_id m + 1)
                \<lparr>pe_session_id = sid, pe_compositor_conn = cconn, pe_requester_conn = rconn\<rparr> (em_pending m),
              em_timeouts := start_prompt (em_timeouts m) (em_next_id m + 1) now (ep_prompt_timeout policy)\<rparr>)"
  by (auto simp: em_begin_def Let_def elev_locked_out_def pending_of_def hm_entry_def
      session_elevation_auth_default_def split: if_splits option.splits)

lemma em_begin_locked_out:
  "elev_locked_out m sid \<Longrightarrow>
     em_begin sid cconn rconn policy apolicy now m = (m, Inl (LockedOutError (as_secs (ap_lockout apolicy))))"
  by (auto simp: em_begin_def elev_locked_out_def hm_entry_def session_elevation_auth_default_def
      split: option.splits)

lemma em_release_look: "hm_get (em_pending (em_release i m)) = (hm_get (em_pending m))(i := None)"
  by (auto simp: em_release_def em_cancel_def fun_eq_iff split: option.splits)

lemma em_release_next_id [simp]: "em_next_id (em_release i m) = em_next_id m"
  by (simp add: em_release_def em_cancel_def split: option.splits)

interpretation prompt_ids: id_allocator
  "\<lambda>m. hm_get (em_pending m)" "\<lambda>m. unat (em_next_id m)" em_alloc em_release "\<lambda>_. True" "2 ^ 64"
proof (unfold_locales, goal_cases)
  case (1 s a s' i)
  then have "unat (em_next_id s + 1) = unat (em_next_id s) + 1" by (intro unat_Suc_word) simp
  with 1(3) show ?case by (cases a) (auto split: prod.splits sum.splits dest!: em_begin_cases)
next
  case (2 s a s')
  then show ?case by (cases a) (auto split: prod.splits sum.splits dest!: em_begin_cases)
next
  case (4 a s s' i)
  then show ?case by (cases a) (auto split: prod.splits sum.splits dest!: em_begin_cases)
qed (simp_all add: em_release_look)

lemma em_inv_new [simp]: "em_inv em_new"
  by (simp add: em_inv_def em_new_def elevation_timeouts_new_def ids_below_def)

lemma em_inv_requester [simp]: "em_inv (set_requester_uid uid m) \<longleftrightarrow> em_inv m"
  by (simp add: em_inv_def set_requester_uid_def)

lemma em_begin_fresh:
  assumes "em_inv m" "Suc (unat (em_next_id m)) < 2 ^ 64"
  shows "hm_get (em_pending m) (em_next_id m + 1) = None"
proof -
  have "unat (em_next_id m + 1) = unat (em_next_id m) + 1" using assms(2) by (intro unat_Suc_word) simp
  moreover have "ids_below (hm_get (em_pending m)) (unat (em_next_id m))"
    using assms(1) by (simp add: em_inv_def)
  ultimately show ?thesis by (force simp: ids_below_def)
qed

lemma em_inv_begin:
  assumes inv: "em_inv m" and lim: "Suc (unat (em_next_id m)) < 2 ^ 64"
    and b: "em_begin sid cconn rconn policy apolicy now m = (m', r)"
  shows "em_inv m'"
proof -
  have succ: "unat (em_next_id m + 1) = Suc (unat (em_next_id m))"
    using lim unat_Suc_word [of "em_next_id m"] by simp
  let ?i = "em_next_id m + 1"
  from em_begin_cases [OF b] show ?thesis
  proof (elim disjE exE conjE)
    assume m': "m' = m\<lparr>em_next_id := ?i,
              em_pending := hm_insert ?i
                \<lparr>pe_session_id = sid, pe_compositor_conn = cconn, pe_requester_conn = rconn\<rparr> (em_pending m),
              em_timeouts := start_prompt (em_timeouts m) ?i now (ep_prompt_timeout policy)\<rparr>"
    have "ids_below (hm_get (em_pending m')) (unat ?i)"
      using inv succ by (auto simp: m' em_inv_def ids_below_def le_SucI)
    with inv show ?thesis by (simp add: m' em_inv_def start_prompt_def)
  qed (use inv in simp)
qed

lemma pending_of_begin:
  assumes "em_inv m" "Suc (unat (em_next_id m)) < 2 ^ 64"
    and "em_begin sid cconn rconn policy apolicy now m = (m', r)"
  shows "pending_of s m' \<le> max (pending_of s m) (if s = sid then ep_max_pending policy else 0)"
  using em_begin_cases [OF assms(3)] em_begin_fresh [OF assms(1,2)]
  by (auto simp: pending_of_def hm_count_insert_fresh)

subsection \<open>Closing prompts\<close>

lemma em_inv_closes:
  assumes "closes X m m'" "em_inv m"
  shows "em_inv m'"
proof -
  have "ids_below (hm_get (em_pending m')) (unat (em_next_id m'))"
    using assms unfolding closes_def em_inv_def ids_below_def by metis
  moreover have "hm_get (prompt_expiry (em_timeouts m')) i = None \<longleftrightarrow> hm_get (em_pending m') i = None" for i
    using assms unfolding closes_def em_inv_def by simp
  ultimately show ?thesis using assms unfolding closes_def em_inv_def by simp
qed

lemma closes_pending_of: "closes X m m' \<Longrightarrow> pending_of s m' \<le> pending_of s m"
  by (simp add: closes_def pending_of_def)

lemma closes_refl [simp]: "closes {} m m"
  by (simp add: closes_def)

lemma closes_trans: "closes X m m' \<Longrightarrow> closes Y m' m'' \<Longrightarrow> closes (X \<union> Y) m m''"
  unfolding closes_def by (auto intro: le_trans)

lemma closes_take: "closes {i} m (fst (take_abandoned i m))"
  by (simp add: closes_def take_abandoned_def cancel_prompt_def hm_count_remove_le)

lemma closes_cancel: "hm_get (em_pending m) i \<noteq> None \<Longrightarrow> closes {i} m (fst (em_cancel i m))"
  by (auto simp: closes_def em_cancel_def cancel_prompt_def hm_count_remove_le split: option.splits)

lemma take_abandoned_snd:
  "snd (take_abandoned i m) = map_option (abandoned_of i) (hm_get (em_pending m) i)"
  by (simp add: take_abandoned_def abandoned_of_def [abs_def])

lemma take_all_Cons:
  "fst (take_abandoned_all (i # ids) m) = fst (take_abandoned_all ids (fst (take_abandoned i m)))"
  "snd (take_abandoned_all (i # ids) m) =
     (case hm_get (em_pending m) i of None \<Rightarrow> [] | Some p \<Rightarrow> [abandoned_of i p])
     @ snd (take_abandoned_all ids (fst (take_abandoned i m)))"
  by (simp_all add: split_def take_abandoned_snd split: option.split)

declare take_abandoned_all.simps(2) [simp del]

lemma take_all_closes: "closes (set ids) m (fst (take_abandoned_all ids m))"
proof (induction ids arbitrary: m)
  case Nil
  then show ?case by simp
next
  case (Cons i ids)
  from closes_trans [OF closes_take Cons, of i m] show ?case by (simp add: take_all_Cons)
qed

lemma take_all_reports:
  "distinct ids \<Longrightarrow> snd (take_abandoned_all ids m) =
     map (\<lambda>i. abandoned_of i (the (hm_get (em_pending m) i)))
       (filter (\<lambda>i. hm_get (em_pending m) i \<noteq> None) ids)"
proof (induction ids arbitrary: m)
  case Nil
  then show ?case by simp
next
  case (Cons i ids)
  let ?m = "fst (take_abandoned i m)"
  have same: "hm_get (em_pending ?m) j = hm_get (em_pending m) j" if "j \<in> set ids" for j
    using that Cons.prems closes_take [of i m] by (auto simp: closes_def)
  have "filter (\<lambda>i. hm_get (em_pending ?m) i \<noteq> None) ids = filter (\<lambda>i. hm_get (em_pending m) i \<noteq> None) ids"
    by (intro filter_cong) (simp_all add: same)
  moreover have "map (\<lambda>i. abandoned_of i (the (hm_get (em_pending ?m) i)))
      (filter (\<lambda>i. hm_get (em_pending m) i \<noteq> None) ids) =
    map (\<lambda>i. abandoned_of i (the (hm_get (em_pending m) i))) (filter (\<lambda>i. hm_get (em_pending m) i \<noteq> None) ids)"
    by (intro map_cong) (simp_all add: same)
  ultimately show ?case
    using Cons by (auto simp: take_all_Cons split: option.splits)
qed

lemma take_all_set:
  "distinct ids \<Longrightarrow> set (snd (take_abandoned_all ids m)) =
     {abandoned_of i p | i p. i \<in> set ids \<and> hm_get (em_pending m) i = Some p}"
  by (force simp: take_all_reports)

lemma take_all_ids:
  "distinct ids \<Longrightarrow> distinct (map ab_request_id (snd (take_abandoned_all ids m)))"
  by (simp add: take_all_reports comp_def abandoned_of_def)

lemma abandon_where_closes:
  "hm_ok (em_pending m) \<Longrightarrow>
     closes {i. \<exists>p. hm_get (em_pending m) i = Some p \<and> P p} m (fst (abandon_where P m))"
proof -
  assume ok: "hm_ok (em_pending m)"
  have "{i. \<exists>p. hm_get (em_pending m) i = Some p \<and> P p} = set (map fst (filter (\<lambda>(_, p). P p) (em_pending m)))"
    by (force simp: hm_get_iff [OF ok])
  then show ?thesis unfolding abandon_where_def by (simp only: take_all_closes)
qed

lemma abandon_where_reports:
  assumes "hm_ok (em_pending m)"
  shows "set (snd (abandon_where P m)) =
      {abandoned_of i p | i p. hm_get (em_pending m) i = Some p \<and> P p}"
    and "distinct (map ab_request_id (snd (abandon_where P m)))"
proof -
  let ?ids = "map fst (filter (\<lambda>(_, p). P p) (em_pending m))"
  have dist: "distinct ?ids" using assms by (simp add: hm_ok_def hm_keys_def distinct_map_filter)
  have ids: "i \<in> set ?ids \<longleftrightarrow> (\<exists>p. hm_get (em_pending m) i = Some p \<and> P p)" for i
    by (force simp: hm_get_iff [OF assms])
  show "set (snd (abandon_where P m)) = {abandoned_of i p | i p. hm_get (em_pending m) i = Some p \<and> P p}"
    unfolding abandon_where_def take_all_set [OF dist] ids by force
  show "distinct (map ab_request_id (snd (abandon_where P m)))"
    unfolding abandon_where_def by (rule take_all_ids [OF dist])
qed

lemma expire_pending_eq:
  "expire_pending now m = take_abandoned_all (snd (drain_expired (prompt_expiry (em_timeouts m)) now))
     (m\<lparr>em_timeouts := (em_timeouts m)\<lparr>prompt_expiry := fst (drain_expired (prompt_expiry (em_timeouts m)) now)\<rparr>\<rparr>)"
  by (simp add: expire_pending_def expired_prompts_eq)

lemma expire_pending_closes:
  assumes "em_inv m"
  shows "closes {i. \<exists>t. hm_get (prompt_expiry (em_timeouts m)) i = Some t \<and> t \<le> now} m
    (fst (expire_pending now m))"
proof -
  let ?t = "prompt_expiry (em_timeouts m)"
  let ?m = "m\<lparr>em_timeouts := (em_timeouts m)\<lparr>prompt_expiry := fst (drain_expired ?t now)\<rparr>\<rparr>"
  have ok: "hm_ok ?t" using assms by (simp add: em_inv_def)
  have ids: "{i. \<exists>t. hm_get ?t i = Some t \<and> t \<le> now} = set (snd (drain_expired ?t now))"
    by (auto simp: drain_expired_reports [OF ok])
  from take_all_closes [of "snd (drain_expired ?t now)" ?m] show ?thesis
    unfolding ids expire_pending_eq
    by (simp add: closes_def drain_expired_get drain_expired_ok ok split: if_splits)
qed

lemma expire_pending_reports:
  assumes "em_inv m"
  shows "set (snd (expire_pending now m)) =
      {abandoned_of i p | i p. hm_get (em_pending m) i = Some p
         \<and> (\<exists>t. hm_get (prompt_expiry (em_timeouts m)) i = Some t \<and> t \<le> now)}"
    and "distinct (map ab_request_id (snd (expire_pending now m)))"
proof -
  let ?t = "prompt_expiry (em_timeouts m)"
  let ?ids = "snd (drain_expired ?t now)"
  have ok: "hm_ok ?t" using assms by (simp add: em_inv_def)
  have dist: "distinct ?ids" by (rule drain_expired_distinct [OF ok])
  show "set (snd (expire_pending now m)) =
      {abandoned_of i p | i p. hm_get (em_pending m) i = Some p \<and> (\<exists>t. hm_get ?t i = Some t \<and> t \<le> now)}"
    unfolding expire_pending_eq take_all_set [OF dist] drain_expired_reports [OF ok] by force
  show "distinct (map ab_request_id (snd (expire_pending now m)))"
    unfolding expire_pending_eq by (rule take_all_ids [OF dist])
qed

subsection \<open>Answering a prompt\<close>

lemma em_attempt_None: "hm_get (em_pending m) i = None \<Longrightarrow> em_attempt i a r p now m = (m, None)"
  by (simp add: em_attempt_def)

lemma em_attempt_outcome:
  assumes "hm_get (em_pending m) i = Some pe"
  shows "snd (em_attempt i a r p now m) =
    (let out = fst (check a r p (elev_attempts m (pe_session_id pe)))
     in Some \<lparr>eo_session_id = pe_session_id pe, eo_compositor_conn = pe_compositor_conn pe,
              eo_requester_conn = pe_requester_conn pe, eo_outcome = out, eo_terminal = (\<not> is_AuthFailure out)\<rparr>)"
  using assms by (auto simp: em_attempt_def elev_attempts_def Let_def split: prod.splits auth_outcome.splits)

lemma em_attempt_state:
  assumes pend: "hm_get (em_pending m) i = Some pe" and sid: "sid = pe_session_id pe"
    and ch: "check a r p (elev_attempts m sid) = (out, n)"
    and m': "m' = fst (em_attempt i a r p now m)"
  shows "elev_attempts m' s = (if s = sid then n else elev_attempts m s)"
    and "elev_locked_out m' s \<longleftrightarrow> elev_locked_out m s \<or> (s = sid \<and> is_AuthLockedOut out)"
    and "em_pending m' = (if is_AuthFailure out then em_pending m else hm_remove i (em_pending m))"
    and "prompt_expiry (em_timeouts m') =
       (if is_AuthFailure out then prompt_expiry (em_timeouts m) else hm_remove i (prompt_expiry (em_timeouts m)))"
    and "elev_lockout_expiry (em_timeouts m') =
       (if is_AuthLockedOut out then hm_insert sid (now + ap_lockout p) (elev_lockout_expiry (em_timeouts m))
        else elev_lockout_expiry (em_timeouts m))"
    and "em_next_id m' = em_next_id m" "em_requester_uid m' = em_requester_uid m"
    and "hm_ok (em_session_auth m) \<Longrightarrow> hm_ok (em_session_auth m')"
    and "s \<noteq> sid \<Longrightarrow> hm_get (em_session_auth m') s = hm_get (em_session_auth m) s"
proof -
  have out: "out = AuthSuccess \<longrightarrow> n = 0" using ch by (auto simp: check_def Let_def split: sum.splits if_splits)
  note defs = em_attempt_def pend sid [symmetric] ch [unfolded elev_attempts_def] Let_def elev_attempts_def
    elev_locked_out_def elev_start_lockout_def cancel_prompt_def
  show "elev_attempts m' s = (if s = sid then n else elev_attempts m s)"
    using out by (auto simp: m' defs split: auth_outcome.splits)
  show "elev_locked_out m' s \<longleftrightarrow> elev_locked_out m s \<or> (s = sid \<and> is_AuthLockedOut out)"
    by (auto simp: m' defs split: auth_outcome.splits option.splits)
  show "em_pending m' = (if is_AuthFailure out then em_pending m else hm_remove i (em_pending m))"
    by (auto simp: m' defs split: auth_outcome.splits)
  show "prompt_expiry (em_timeouts m') =
       (if is_AuthFailure out then prompt_expiry (em_timeouts m) else hm_remove i (prompt_expiry (em_timeouts m)))"
    by (auto simp: m' defs split: auth_outcome.splits)
  show "elev_lockout_expiry (em_timeouts m') =
       (if is_AuthLockedOut out then hm_insert sid (now + ap_lockout p) (elev_lockout_expiry (em_timeouts m))
        else elev_lockout_expiry (em_timeouts m))"
    by (auto simp: m' defs split: auth_outcome.splits)
  show "em_next_id m' = em_next_id m" "em_requester_uid m' = em_requester_uid m"
    by (auto simp: m' defs split: auth_outcome.splits)
  show "hm_ok (em_session_auth m) \<Longrightarrow> hm_ok (em_session_auth m')"
    by (auto simp: m' defs split: auth_outcome.splits)
  show "s \<noteq> sid \<Longrightarrow> hm_get (em_session_auth m') s = hm_get (em_session_auth m) s"
    by (auto simp: m' defs split: auth_outcome.splits)
qed

lemma elev_locked_out_iff:
  "elev_locked_out m sid \<longleftrightarrow> (\<exists>a. hm_get (em_session_auth m) sid = Some a \<and> ea_locked_out a)"
  by (auto simp: elev_locked_out_def hm_entry_def session_elevation_auth_default_def split: option.splits)

lemma em_inv_alt:
  "em_inv m \<longleftrightarrow> hm_ok (em_pending m) \<and> hm_ok (em_session_auth m)
     \<and> hm_ok (prompt_expiry (em_timeouts m)) \<and> hm_ok (elev_lockout_expiry (em_timeouts m))
     \<and> ids_below (hm_get (em_pending m)) (unat (em_next_id m))
     \<and> (\<forall>i. hm_get (prompt_expiry (em_timeouts m)) i = None \<longleftrightarrow> hm_get (em_pending m) i = None)
     \<and> (\<forall>sid. elev_locked_out m sid \<longrightarrow> hm_get (elev_lockout_expiry (em_timeouts m)) sid \<noteq> None)"
  unfolding em_inv_def elev_locked_out_iff by blast

lemma em_inv_attempt:
  assumes inv: "em_inv m"
  shows "em_inv (fst (em_attempt i a r p now m))"
proof (cases "hm_get (em_pending m) i")
  case None
  with inv show ?thesis by (simp add: em_attempt_None)
next
  case (Some pe)
  obtain out n where ch: "check a r p (elev_attempts m (pe_session_id pe)) = (out, n)" by fastforce
  define m' where "m' = fst (em_attempt i a r p now m)"
  note st = em_attempt_state [OF Some refl ch m'_def]
  have "ids_below (hm_get (em_pending m')) (unat (em_next_id m'))"
    using inv by (auto simp: st(3,6) em_inv_def ids_below_def)
  moreover have "hm_get (prompt_expiry (em_timeouts m')) j = None \<longleftrightarrow> hm_get (em_pending m') j = None" for j
    using inv by (simp add: st(3,4) em_inv_def)
  moreover have "hm_get (elev_lockout_expiry (em_timeouts m')) s \<noteq> None" if "elev_locked_out m' s" for s
    using inv that unfolding st(2,5) em_inv_alt by auto
  ultimately show ?thesis
    using inv st(8) unfolding m'_def [symmetric] em_inv_alt by (simp add: st(3-5))
qed

lemma pending_of_attempt: "pending_of s (fst (em_attempt i a r p now m)) \<le> pending_of s m"
proof (cases "hm_get (em_pending m) i")
  case None
  then show ?thesis by (simp add: em_attempt_None)
next
  case (Some pe)
  obtain out n where ch: "check a r p (elev_attempts m (pe_session_id pe)) = (out, n)" by fastforce
  from em_attempt_state(3) [OF Some refl ch refl, of now] show ?thesis
    by (simp add: pending_of_def hm_count_remove_le)
qed

lemma em_inv_cancel: "em_inv m \<Longrightarrow> em_inv (fst (em_cancel i m))"
  by (cases "hm_get (em_pending m) i")
    (simp add: em_cancel_def, metis closes_cancel em_inv_closes option.distinct(1))

lemma clear_elev_lockouts_frame [simp]:
  "em_pending (clear_elev_lockouts sids m) = em_pending m"
  "em_timeouts (clear_elev_lockouts sids m) = em_timeouts m"
  "em_next_id (clear_elev_lockouts sids m) = em_next_id m"
  "em_requester_uid (clear_elev_lockouts sids m) = em_requester_uid m"
  "hm_ok (em_session_auth (clear_elev_lockouts sids m)) = hm_ok (em_session_auth m)"
  by (induction sids arbitrary: m) simp_all

lemma clear_elev_lockouts_get:
  "hm_get (em_session_auth (clear_elev_lockouts sids m)) s =
     (if s \<in> set sids then map_option (\<lambda>a. a\<lparr>ea_locked_out := False, ea_attempts := 0\<rparr>) (hm_get (em_session_auth m) s)
      else hm_get (em_session_auth m) s)"
  by (induction sids arbitrary: m) (auto simp: option.map_comp comp_def)

lemma clear_expired_lockouts_out:
  assumes "hm_ok (elev_lockout_expiry (em_timeouts m))"
  shows "elev_locked_out (clear_expired_lockouts now m) s \<longleftrightarrow>
    elev_locked_out m s \<and> \<not> (\<exists>t. hm_get (elev_lockout_expiry (em_timeouts m)) s = Some t \<and> t \<le> now)"
  using drain_expired_reports [OF assms, of s now]
  by (auto simp: elev_locked_out_iff clear_expired_lockouts_def elev_expired_lockouts_eq clear_elev_lockouts_get)

lemma em_inv_clear_expired:
  assumes inv: "em_inv m"
  shows "em_inv (clear_expired_lockouts now m)"
proof -
  let ?t = "elev_lockout_expiry (em_timeouts m)"
  have ok: "hm_ok ?t" using inv by (simp add: em_inv_def)
  have frame: "em_pending (clear_expired_lockouts now m) = em_pending m"
    "em_next_id (clear_expired_lockouts now m) = em_next_id m"
    "hm_ok (em_session_auth (clear_expired_lockouts now m)) = hm_ok (em_session_auth m)"
    "em_timeouts (clear_expired_lockouts now m) = (em_timeouts m)\<lparr>elev_lockout_expiry := fst (drain_expired ?t now)\<rparr>"
    by (simp_all add: clear_expired_lockouts_def elev_expired_lockouts_eq)
  have "hm_get (fst (drain_expired ?t now)) s \<noteq> None"
    if "elev_locked_out (clear_expired_lockouts now m) s" for s
    using that inv drain_expired_reports [OF ok, of s now]
    unfolding clear_expired_lockouts_out [OF ok] em_inv_alt by (auto simp: drain_expired_get)
  then show ?thesis
    using inv unfolding em_inv_alt by (simp add: frame drain_expired_ok)
qed

lemma em_inv_two_prompts: "em_inv two_prompts" "em_inv one_prompt"
proof -
  have 0: "Suc (unat (em_next_id em_new)) < 2 ^ 64" by (simp add: em_new_def)
  show 1: "em_inv one_prompt"
    using em_inv_begin [OF em_inv_new 0] unfolding one_prompt_def by (metis prod.collapse)
  have "Suc (unat (em_next_id one_prompt)) < 2 ^ 64" by code_simp
  from em_inv_begin [OF 1 this] show "em_inv two_prompts"
    unfolding two_prompts_def by (metis prod.collapse)
qed

lemma em_inv_lockout_with_prompt: "em_inv lockout_with_prompt"
  unfolding lockout_with_prompt_def by (simp add: em_inv_two_prompts em_inv_attempt)

subsection \<open>Properties\<close>

text \<open>
  C14. Opening prompts is bounded and ids are never reused. A prompt that is granted has a fresh id,
  the session had fewer open prompts than the limit and has one more afterwards, no other session's
  prompts change, and it carries the deadline \<open>now + prompt_timeout\<close>; in every history shorter than
  $2^{64}$ operations the ids handed out are pairwise distinct.
\<close>

theorem prompt_opening_bounded:
  assumes "em_inv m" "Suc (unat (em_next_id m)) < 2 ^ 64" "length ops < 2 ^ 64"
    and "em_begin sid cconn rconn policy apolicy now m = (m', Inr i)"
  shows "hm_get (em_pending m) i = None \<and> em_inv m'
    \<and> pending_of sid m' = Suc (pending_of sid m) \<and> pending_of sid m' \<le> ep_max_pending policy
    \<and> (\<forall>s. s \<noteq> sid \<longrightarrow> pending_of s m' = pending_of s m)
    \<and> hm_get (prompt_expiry (em_timeouts m')) i = Some (now + ep_prompt_timeout policy)
    \<and> distinct (issued_ids em_alloc em_release ops em_new)"
proof -
  have "unat (em_next_id em_new) + length ops < 2 ^ 64" using assms(3) by (simp add: em_new_def)
  then have "distinct (issued_ids em_alloc em_release ops em_new)" by (intro prompt_ids.issued_distinct) simp
  moreover have "em_inv m'" by (rule em_inv_begin [OF assms(1,2,4)])
  ultimately show ?thesis
    using em_begin_cases [OF assms(4)] em_begin_fresh [OF assms(1,2)]
    by (auto simp: pending_of_def hm_count_insert_fresh start_prompt_def)
qed

theorem prompt_opening_bounded_witness: "pending_of 1 two_prompts = Suc (pending_of 1 one_prompt)"
proof -
  have 2: "Suc (unat (em_next_id one_prompt)) < 2 ^ 64" by code_simp
  have 3: "length ([] :: (begin_args, request_id) id_op list) < 2 ^ 64" by simp
  have 4: "em_begin 1 2 3 sample_elevation_policy sample_auth_policy 0 one_prompt = (two_prompts, Inr 2)" by code_simp
  from prompt_opening_bounded [OF em_inv_two_prompts(2) 2 3 4] show ?thesis by - (elim conjE)
qed

text \<open>
  The timeout sweep closes exactly the prompts whose deadline has passed, reports each of them
  once with both of its connections, and leaves every other prompt and all lockout state alone.
\<close>

lemma expiry_closes_exactly_overdue:
  assumes "em_inv m"
  shows "em_inv (fst (expire_pending now m))
    \<and> (\<forall>i. hm_get (em_pending (fst (expire_pending now m))) i =
          (if \<exists>t. hm_get (prompt_expiry (em_timeouts m)) i = Some t \<and> t \<le> now then None
           else hm_get (em_pending m) i))
    \<and> set (snd (expire_pending now m)) =
        {abandoned_of i p | i p. hm_get (em_pending m) i = Some p
           \<and> (\<exists>t. hm_get (prompt_expiry (em_timeouts m)) i = Some t \<and> t \<le> now)}
    \<and> distinct (map ab_request_id (snd (expire_pending now m)))
    \<and> em_session_auth (fst (expire_pending now m)) = em_session_auth m"
proof -
  note cl = expire_pending_closes [OF assms, of now]
  have "em_inv (fst (expire_pending now m))" by (rule em_inv_closes [OF cl assms])
  with cl expire_pending_reports [OF assms, of now] show ?thesis unfolding closes_def by auto
qed

text \<open>
  Accounting of answers. A password answer to an open prompt is checked and counted for the
  prompt's session only; the prompt stays open exactly when the outcome is a plain failure with
  attempts left; a cancel closes the prompt and touches no counter and no lockout; an answer to an
  unknown prompt changes nothing.
\<close>

lemma elevation_answer_accounting:
  assumes "hm_get (em_pending m) i = Some pe" "check a r p (elev_attempts m (pe_session_id pe)) = (out, n)"
    and "hm_get (em_pending m) j = None"
  shows "(\<forall>s. elev_attempts (fst (em_attempt i a r p now m)) s = (if s = pe_session_id pe then n else elev_attempts m s))
    \<and> (hm_get (em_pending (fst (em_attempt i a r p now m))) i = (if is_AuthFailure out then Some pe else None))
    \<and> (\<forall>k. k \<noteq> i \<longrightarrow> hm_get (em_pending (fst (em_attempt i a r p now m))) k = hm_get (em_pending m) k)
    \<and> em_session_auth (fst (em_cancel i m)) = em_session_auth m
    \<and> hm_get (em_pending (fst (em_cancel i m))) i = None
    \<and> em_attempt j a r p now m = (m, None) \<and> em_cancel j m = (m, None)"
proof -
  note st = em_attempt_state [where now = now, OF assms(1) refl assms(2) refl]
  have "closes {i} m (fst (em_cancel i m))" using assms(1) by (intro closes_cancel) simp
  then show ?thesis
    using assms st(1,3) by (auto simp: closes_def em_attempt_None em_cancel_def)
qed

text \<open>
  An elevation lockout always ends: a locked-out session has a deadline, the sweep keeps the
  lockout before that deadline and lifts it, with a fresh attempt count, at the deadline or later.
\<close>

lemma elevation_lockout_ends:
  assumes "em_inv m" "elev_locked_out m sid"
  shows "\<exists>t. hm_get (elev_lockout_expiry (em_timeouts m)) sid = Some t
    \<and> (\<forall>now. elev_locked_out (clear_expired_lockouts now m) sid \<longleftrightarrow> now < t)
    \<and> (\<forall>now. t \<le> now \<longrightarrow> elev_attempts (clear_expired_lockouts now m) sid = 0)"
proof -
  have ok: "hm_ok (elev_lockout_expiry (em_timeouts m))" using assms(1) by (simp add: em_inv_def)
  from assms obtain t where t: "hm_get (elev_lockout_expiry (em_timeouts m)) sid = Some t"
    by (auto simp: em_inv_alt)
  have "elev_attempts (clear_expired_lockouts now m) sid = 0" if "t \<le> now" for now
  proof -
    have "sid \<in> set (snd (drain_expired (elev_lockout_expiry (em_timeouts m)) now))"
      using t that by (simp add: drain_expired_reports [OF ok])
    then show ?thesis
      using assms(2) unfolding elev_locked_out_iff
      by (auto simp: elev_attempts_def hm_entry_def clear_expired_lockouts_def elev_expired_lockouts_eq
          clear_elev_lockouts_get)
  qed
  moreover have "elev_locked_out (clear_expired_lockouts now m) sid \<longleftrightarrow> now < t" for now
    using assms(2) t by (auto simp: clear_expired_lockouts_out [OF ok])
  ultimately show ?thesis using t by blast
qed

text \<open>
  C40. A lockout stops new prompts, but not the ones already open: while a session is locked out,
  \<open>begin\<close> refuses, and yet a password for another open prompt of the same session is checked as
  before and can succeed.
\<close>

theorem lockout_spares_open_prompts:
  assumes "elev_locked_out m sid" "hm_get (em_pending m) i = Some pe" "pe_session_id pe = sid" "a r = Inr ()"
  shows "em_begin sid cconn rconn policy p now m = (m, Inl (LockedOutError (as_secs (ap_lockout p))))
    \<and> (\<exists>res. snd (em_attempt i a r p now m) = Some res \<and> eo_outcome res = AuthSuccess)"
  using em_begin_locked_out [OF assms(1)] em_attempt_outcome [OF assms(2), of a r p now] assms(4)
  by (simp add: Let_def)

theorem lockout_spares_open_prompts_witness:
  "\<exists>res. snd (em_attempt 2 (password_auth ''alice'' ''d'') (guess 1 ''d'') sample_auth_policy 0 lockout_with_prompt) = Some res
     \<and> eo_outcome res = AuthSuccess"
proof -
  let ?pe = "\<lparr>pe_session_id = 1, pe_compositor_conn = 2, pe_requester_conn = 3\<rparr>"
  have 1: "elev_locked_out lockout_with_prompt 1" by code_simp
  have 2: "hm_get (em_pending lockout_with_prompt) 2 = Some ?pe" by code_simp
  have 3: "pe_session_id ?pe = 1" by simp
  have 4: "password_auth ''alice'' ''d'' (guess 1 ''d'') = Inr ()" by code_simp
  show ?thesis by (rule conjunct2 [OF lockout_spares_open_prompts [where a = "password_auth ''alice'' ''d''", OF 1 2 3 4]])
qed

end
