(* ===== verification/Ipc.thy ===== *)
theory Ipc
  imports Elevation
begin

section \<open>Messages and the connection registry\<close>

text \<open>
  The vocabulary of the socket (\<open>src/ipc/messages.rs\<close>), the identity of a peer
  (\<open>src/ipc/permissions.rs\<close>) and the registry that routes replies and events to connections
  (\<open>ConnRegistry\<close> in \<open>src/ipc/server.rs\<close>). An outbox, the sending half of an \<open>mpsc\<close> channel, is
  the list of messages sent into it so far, oldest first.
\<close>

subsection \<open>Messages\<close>

record session_info =
  si_id :: session_id
  si_uid :: u32
  si_user_name :: string
  si_seat_id :: string
  si_session_type :: session_type
  si_state :: string
  si_locked :: bool
  si_created_at :: nat

record inhibitor_info =
  ii_id :: u64
  ii_what :: inhibit_what
  ii_who :: string
  ii_why :: string
  ii_mode :: inhibit_mode

datatype request =
    CreateSession string "string option" "string option"
  | TerminateSession session_id
  | RegisterCompositor session_id
  | ListSessions
  | SessionStatus session_id
  | LockSession session_id
  | Unlock session_id string string
  | ReportActivity string
  | SwitchSession string session_id
  | Inhibit inhibit_what string string inhibit_mode
  | ReleaseInhibit u64
  | ListInhibitors
  | Suspend
  | Reboot
  | PowerOff
  | RequestElevation session_id elevation_action
  | RespondElevation request_id elevation_response

datatype response =
    ROk
  | RSessions "session_info list"
  | RSession session_info
  | RAuthResult auth_outcome
  | RInhibitGranted u64
  | RInhibitors "inhibitor_info list"
  | RError string

datatype event =
    ShowLockScreen session_id lock_reason
  | HideLockScreen session_id
  | AuthFeedback session_id auth_outcome
  | Dim string
  | Undim string
  | PrepareForSleep
  | ResumedFromSleep
  | SessionActivated string session_id
  | ShowElevationPrompt request_id session_id elevation_action
  | ElevationFeedback request_id auth_outcome
  | HideElevationPrompt request_id

datatype message = ResponseMsg response | EventMsg event

subsection \<open>Peers\<close>

text \<open>The process id is signed in the source; it is only ever stored.\<close>

record peer_cred =
  peer_uid :: u32
  peer_gid :: u32
  peer_pid :: int

definition peer_credentials :: "string + peer_cred \<Rightarrow> peer_cred result" where
  "peer_credentials answer = map_err (\<lambda>e. ProtocolError (''SO_PEERCRED failed: '' @ e)) answer"

definition peer_is_root :: "peer_cred \<Rightarrow> bool" where
  "peer_is_root c \<longleftrightarrow> peer_uid c = 0"

subsection \<open>What the connection threads hand to the daemon\<close>

datatype manager_message =
    Connected conn_id peer_cred
  | Command conn_id peer_cred request
  | Disconnected conn_id

subsection \<open>The registry of connections\<close>

record conn_registry =
  outboxes :: "(conn_id, message list) hash_map"

definition registry_new :: conn_registry where
  "registry_new = \<lparr>outboxes = []\<rparr>"

definition register :: "conn_id \<Rightarrow> conn_registry \<Rightarrow> conn_registry" where
  "register c reg = reg\<lparr>outboxes := hm_insert c [] (outboxes reg)\<rparr>"

definition unregister :: "conn_id \<Rightarrow> conn_registry \<Rightarrow> conn_registry" where
  "unregister c reg = reg\<lparr>outboxes := hm_remove c (outboxes reg)\<rparr>"

definition send_response :: "conn_id \<Rightarrow> response \<Rightarrow> conn_registry \<Rightarrow> conn_registry" where
  "send_response c r reg = reg\<lparr>outboxes := hm_modify c (\<lambda>q. q @ [ResponseMsg r]) (outboxes reg)\<rparr>"

definition send_event :: "conn_id \<Rightarrow> event \<Rightarrow> conn_registry \<Rightarrow> conn_registry" where
  "send_event c e reg = reg\<lparr>outboxes := hm_modify c (\<lambda>q. q @ [EventMsg e]) (outboxes reg)\<rparr>"

text \<open>The messages sent to a connection since it was registered.\<close>

definition sent_to :: "conn_registry \<Rightarrow> conn_id \<Rightarrow> message list" where
  "sent_to reg c = (case hm_get (outboxes reg) c of None \<Rightarrow> [] | Some q \<Rightarrow> q)"

definition registered :: "conn_registry \<Rightarrow> conn_id \<Rightarrow> bool" where
  "registered reg c \<longleftrightarrow> hm_get (outboxes reg) c \<noteq> None"

subsection \<open>Lemmas\<close>

lemma registered_send [simp]:
  "registered (send_response c r reg) c' = registered reg c'"
  "registered (send_event c e reg) c' = registered reg c'"
  by (simp_all add: registered_def send_response_def send_event_def)

lemma registered_register [simp]: "registered (register c reg) c' \<longleftrightarrow> c' = c \<or> registered reg c'"
  by (simp add: registered_def register_def)

lemma registered_unregister [simp]: "registered (unregister c reg) c' \<longleftrightarrow> c' \<noteq> c \<and> registered reg c'"
  by (simp add: registered_def unregister_def)

lemma sent_to_response:
  "sent_to (send_response c r reg) c' =
     sent_to reg c' @ (if c' = c \<and> registered reg c then [ResponseMsg r] else [])"
  by (auto simp: sent_to_def send_response_def registered_def split: option.splits)

lemma sent_to_event:
  "sent_to (send_event c e reg) c' =
     sent_to reg c' @ (if c' = c \<and> registered reg c then [EventMsg e] else [])"
  by (auto simp: sent_to_def send_event_def registered_def split: option.splits)

lemma hm_ok_registry [simp]:
  "hm_ok (outboxes (send_response c r reg)) = hm_ok (outboxes reg)"
  "hm_ok (outboxes (send_event c e reg)) = hm_ok (outboxes reg)"
  by (simp_all add: send_response_def send_event_def)

end
