(* ===== verification/Idle.thy ===== *)
theory Idle
  imports Config
begin

section \<open>Idle detection\<close>

text \<open>
  \<open>src/idle/\<close>: last activity per seat (\<open>tracker.rs\<close>), the thresholds and the stage a period of
  inactivity falls into (\<open>policy.rs\<close>), and the detector that reports stage changes once a second
  (\<open>detector.rs\<close>). The stages carry the derived order \<open>Active < Dimmed < LockRequested <
  SuspendRequested\<close>, an instance of \<open>linorder\<close> here.
\<close>

subsection \<open>Tracker\<close>

record idle_tracker =
  last_activity :: "(string, instant) hash_map"

definition tracker_record_activity :: "string \<Rightarrow> instant \<Rightarrow> idle_tracker \<Rightarrow> idle_tracker" where
  "tracker_record_activity seat_id now t = t\<lparr>last_activity := hm_insert seat_id now (last_activity t)\<rparr>"

definition idle_for :: "idle_tracker \<Rightarrow> string \<Rightarrow> instant \<Rightarrow> duration" where
  "idle_for t seat_id now =
     (case hm_get (last_activity t) seat_id of None \<Rightarrow> 0 | Some t0 \<Rightarrow> now - t0)"

definition tracker_seats :: "idle_tracker \<Rightarrow> string list" where
  "tracker_seats t = hm_keys (last_activity t)"

subsection \<open>Policy\<close>

record idle_policy =
  dim_after :: duration
  lock_after :: duration
  suspend_after :: duration

definition idle_policy_from :: "idle_settings \<Rightarrow> idle_policy" where
  "idle_policy_from s =
     \<lparr>dim_after = from_secs (dim_after_secs s), lock_after = from_secs (lock_after_secs s),
      suspend_after = from_secs (suspend_after_secs s)\<rparr>"

datatype idle_stage = StageActive | StageDimmed | LockRequested | SuspendRequested

primrec stage_ordinal :: "idle_stage \<Rightarrow> nat" where
  "stage_ordinal StageActive = 0"
| "stage_ordinal StageDimmed = 1"
| "stage_ordinal LockRequested = 2"
| "stage_ordinal SuspendRequested = 3"

instantiation idle_stage :: linorder
begin

definition less_eq_idle_stage :: "idle_stage \<Rightarrow> idle_stage \<Rightarrow> bool" where
  "less_eq_idle_stage a b \<longleftrightarrow> stage_ordinal a \<le> stage_ordinal b"

definition less_idle_stage :: "idle_stage \<Rightarrow> idle_stage \<Rightarrow> bool" where
  "less_idle_stage a b \<longleftrightarrow> stage_ordinal a < stage_ordinal b"

instance
proof
  fix a b :: idle_stage
  show "a \<le> b \<Longrightarrow> b \<le> a \<Longrightarrow> a = b"
    by (cases a; cases b) (simp_all add: less_eq_idle_stage_def)
qed (auto simp: less_eq_idle_stage_def less_idle_stage_def)

end

definition reaches :: "duration \<Rightarrow> duration \<Rightarrow> bool" where
  "reaches idle threshold \<longleftrightarrow> threshold > 0 \<and> idle \<ge> threshold"

definition stage_for :: "idle_policy \<Rightarrow> duration \<Rightarrow> idle_stage" where
  "stage_for p idle =
     (if reaches idle (suspend_after p) then SuspendRequested
      else if reaches idle (lock_after p) then LockRequested
      else if reaches idle (dim_after p) then StageDimmed
      else StageActive)"

subsection \<open>Detector\<close>

record idle_detector =
  det_tracker :: idle_tracker
  det_stage :: "(string, idle_stage) hash_map"

definition detector_new :: idle_detector where
  "detector_new = \<lparr>det_tracker = \<lparr>last_activity = []\<rparr>, det_stage = []\<rparr>"

definition record_activity :: "string \<Rightarrow> instant \<Rightarrow> idle_detector \<Rightarrow> idle_detector" where
  "record_activity seat_id now d =
     d\<lparr>det_tracker := tracker_record_activity seat_id now (det_tracker d),
       det_stage := hm_insert seat_id StageActive (det_stage d)\<rparr>"

fun tick_seats ::
  "string list \<Rightarrow> instant \<Rightarrow> idle_policy \<Rightarrow> idle_detector \<Rightarrow> idle_detector \<times> (string \<times> idle_stage) list"
where
  "tick_seats [] now p d = (d, [])"
| "tick_seats (seat_id # ids) now p d =
     (let new_stage = stage_for p (idle_for (det_tracker d) seat_id now);
          entry = hm_entry seat_id StageActive (det_stage d);
          d' = d\<lparr>det_stage := hm_insert seat_id new_stage (det_stage d)\<rparr>
      in (case tick_seats ids now p d' of
            (d'', changes) \<Rightarrow>
              (d'', if entry \<noteq> new_stage then (seat_id, new_stage) # changes else changes)))"

definition tick :: "instant \<Rightarrow> idle_policy \<Rightarrow> idle_detector \<Rightarrow> idle_detector \<times> (string \<times> idle_stage) list"
where
  "tick now p d = tick_seats (tracker_seats (det_tracker d)) now p d"

definition stage_of :: "idle_detector \<Rightarrow> string \<Rightarrow> idle_stage" where
  "stage_of d seat_id = (case hm_get (det_stage d) seat_id of None \<Rightarrow> StageActive | Some s \<Rightarrow> s)"

definition detector_ok :: "idle_detector \<Rightarrow> bool" where
  "detector_ok d \<longleftrightarrow> hm_ok (last_activity (det_tracker d)) \<and> hm_ok (det_stage d)
     \<and> (\<forall>s. hm_get (last_activity (det_tracker d)) s = None \<longrightarrow> hm_get (det_stage d) s = None)"

definition sample_detector :: idle_detector where
  "sample_detector = record_activity ''seat1'' 0 (record_activity ''seat0'' (from_secs 10) detector_new)"

subsection \<open>Stages\<close>

lemma reaches_mono: "i \<le> j \<Longrightarrow> reaches i t \<Longrightarrow> reaches j t"
  by (simp add: reaches_def)

lemma stage_for_mono: "i \<le> j \<Longrightarrow> stage_for p i \<le> stage_for p j"
  using reaches_mono [of i j]
  by (auto simp: stage_for_def less_eq_idle_stage_def)

lemma stage_for_zero [simp]: "stage_for p 0 = StageActive"
  by (auto simp: stage_for_def reaches_def)

subsection \<open>A tick\<close>

lemma stage_of_entry: "hm_entry s StageActive (det_stage d) = stage_of d s"
  by (simp add: hm_entry_def stage_of_def)

lemma stage_of_set [simp]:
  "stage_of (d\<lparr>det_stage := hm_insert s st (det_stage d)\<rparr>) x = (if x = s then st else stage_of d x)"
  by (simp add: stage_of_def)

lemma tick_seats_tracker [simp]: "det_tracker (fst (tick_seats ids now p d)) = det_tracker d"
  by (induction ids arbitrary: d) (simp_all add: Let_def split_def)

lemma tick_seats_stage:
  "stage_of (fst (tick_seats ids now p d)) s =
     (if s \<in> set ids then stage_for p (idle_for (det_tracker d) s now) else stage_of d s)"
  by (induction ids arbitrary: d) (simp_all add: Let_def split_def)

lemma tick_seats_changes:
  "distinct ids \<Longrightarrow> snd (tick_seats ids now p d) =
     map (\<lambda>s. (s, stage_for p (idle_for (det_tracker d) s now)))
       (filter (\<lambda>s. stage_of d s \<noteq> stage_for p (idle_for (det_tracker d) s now)) ids)"
proof (induction ids arbitrary: d)
  case Nil
  then show ?case by simp
next
  case (Cons x ids)
  let ?st = "\<lambda>s. stage_for p (idle_for (det_tracker d) s now)"
  let ?d = "d\<lparr>det_stage := hm_insert x (?st x) (det_stage d)\<rparr>"
  have "filter (\<lambda>s. stage_of ?d s \<noteq> ?st s) ids = filter (\<lambda>s. stage_of d s \<noteq> ?st s) ids"
    using Cons.prems by (intro filter_cong) auto
  with Cons show ?case by (simp add: Let_def split_def stage_of_entry)
qed

lemma hm_ok_tick_seats: "hm_ok (det_stage d) \<Longrightarrow> hm_ok (det_stage (fst (tick_seats ids now p d)))"
  by (induction ids arbitrary: d) (simp_all add: Let_def split_def)

lemma tick_seats_untracked:
  "s \<notin> set ids \<Longrightarrow> hm_get (det_stage (fst (tick_seats ids now p d))) s = hm_get (det_stage d) s"
  by (induction ids arbitrary: d) (simp_all add: Let_def split_def)

lemma set_tracker_seats: "s \<in> set (tracker_seats t) \<longleftrightarrow> hm_get (last_activity t) s \<noteq> None"
  by (simp add: tracker_seats_def set_hm_keys)

lemma distinct_tracker_seats: "detector_ok d \<Longrightarrow> distinct (tracker_seats (det_tracker d))"
  by (simp add: detector_ok_def tracker_seats_def hm_ok_def)

lemma detector_ok_new [simp]: "detector_ok detector_new"
  by (simp add: detector_ok_def detector_new_def)

lemma detector_ok_record: "detector_ok d \<Longrightarrow> detector_ok (record_activity s now d)"
  by (auto simp: detector_ok_def record_activity_def tracker_record_activity_def)

lemma detector_ok_tick: "detector_ok d \<Longrightarrow> detector_ok (fst (tick now p d))"
  by (auto simp: detector_ok_def tick_def hm_ok_tick_seats tick_seats_untracked set_tracker_seats)

subsection \<open>Properties\<close>

text \<open>
  C33. Idle detection. A tick reports a seat, with its new stage, exactly when the stage the
  thresholds assign to its current inactivity differs from the stage last reported, and reports
  it once; afterwards every tracked seat has the assigned stage, and a second tick at the same
  instant reports nothing. Without activity the stage never moves back between ticks.
\<close>

theorem tick_reports_changes:
  assumes "detector_ok d" "now \<le> later"
  shows "set (snd (tick now p d)) =
      {(s, st). hm_get (last_activity (det_tracker d)) s \<noteq> None
         \<and> st = stage_for p (idle_for (det_tracker d) s now) \<and> st \<noteq> stage_of d s}
    \<and> distinct (map fst (snd (tick now p d)))
    \<and> snd (tick now p (fst (tick now p d))) = []
    \<and> (\<forall>(s, st) \<in> set (snd (tick later p (fst (tick now p d)))). stage_of (fst (tick now p d)) s < st)"
proof -
  let ?ids = "tracker_seats (det_tracker d)"
  note dist = distinct_tracker_seats [OF assms(1)]
  have later: "(s, st) \<in> set (snd (tick later p (fst (tick now p d)))) \<Longrightarrow>
      stage_of (fst (tick now p d)) s < st" for s st
    using dist stage_for_mono [of "idle_for (det_tracker d) s now" "idle_for (det_tracker d) s later" p] assms(2)
    by (auto simp: tick_def tick_seats_changes tick_seats_stage idle_for_def order_less_le split: option.splits)
  have "set (snd (tick now p d)) =
      {(s, st). hm_get (last_activity (det_tracker d)) s \<noteq> None
         \<and> st = stage_for p (idle_for (det_tracker d) s now) \<and> st \<noteq> stage_of d s}"
    using dist by (auto simp: tick_def tick_seats_changes set_tracker_seats)
  moreover have "distinct (map fst (snd (tick now p d)))"
    using dist by (simp add: tick_def tick_seats_changes comp_def)
  moreover have "snd (tick now p (fst (tick now p d))) = []"
    using dist by (simp add: tick_def tick_seats_changes tick_seats_stage filter_empty_conv)
  ultimately show ?thesis using later by blast
qed

theorem tick_reports_changes_witness:
  "snd (tick (from_secs 65) (idle_policy_from default_idle_settings)
     (fst (tick (from_secs 65) (idle_policy_from default_idle_settings) sample_detector))) = []
   \<and> snd (tick (from_secs 65) (idle_policy_from default_idle_settings) sample_detector) = [(''seat1'', StageDimmed)]"
proof -
  have 1: "detector_ok sample_detector"
    unfolding sample_detector_def by (intro detector_ok_record detector_ok_new)
  have 2: "from_secs 65 \<le> from_secs 66" by code_simp
  have 3: "snd (tick (from_secs 65) (idle_policy_from default_idle_settings) sample_detector)
    = [(''seat1'', StageDimmed)]" by code_simp
  from tick_reports_changes [OF 1 2, of "idle_policy_from default_idle_settings"] 3
  show ?thesis by - (elim conjE, intro conjI; assumption)
qed

text \<open>
  A threshold of zero disables its stage: with \<open>suspend_after_secs = 0\<close> no tick ever reports
  \<open>SuspendRequested\<close>, whatever the seats and the clock, and likewise for the other two stages; and
  activity puts a seat back to \<open>Active\<close>, where it stays until the first threshold has passed.
\<close>

lemma zero_threshold_disables:
  assumes "detector_ok d"
  shows "(suspend_after p = 0 \<longrightarrow> SuspendRequested \<notin> snd ` set (snd (tick now p d)))
    \<and> (lock_after p = 0 \<longrightarrow> LockRequested \<notin> snd ` set (snd (tick now p d)))
    \<and> (dim_after p = 0 \<longrightarrow> StageDimmed \<notin> snd ` set (snd (tick now p d)))
    \<and> stage_of (record_activity s t d) s = StageActive
    \<and> ((\<forall>th \<in> {dim_after p, lock_after p, suspend_after p}. th = 0 \<or> now - t < th) \<longrightarrow>
        s \<notin> fst ` set (snd (tick now p (record_activity s t d))))"
proof -
  have stage: "st = stage_for p (idle_for (det_tracker d) s now) \<and> st \<noteq> stage_of d s"
    if "(s, st) \<in> set (snd (tick now p d))" "detector_ok d" for s st d
    using that distinct_tracker_seats [OF that(2)] by (auto simp: tick_def tick_seats_changes)
  have "s \<notin> fst ` set (snd (tick now p (record_activity s t d)))"
    if "\<forall>th \<in> {dim_after p, lock_after p, suspend_after p}. th = 0 \<or> now - t < th"
    using that stage [OF _ detector_ok_record [OF assms], of s _ s t]
    by (force simp: stage_for_def reaches_def idle_for_def record_activity_def tracker_record_activity_def stage_of_def)
  with stage [OF _ assms] show ?thesis
    by (force simp: stage_for_def reaches_def record_activity_def stage_of_def split: if_splits)
qed

end
