(* ===== verification/Policy.thy ===== *)
theory Policy
  imports Ipc Idle
begin

section \<open>Authorization and runtime policies\<close>

text \<open>
  \<open>src/policy/\<close>: who may make which request (\<open>security_policy.rs\<close>), the policies built from
  configuration (\<open>security_policy.rs\<close>, \<open>session_policy.rs\<close>, \<open>lock_policy.rs\<close>). The account database
  is a parameter of \<open>authorize\<close>, which looks up the user a session is created for.
\<close>

subsection \<open>Policies built from configuration\<close>

definition policy_auth_policy :: "auth_settings \<Rightarrow> lock_settings \<Rightarrow> auth_policy" where
  "policy_auth_policy auth lock = auth_policy_new auth lock"

definition elevation_auth_policy :: "elevation_settings \<Rightarrow> auth_policy" where
  "elevation_auth_policy e =
     \<lparr>ap_pam_service = elev_pam_service e, ap_allow_empty_password = elev_allow_empty_password e,
      ap_max_attempts = elev_max_attempts e, ap_lockout = from_secs (elev_lockout_secs e)\<rparr>"

record session_policy =
  sp_max_sessions_per_user :: u32
  sp_default_session_type :: session_type

definition parse_session_type :: "string \<Rightarrow> session_type" where
  "parse_session_type s = (if s = ''x11'' then X11 else if s = ''tty'' then Tty else Wayland)"

definition session_policy_from :: "session_settings \<Rightarrow> session_policy" where
  "session_policy_from s =
     \<lparr>sp_max_sessions_per_user = max_sessions_per_user s,
      sp_default_session_type = parse_session_type (default_session_type s)\<rparr>"

record lock_chain_policy =
  lcp_lock :: lock_policy
  lcp_idle :: idle_policy

definition lock_chain_policy_new :: "lock_settings \<Rightarrow> idle_settings \<Rightarrow> lock_chain_policy" where
  "lock_chain_policy_new lock idle =
     \<lparr>lcp_lock = lock_policy_from lock, lcp_idle = idle_policy_from idle\<rparr>"

subsection \<open>Authorization\<close>

definition owns :: "peer_cred \<Rightarrow> session_manager \<Rightarrow> session_id \<Rightarrow> unit result" where
  "owns peer sessions sid =
     (case owner_uid sessions sid of
        Inr uid \<Rightarrow>
          if uid = peer_uid peer then Inr ()
          else Inl (PermissionDenied
                 (''uid '' @ show_word (peer_uid peer) @ '' does not own session '' @ show_word sid))
      | Inl e \<Rightarrow> Inl e)"

definition authorize ::
  "passwd_db \<Rightarrow> peer_cred \<Rightarrow> conn_id \<Rightarrow> request \<Rightarrow> session_manager \<Rightarrow> elevation_manager \<Rightarrow> unit result"
where
  "authorize db peer conn request sessions elevation =
     (if peer_uid peer = 0 then Inr ()
      else
        (case request of
           CreateSession name _ _ \<Rightarrow>
             (let self_uid = (case by_name db name of Inr u \<Rightarrow> Some (user_uid u) | Inl _ \<Rightarrow> None)
              in if self_uid = Some (peer_uid peer) then Inr ()
                 else Inl (PermissionDenied ''only root may start a session for another user''))
         | TerminateSession sid \<Rightarrow> owns peer sessions sid
         | RegisterCompositor sid \<Rightarrow> owns peer sessions sid
         | SessionStatus sid \<Rightarrow> owns peer sessions sid
         | LockSession sid \<Rightarrow> owns peer sessions sid
         | SwitchSession _ sid \<Rightarrow> owns peer sessions sid
         | Unlock sid _ _ \<Rightarrow> owns peer sessions sid
         | ListSessions \<Rightarrow> Inr ()
         | ReportActivity _ \<Rightarrow> Inr ()
         | Inhibit _ _ _ _ \<Rightarrow> Inr ()
         | ReleaseInhibit _ \<Rightarrow> Inr ()
         | ListInhibitors \<Rightarrow> Inr ()
         | Suspend \<Rightarrow> Inr ()
         | Reboot \<Rightarrow> Inr ()
         | PowerOff \<Rightarrow> Inr ()
         | RequestElevation _ _ \<Rightarrow>
             if is_authorized_requester elevation (peer_uid peer) then Inr ()
             else Inl (PermissionDenied
                    ''only the configured elevation service may open an elevation prompt'')
         | RespondElevation rid _ \<Rightarrow>
             (case compositor_conn_for elevation rid of
                Some expected \<Rightarrow>
                  if expected = conn then Inr () else Inl (UnknownElevationRequest rid)
              | None \<Rightarrow> Inl (UnknownElevationRequest rid))))"

subsection \<open>The policy stated declaratively\<close>

text \<open>
  The session a request acts on, the requests open to every local user, and what a peer may do:
  root everything; a user what concerns a session they own, a session of their own, or nobody's
  session; the elevation service opens prompts; the connection a prompt was shown on answers it.
\<close>

fun target_session :: "request \<Rightarrow> session_id option" where
  "target_session (TerminateSession sid) = Some sid"
| "target_session (RegisterCompositor sid) = Some sid"
| "target_session (SessionStatus sid) = Some sid"
| "target_session (LockSession sid) = Some sid"
| "target_session (SwitchSession _ sid) = Some sid"
| "target_session (Unlock sid _ _) = Some sid"
| "target_session _ = None"

definition open_to_all :: "request \<Rightarrow> bool" where
  "open_to_all r \<longleftrightarrow> r \<in> {ListSessions, ListInhibitors, Suspend, Reboot, PowerOff}
     \<or> (\<exists>s. r = ReportActivity s) \<or> (\<exists>w a b m. r = Inhibit w a b m) \<or> (\<exists>i. r = ReleaseInhibit i)"

definition permitted ::
  "passwd_db \<Rightarrow> peer_cred \<Rightarrow> conn_id \<Rightarrow> request \<Rightarrow> session_manager \<Rightarrow> elevation_manager \<Rightarrow> bool" where
  "permitted db peer conn r sessions elevation \<longleftrightarrow>
     peer_is_root peer
   \<or> (\<exists>sid ctx. target_session r = Some sid \<and> hm_get (sm_sessions sessions) sid = Some ctx
        \<and> sess_uid (ctx_session ctx) = peer_uid peer)
   \<or> (\<exists>name seat ty u. r = CreateSession name seat ty \<and> by_name db name = Inr u \<and> user_uid u = peer_uid peer)
   \<or> (\<exists>sid act. r = RequestElevation sid act) \<and> em_requester_uid elevation = Some (peer_uid peer)
   \<or> (\<exists>rid resp pe. r = RespondElevation rid resp \<and> hm_get (em_pending elevation) rid = Some pe
        \<and> pe_compositor_conn pe = conn)
   \<or> open_to_all r"

text \<open>What a refused request is answered with.\<close>

fun refusal :: "peer_cred \<Rightarrow> request \<Rightarrow> session_manager \<Rightarrow> session_error" where
  "refusal peer (CreateSession name seat ty) sessions =
     PermissionDenied ''only root may start a session for another user''"
| "refusal peer (RequestElevation sid act) sessions =
     PermissionDenied ''only the configured elevation service may open an elevation prompt''"
| "refusal peer (RespondElevation rid resp) sessions = UnknownElevationRequest rid"
| "refusal peer r sessions =
     (let sid = the (target_session r)
      in if hm_get (sm_sessions sessions) sid = None then UnknownSession sid
         else PermissionDenied (''uid '' @ show_word (peer_uid peer) @ '' does not own session '' @ show_word sid))"

subsection \<open>Lemmas\<close>

lemma owns_Inr:
  "owns peer sessions sid = Inr () \<longleftrightarrow>
     (\<exists>ctx. hm_get (sm_sessions sessions) sid = Some ctx \<and> sess_uid (ctx_session ctx) = peer_uid peer)"
  by (auto simp: owns_def owner_uid_def sm_get_def ok_or_def split: option.splits)

lemma authorize_iff_permitted:
  "authorize db peer conn r sessions elevation = Inr () \<longleftrightarrow> permitted db peer conn r sessions elevation"
proof (cases "peer_uid peer = 0")
  case True
  then show ?thesis by (simp add: authorize_def permitted_def peer_is_root_def)
next
  case False
  note defs = authorize_def permitted_def peer_is_root_def open_to_all_def False owns_Inr
    is_authorized_requester_def compositor_conn_for_def Let_def
  show ?thesis
  proof (cases r)
    case (RespondElevation rid resp)
    then show ?thesis using False by (cases "hm_get (em_pending elevation) rid") (auto simp: defs)
  next
    case (CreateSession name seat ty)
    then show ?thesis using False by (cases "by_name db name") (auto simp: defs)
  qed (use False in \<open>auto simp: defs\<close>)
qed

lemma root_authorized: "peer_uid peer = 0 \<Longrightarrow> authorize db peer conn r sessions elevation = Inr ()"
  by (simp add: authorize_def)

lemma owns_Inl:
  assumes "owns peer sessions sid = Inl e"
  shows "e = (if hm_get (sm_sessions sessions) sid = None then UnknownSession sid
     else PermissionDenied (''uid '' @ show_word (peer_uid peer) @ '' does not own session '' @ show_word sid))"
  using assms by (auto simp: owns_def owner_uid_def sm_get_def ok_or_def split: option.splits if_splits)

lemma authorize_refusal:
  assumes "authorize db peer conn r sessions elevation = Inl e"
  shows "e = refusal peer r sessions"
  using assms
  by (cases r) (auto simp: authorize_def Let_def dest: owns_Inl split: if_splits option.splits sum.splits)

subsection \<open>Properties\<close>

text \<open>
  C4. The authorization check decides exactly the declared policy: root may make every request;
  anyone else may act on a session only as its owner, create a session only for their own account,
  open a prompt only as the configured service, answer one only on the very connection it was
  shown on, and otherwise make only the requests open to every local user. Every refusal has its own
  error: an unknown session is reported as such, a session of someone else's with the peer's uid and
  the session, a session for another account and a prompt with their reasons, and an answer to a prompt
  as an unknown prompt, whether the prompt exists or not.
\<close>

theorem authorize_decides_policy:
  "authorize db peer conn r sessions elevation =
     (if permitted db peer conn r sessions elevation then Inr () else Inl (refusal peer r sessions))"
proof (cases "authorize db peer conn r sessions elevation")
  case (Inl e)
  with authorize_refusal [OF this] authorize_iff_permitted [of db peer conn r sessions elevation] show ?thesis by auto
qed (use authorize_iff_permitted [of db peer conn r sessions elevation] in auto)

end
