(* ===== verification/Launcher.thy ===== *)
theory Launcher
  imports Session
begin

section \<open>Launching programs\<close>

text \<open>
  \<open>src/launcher/\<close>: the one function that spawns a program as a user (\<open>application.rs\<close>), the
  compositor and the restart decision (\<open>compositor.rs\<close>), the fallback terminal (\<open>terminal.rs\<close>),
  and autostart command lines (\<open>desktop.rs\<close>). What \<open>Command::spawn\<close> is asked for is a
  \<open>spawn_call\<close>; the operating system answers it with a process id or an error.
\<close>

subsection \<open>Applications\<close>

record application =
  app_command :: string
  app_args :: "string list"
  app_restart_on_exit :: bool

definition application_new :: "string \<Rightarrow> application" where
  "application_new command = \<lparr>app_command = command, app_args = [], app_restart_on_exit = False\<rparr>"

definition app_arg :: "string \<Rightarrow> application \<Rightarrow> application" where
  "app_arg a app = app\<lparr>app_args := app_args app @ [a]\<rparr>"

definition app_set_restart :: "bool \<Rightarrow> application \<Rightarrow> application" where
  "app_set_restart b app = app\<lparr>app_restart_on_exit := b\<rparr>"

text \<open>
  What is handed to the kernel: the program and its arguments, an environment that replaces the
  daemon's own (\<open>env_clear\<close>), the working directory, the standard streams, and the calls the child makes
  before \<open>exec\<close>.
\<close>

datatype stdio = StdioNull | StdioInherit

record spawn_call =
  sc_program :: string
  sc_args :: "string list"
  sc_env :: environment
  sc_dir :: string
  sc_stdin :: stdio
  sc_stdout :: stdio
  sc_stderr :: stdio
  sc_pre_exec :: "cred_op list"

record launch_os =
  los_db :: passwd_db
  los_group_file :: "io_error + string"
  los_spawn :: "spawn_call \<Rightarrow> io_error + u32"

text \<open>Only \<open>Command::spawn\<close> itself is an effect; a failure before it makes no call.\<close>

definition app_spawn :: "launch_os \<Rightarrow> application \<Rightarrow> user \<Rightarrow> environment \<Rightarrow> spawn_call list \<times> u32 result"
where
  "app_spawn os app u env =
     (case supplementary_gids (los_db os) (los_group_file os) (user_name u) of
        Inl e \<Rightarrow> ([], Inl e)
      | Inr gids \<Rightarrow>
          (let call = \<lparr>sc_program = app_command app, sc_args = app_args app, sc_env = env,
                       sc_dir = user_home u,
                       sc_stdin = StdioNull, sc_stdout = StdioInherit, sc_stderr = StdioInherit,
                       sc_pre_exec = [Setgroups gids, Setgid (user_gid u), Setuid (user_uid u)]\<rparr>
           in ([call], map_err IoError (los_spawn os call))))"

subsection \<open>Compositor, terminal, autostart\<close>

definition spawn_compositor ::
  "launch_os \<Rightarrow> user \<Rightarrow> environment \<Rightarrow> string \<Rightarrow> spawn_call list \<times> u32 result" where
  "spawn_compositor os u env binary = app_spawn os (app_set_restart True (application_new binary)) u env"

datatype restart_decision = Restart | FallbackToTerminal

definition decide_restart :: "u32 \<Rightarrow> u32 \<Rightarrow> restart_decision" where
  "decide_restart restarts_so_far max_restarts =
     (if restarts_so_far < max_restarts then Restart else FallbackToTerminal)"

definition spawn_fallback_terminal ::
  "launch_os \<Rightarrow> user \<Rightarrow> environment \<Rightarrow> spawn_call list \<times> u32 result" where
  "spawn_fallback_terminal os u env = app_spawn os (application_new (user_shell u)) u env"

text \<open>\<open>str::split_whitespace\<close>: the maximal runs of other characters.\<close>

fun ws_words :: "string \<Rightarrow> string \<Rightarrow> string list" where
  "ws_words acc [] = (if acc = [] then [] else [acc])"
| "ws_words acc (c # cs) =
     (if is_ws c then (if acc = [] then ws_words [] cs else acc # ws_words [] cs)
      else ws_words (acc @ [c]) cs)"

definition split_whitespace :: "string \<Rightarrow> string list" where
  "split_whitespace s = ws_words [] s"

definition autostart_application :: "string \<Rightarrow> application" where
  "autostart_application line =
     (case split_whitespace line of
        [] \<Rightarrow> application_new []
      | program # args \<Rightarrow> fold app_arg args (application_new program))"

text \<open>\<open>collect\<close> into a \<open>Result\<close> stops at the first program that fails to start.\<close>

fun spawn_autostart ::
  "launch_os \<Rightarrow> user \<Rightarrow> environment \<Rightarrow> string list \<Rightarrow> spawn_call list \<times> u32 list result" where
  "spawn_autostart os u env [] = ([], Inr [])"
| "spawn_autostart os u env (line # ls) =
     (case app_spawn os (autostart_application line) u env of
        (made, Inl e) \<Rightarrow> (made, Inl e)
      | (made, Inr pid) \<Rightarrow>
          (case spawn_autostart os u env ls of
             (made', Inl e) \<Rightarrow> (made @ made', Inl e)
           | (made', Inr pids) \<Rightarrow> (made @ made', Inr (pid # pids))))"

definition sample_launch_os :: launch_os where
  "sample_launch_os =
     \<lparr>los_db = sample_db, los_group_file = Inr sample_group_file, los_spawn = (\<lambda>_. Inr 4242)\<rparr>"

subsection \<open>Lemmas\<close>

lemma fold_app_arg: "app_args (fold app_arg args app) = app_args app @ args
    \<and> app_command (fold app_arg args app) = app_command app"
  by (induction args arbitrary: app) (simp_all add: app_arg_def)

lemma ws_words_clean:
  "(\<forall>c \<in> set acc. \<not> is_ws c) \<Longrightarrow> w \<in> set (ws_words acc s) \<Longrightarrow> w \<noteq> [] \<and> (\<forall>c \<in> set w. \<not> is_ws c)"
proof (induction s arbitrary: acc)
  case (Cons c cs)
  consider "is_ws c" "w \<in> set (ws_words [] cs)" | "w = acc" "acc \<noteq> []" | "\<not> is_ws c" "w \<in> set (ws_words (acc @ [c]) cs)"
    using Cons.prems(2) by (cases "is_ws c"; cases "acc = []") auto
  then show ?case
  proof cases
    case 1
    then show ?thesis using Cons.IH [of "[]"] by simp
  next
    case 2
    then show ?thesis using Cons.prems(1) by simp
  next
    case 3
    have "\<forall>c \<in> set (acc @ [c]). \<not> is_ws c" using 3(1) Cons.prems(1) by simp
    then show ?thesis using 3(2) by (rule Cons.IH)
  qed
qed (simp split: if_splits)

lemma concat_ws_words: "concat (ws_words acc s) = acc @ filter (\<lambda>c. \<not> is_ws c) s"
  by (induction acc s rule: ws_words.induct) auto

lemma app_spawn_call:
  "app_spawn os app u env = (made, r) \<Longrightarrow>
     (made = [] \<and> (\<exists>e. r = Inl e))
   \<or> (\<exists>gids. supplementary_gids (los_db os) (los_group_file os) (user_name u) = Inr gids
        \<and> made = [\<lparr>sc_program = app_command app, sc_args = app_args app, sc_env = env, sc_dir = user_home u,
                   sc_stdin = StdioNull, sc_stdout = StdioInherit, sc_stderr = StdioInherit,
                   sc_pre_exec = [Setgroups gids, Setgid (user_gid u), Setuid (user_uid u)]\<rparr>]
        \<and> r = map_err IoError (los_spawn os (hd made)))"
  by (auto simp: app_spawn_def Let_def split: sum.splits)

text \<open>
  An autostart command line is split into its program and arguments without losing or inventing a
  character: the words contain no white space, are not empty, and put together give the line without
  its white space; a blank line becomes the empty program name.
\<close>

lemma autostart_split:
  "concat (split_whitespace line) = filter (\<lambda>c. \<not> is_ws c) line
   \<and> (\<forall>w \<in> set (split_whitespace line). w \<noteq> [] \<and> (\<forall>c \<in> set w. \<not> is_ws c))
   \<and> (if split_whitespace line = [] then app_command (autostart_application line) = []
      else app_command (autostart_application line) # app_args (autostart_application line) = split_whitespace line)"
proof (intro conjI ballI)
  show "concat (split_whitespace line) = filter (\<lambda>c. \<not> is_ws c) line"
    by (simp add: split_whitespace_def concat_ws_words)
  show "if split_whitespace line = [] then app_command (autostart_application line) = []
      else app_command (autostart_application line) # app_args (autostart_application line) = split_whitespace line"
    by (simp add: autostart_application_def application_new_def fold_app_arg split: list.split)
  fix w
  assume "w \<in> set (split_whitespace line)"
  then show "w \<noteq> []" "c \<in> set w \<Longrightarrow> \<not> is_ws c" for c
    using ws_words_clean [of "[]" w line] by (auto simp: split_whitespace_def)
qed

subsection \<open>Properties\<close>

text \<open>
  C34. Nothing is launched with the daemon's privileges or environment. Every program the launcher
  asks the kernel to start, the compositor, the fallback terminal or an autostart entry, runs with
  exactly the session's environment, in the user's home directory, with nothing to read from its standard
  input, after dropping to the user's groups, group and uid in that order; and when the groups cannot be resolved nothing is started.
\<close>

theorem spawn_confines:
  assumes "call \<in> set (fst (spawn_compositor os u env binary)) \<or> call \<in> set (fst (spawn_fallback_terminal os u env))
    \<or> call \<in> set (fst (spawn_autostart os u env commands))"
  shows "\<exists>gids. supplementary_gids (los_db os) (los_group_file os) (user_name u) = Inr gids
    \<and> sc_env call = env \<and> sc_dir call = user_home u \<and> sc_stdin call = StdioNull
    \<and> sc_pre_exec call = [Setgroups gids, Setgid (user_gid u), Setuid (user_uid u)]"
proof -
  have one: "\<exists>gids. supplementary_gids (los_db os) (los_group_file os) (user_name u) = Inr gids
      \<and> sc_env call = env \<and> sc_dir call = user_home u \<and> sc_stdin call = StdioNull
      \<and> sc_pre_exec call = [Setgroups gids, Setgid (user_gid u), Setuid (user_uid u)]"
    if "call \<in> set (fst (app_spawn os app u env))" for app
    using that app_spawn_call [of os app u env] by (cases "app_spawn os app u env") fastforce
  have "\<exists>app. call \<in> set (fst (app_spawn os app u env))"
    if "call \<in> set (fst (spawn_autostart os u env commands))"
    using that
  proof (induction commands)
    case (Cons line ls)
    have "set (fst (spawn_autostart os u env (line # ls))) \<subseteq>
        set (fst (app_spawn os (autostart_application line) u env)) \<union> set (fst (spawn_autostart os u env ls))"
      by (auto split: prod.splits sum.splits)
    with Cons show ?case by blast
  qed simp
  with assms one show ?thesis unfolding spawn_compositor_def spawn_fallback_terminal_def by blast
qed

theorem spawn_confines_witness:
  "let call = hd (fst (spawn_compositor sample_launch_os alice [] ''/usr/bin/mitos-gui''))
   in \<exists>gids. supplementary_gids (los_db sample_launch_os) (los_group_file sample_launch_os) (user_name alice) = Inr gids
      \<and> sc_env call = [] \<and> sc_dir call = user_home alice \<and> sc_stdin call = StdioNull
      \<and> sc_pre_exec call = [Setgroups gids, Setgid (user_gid alice), Setuid (user_uid alice)]"
proof -
  let ?made = "fst (spawn_compositor sample_launch_os alice [] ''/usr/bin/mitos-gui'')"
  have "?made \<noteq> []" by code_simp
  then have "hd ?made \<in> set ?made" by (rule hd_in_set)
  then show ?thesis unfolding Let_def by (intro spawn_confines) (rule disjI1)
qed

end
