(* ===== verification/Logging.thy ===== *)
theory Logging
  imports Config
begin

section \<open>Logging and the audit log\<close>

text \<open>
  \<open>src/logging/mod.rs\<close>: how the general log is set up; \<open>src/logging/audit.rs\<close>: security-relevant events
  and where they go. The serializer and the file system are parameters of \<open>audit_log\<close>; the daemon theory
  records the events themselves.
\<close>

subsection \<open>The general log\<close>

text \<open>
  A filter is told by where its directives come from. \<open>rust_log\<close> is the answer of
  \<open>EnvFilter::try_from_default_env\<close>: the directives of \<open>RUST_LOG\<close>, or that it is unset or does not parse.
\<close>

datatype log_filter = EnvDirectives string | LevelDirectives string

record log_setup =
  ls_filter :: log_filter
  ls_json :: bool

definition log_init :: "string + string \<Rightarrow> logging_settings \<Rightarrow> log_setup" where
  "log_init rust_log s =
     \<lparr>ls_filter = (case rust_log of Inr directives \<Rightarrow> EnvDirectives directives | Inl _ \<Rightarrow> LevelDirectives (log_level s)),
      ls_json = log_json s\<rparr>"

subsection \<open>The audit log\<close>

record audit_event =
  au_timestamp_unix :: u64
  au_actor_uid :: u32
  au_action :: string
  au_target :: "string option"
  au_detail :: "string option"
  au_outcome :: string

text \<open>\<open>unix_nanos\<close> is the system clock, in nanoseconds since the epoch.\<close>

definition audit_event_new :: "nat \<Rightarrow> u32 \<Rightarrow> string \<Rightarrow> string \<Rightarrow> audit_event" where
  "audit_event_new unix_nanos actor_uid action outcome =
     \<lparr>au_timestamp_unix = as_secs unix_nanos, au_actor_uid = actor_uid, au_action = action,
      au_target = None, au_detail = None, au_outcome = outcome\<rparr>"

definition audit_target :: "string \<Rightarrow> audit_event \<Rightarrow> audit_event" where
  "audit_target t e = e\<lparr>au_target := Some t\<rparr>"

definition audit_detail :: "string \<Rightarrow> audit_event \<Rightarrow> audit_event" where
  "audit_detail t e = e\<lparr>au_detail := Some t\<rparr>"

text \<open>The path kept in the static \<open>AUDIT_PATH\<close>.\<close>

definition configure_audit_log :: "logging_settings \<Rightarrow> string option" where
  "configure_audit_log s = audit_log_path s"

datatype audit_op =
    TraceAuditEvent audit_event
  | TraceSerializeError string
  | AppendLine string string
  | TraceWriteError io_error string

definition audit_log ::
  "(audit_event \<Rightarrow> string + string) \<Rightarrow> (string \<Rightarrow> string \<Rightarrow> io_error + unit) \<Rightarrow> string option \<Rightarrow> audit_event
   \<Rightarrow> audit_op list" where
  "audit_log to_json append_line path event =
     (case path of
        None \<Rightarrow> [TraceAuditEvent event]
      | Some p \<Rightarrow>
          (case to_json event of
             Inl e \<Rightarrow> [TraceSerializeError e]
           | Inr line \<Rightarrow>
               (case append_line p (line @ [newline]) of
                  Inl e \<Rightarrow> [AppendLine p (line @ [newline]), TraceWriteError e p]
                | Inr _ \<Rightarrow> [AppendLine p (line @ [newline])])))"

text \<open>
  An audit event always leaves something behind, but its content is lost when it cannot be serialized
  or the file cannot be written: then only an error is logged.
\<close>

lemma audit_log_never_silent: "audit_log to_json append_line path event \<noteq> []"
  by (simp add: audit_log_def split: option.split sum.split)

lemma audit_event_lost:
  assumes "\<And>line. to_json event = Inr line \<Longrightarrow> append_line p (line @ [newline]) \<noteq> Inr ()"
  shows "TraceAuditEvent event \<notin> set (audit_log to_json append_line (Some p) event)
    \<and> (\<exists>e. last (audit_log to_json append_line (Some p) event) \<in> {TraceSerializeError e} \<union> range (\<lambda>e. TraceWriteError e p))"
  using assms by (auto simp: audit_log_def split: sum.split)

end
