(* ===== verification/Power_Control.thy ===== *)
theory Power_Control
  imports Ipc Launcher Logging
begin

section \<open>Power transitions\<close>

text \<open>
  \<open>src/power/\<close>: the three backends (\<open>mod.rs\<close>, \<open>supervised.rs\<close>, \<open>mitos_power.rs\<close>) and the sequences
  around them (\<open>suspend.rs\<close>, \<open>reboot.rs\<close>, \<open>shutdown.rs\<close>, \<open>resume.rs\<close>). The kernel calls, the socket to
  mitos-power and the JSON library are parameters, the record \<open>power_os\<close>. The functions return
  their effects, oldest first, so that statements about order can be made; the type of effects
  covers what the rest of the daemon does too. The calls of \<open>LockManager::lock\<close> that suspend makes are among them,
  with their results, since they have to come before the machine sleeps.
\<close>

subsection \<open>Effects\<close>

datatype reboot_mode = RB_POWER_OFF | RB_AUTOBOOT

datatype pid1_signal = Pid1Sigterm | Pid1Sigint

datatype power_op =
    WriteSysPowerState string
  | RebootSyscall reboot_mode
  | KillPid1 pid1_signal
  | CallMitosPower string string

datatype effect =
    Audit "string option" audit_event
  | FsEffect fs_op
  | ProcEffect proc_op
  | SpawnEffect spawn_call
  | PowerEffect power_op
  | SleepFor duration
  | EventEffect conn_id event
  | LockEffect session_id "unit result"
  | RemoveFile string
  | SdNotify string

subsection \<open>The mitos-power client\<close>

text \<open>JSON values as serde_json has them; numbers and arrays are never looked at.\<close>

datatype json = JNull | JBool bool | JString string | JObject "(string \<times> json) list" | JOther

fun json_get :: "string \<Rightarrow> json \<Rightarrow> json option" where
  "json_get k (JObject kvs) = map_of kvs k"
| "json_get k _ = None"

fun as_str :: "json \<Rightarrow> string option" where
  "as_str (JString s) = Some s"
| "as_str _ = None"

fun as_bool :: "json \<Rightarrow> bool option" where
  "as_bool (JBool b) = Some b"
| "as_bool _ = None"

text \<open>
  The connection to mitos-power: the answers of the calls that set it up and write the request,
  and then what each \<open>read_line\<close> delivers; once they are used up the peer has closed. The strings on
  the left of the sums are the \<open>Display\<close> texts of the errors.
\<close>

record mitos_power_peer =
  mpp_connect :: "string \<Rightarrow> string + unit"
  mpp_set_read_timeout :: "string + unit"
  mpp_try_clone :: "string + unit"
  mpp_set_write_timeout :: "string + unit"
  mpp_to_string :: "json \<Rightarrow> string + string"
  mpp_write :: "string \<Rightarrow> string + unit"
  mpp_read_lines :: "(string + string) list"
  mpp_from_str :: "string \<Rightarrow> string + json"

fun read_reply :: "(string \<Rightarrow> string + json) \<Rightarrow> string \<Rightarrow> (string + string) list \<Rightarrow> unit result" where
  "read_reply from_str method_name [] =
     Inl (ProtocolError ''mitos-power closed the connection without replying'')"
| "read_reply from_str method_name (Inl e # rest) =
     Inl (ProtocolError (''reading from mitos-power: '' @ e))"
| "read_reply from_str method_name (Inr raw # rest) =
     (if raw = [] then Inl (ProtocolError ''mitos-power closed the connection without replying'')
      else
        (let trimmed = trim raw
         in if trimmed = [] then read_reply from_str method_name rest
            else
              (case from_str trimmed of
                 Inl e \<Rightarrow> Inl (ProtocolError (''parsing mitos-power reply: '' @ e))
               | Inr v \<Rightarrow>
                   if Option.bind (json_get ''kind'' v) as_str \<noteq> Some ''response'' then
                     read_reply from_str method_name rest
                   else if Option.bind (json_get ''ok'' v) as_bool = Some True then Inr ()
                   else
                     (let text = (case Option.bind (Option.bind (json_get ''error'' v) (json_get ''message'')) as_str of
                                    Some t \<Rightarrow> t | None \<Rightarrow> ''unknown error'')
                      in Inl (ProtocolError (''mitos-power rejected '' @ method_name @ '': '' @ text))))))"

definition mitos_power_call :: "mitos_power_peer \<Rightarrow> string \<Rightarrow> string \<Rightarrow> unit result" where
  "mitos_power_call peer socket method_name =
     (let protocol = (\<lambda>what r k. case r of Inl e \<Rightarrow> Inl (ProtocolError (what @ e)) | Inr x \<Rightarrow> k x)
      in protocol (''connecting to mitos-power at '' @ socket @ '': '') (mpp_connect peer socket) (\<lambda>_.
         protocol ''setting read timeout: '' (mpp_set_read_timeout peer) (\<lambda>_.
         protocol ''cloning socket to mitos-power: '' (mpp_try_clone peer) (\<lambda>_.
         protocol ''setting write timeout: '' (mpp_set_write_timeout peer) (\<lambda>_.
         case mpp_to_string peer
                (JObject [(''kind'', JString ''request''), (''id'', JString ''mitos-session''),
                          (''method'', JString method_name), (''params'', JObject [])]) of
           Inl e \<Rightarrow> Inl (ProtocolError (''encoding request to mitos-power: '' @ e))
         | Inr line \<Rightarrow>
             protocol ''writing to mitos-power: '' (mpp_write peer (line @ [newline])) (\<lambda>_.
             read_reply (mpp_from_str peer) method_name (mpp_read_lines peer)))))))"

subsection \<open>Backends\<close>

datatype power_backend = MitosPowerBackend string | DirectBackend | SupervisedBackend

definition backend_make :: "power_backend_kind \<Rightarrow> string \<Rightarrow> power_backend" where
  "backend_make kind socket =
     (case kind of
        MitosPowerKind \<Rightarrow> MitosPowerBackend socket
      | DirectKind \<Rightarrow> DirectBackend
      | SupervisedKind \<Rightarrow> SupervisedBackend)"

record power_os =
  pos_write_state :: "string \<Rightarrow> io_error + unit"
  pos_reboot :: "reboot_mode \<Rightarrow> io_error + unit"
  pos_kill :: "pid1_signal \<Rightarrow> io_error + unit"
  pos_mitos_power :: mitos_power_peer

text \<open>\<open>DirectBackend\<close> talks to the kernel.\<close>

definition direct_suspend :: "power_os \<Rightarrow> power_op \<times> unit result" where
  "direct_suspend os = (WriteSysPowerState ''mem'', map_err IoError (pos_write_state os ''mem''))"

definition direct_poweroff :: "power_os \<Rightarrow> power_op \<times> unit result" where
  "direct_poweroff os = (RebootSyscall RB_POWER_OFF, map_err from_nix_errno (pos_reboot os RB_POWER_OFF))"

definition direct_reboot :: "power_os \<Rightarrow> power_op \<times> unit result" where
  "direct_reboot os = (RebootSyscall RB_AUTOBOOT, map_err from_nix_errno (pos_reboot os RB_AUTOBOOT))"

text \<open>\<open>SupervisedBackend\<close> signals process 1.\<close>

definition supervised_suspend :: "power_os \<Rightarrow> power_op \<times> unit result" where
  "supervised_suspend os = direct_suspend os"

definition supervised_poweroff :: "power_os \<Rightarrow> power_op \<times> unit result" where
  "supervised_poweroff os = (KillPid1 Pid1Sigterm, map_err from_nix_errno (pos_kill os Pid1Sigterm))"

definition supervised_reboot :: "power_os \<Rightarrow> power_op \<times> unit result" where
  "supervised_reboot os = (KillPid1 Pid1Sigint, map_err from_nix_errno (pos_kill os Pid1Sigint))"

text \<open>\<open>MitosPowerBackend\<close> asks the power daemon.\<close>

definition mitos_power_suspend :: "power_os \<Rightarrow> string \<Rightarrow> power_op \<times> unit result" where
  "mitos_power_suspend os socket =
     (CallMitosPower socket ''Suspend'', mitos_power_call (pos_mitos_power os) socket ''Suspend'')"

definition mitos_power_poweroff :: "power_os \<Rightarrow> string \<Rightarrow> power_op \<times> unit result" where
  "mitos_power_poweroff os socket =
     (CallMitosPower socket ''Poweroff'', mitos_power_call (pos_mitos_power os) socket ''Poweroff'')"

definition mitos_power_reboot :: "power_os \<Rightarrow> string \<Rightarrow> power_op \<times> unit result" where
  "mitos_power_reboot os socket =
     (CallMitosPower socket ''Reboot'', mitos_power_call (pos_mitos_power os) socket ''Reboot'')"

text \<open>A call through \<open>dyn SystemPowerBackend\<close>.\<close>

definition backend_suspend :: "power_os \<Rightarrow> power_backend \<Rightarrow> power_op \<times> unit result" where
  "backend_suspend os b =
     (case b of
        MitosPowerBackend socket \<Rightarrow> mitos_power_suspend os socket
      | DirectBackend \<Rightarrow> direct_suspend os
      | SupervisedBackend \<Rightarrow> supervised_suspend os)"

definition backend_poweroff :: "power_os \<Rightarrow> power_backend \<Rightarrow> power_op \<times> unit result" where
  "backend_poweroff os b =
     (case b of
        MitosPowerBackend socket \<Rightarrow> mitos_power_poweroff os socket
      | DirectBackend \<Rightarrow> direct_poweroff os
      | SupervisedBackend \<Rightarrow> supervised_poweroff os)"

definition backend_reboot :: "power_os \<Rightarrow> power_backend \<Rightarrow> power_op \<times> unit result" where
  "backend_reboot os b =
     (case b of
        MitosPowerBackend socket \<Rightarrow> mitos_power_reboot os socket
      | DirectBackend \<Rightarrow> direct_reboot os
      | SupervisedBackend \<Rightarrow> supervised_reboot os)"

subsection \<open>Suspend\<close>

fun prepare_sessions ::
  "session_context list \<Rightarrow> lock_policy \<Rightarrow> lock_manager \<Rightarrow> conn_registry
   \<Rightarrow> lock_manager \<times> conn_registry \<times> effect list" where
  "prepare_sessions [] policy locks reg = (locks, reg, [])"
| "prepare_sessions (ctx # ctxs) policy locks reg =
     (let (locks', locked) =
            (if lp_lock_on_suspend policy then
               (case lm_lock (ctx_id ctx) policy locks of (l, r) \<Rightarrow> (l, [LockEffect (ctx_id ctx) r]))
             else (locks, []));
          (reg', sent) = (case ctx_compositor_conn ctx of
                            None \<Rightarrow> (reg, [])
                          | Some c \<Rightarrow> (send_event c PrepareForSleep reg, [EventEffect c PrepareForSleep]))
      in (case prepare_sessions ctxs policy locks' reg' of
            (locks'', reg'', effs) \<Rightarrow> (locks'', reg'', locked @ sent @ effs)))"

definition grace_wait :: "inhibit_what \<Rightarrow> lock_manager \<Rightarrow> duration \<Rightarrow> effect list" where
  "grace_wait what locks grace = (if delays what (lm_inhibitors locks) \<noteq> [] then [SleepFor grace] else [])"

definition power_suspend ::
  "power_os \<Rightarrow> session_manager \<Rightarrow> lock_manager \<Rightarrow> lock_policy \<Rightarrow> conn_registry \<Rightarrow> power_backend \<Rightarrow> duration
   \<Rightarrow> lock_manager \<times> conn_registry \<times> effect list \<times> unit result" where
  "power_suspend os sessions locks policy reg backend grace =
     (if blocks InhibitSuspend (lm_inhibitors locks) then
        (locks, reg, [], Inl (PermissionDenied ''an application is inhibiting suspend''))
      else
        (case prepare_sessions (sm_list sessions) policy locks reg of
           (locks', reg', effs) \<Rightarrow>
             (case backend_suspend os backend of
                (op', r) \<Rightarrow> (locks', reg', grace_wait InhibitSuspend locks grace @ effs @ [PowerEffect op'], r))))"

subsection \<open>Reboot and power-off\<close>

definition power_reboot ::
  "power_os \<Rightarrow> session_manager \<Rightarrow> lock_manager \<Rightarrow> power_backend \<Rightarrow> duration
   \<Rightarrow> session_manager \<times> effect list \<times> unit result" where
  "power_reboot os sessions locks backend grace =
     (if blocks InhibitShutdown (lm_inhibitors locks) then
        (sessions, [], Inl (PermissionDenied ''an application is inhibiting shutdown/reboot''))
      else
        (case sm_terminate_all (map ctx_id (sm_list sessions)) sessions of
           (sessions', procs) \<Rightarrow>
             (case backend_reboot os backend of
                (op', r) \<Rightarrow>
                  (sessions',
                   grace_wait InhibitShutdown locks grace @ map ProcEffect procs @ [PowerEffect op'], r))))"

definition power_poweroff ::
  "power_os \<Rightarrow> session_manager \<Rightarrow> lock_manager \<Rightarrow> power_backend \<Rightarrow> duration
   \<Rightarrow> session_manager \<times> effect list \<times> unit result" where
  "power_poweroff os sessions locks backend grace =
     (if blocks InhibitShutdown (lm_inhibitors locks) then
        (sessions, [], Inl (PermissionDenied ''an application is inhibiting shutdown''))
      else
        (case sm_terminate_all (map ctx_id (sm_list sessions)) sessions of
           (sessions', procs) \<Rightarrow>
             (case backend_poweroff os backend of
                (op', r) \<Rightarrow>
                  (sessions',
                   grace_wait InhibitShutdown locks grace @ map ProcEffect procs @ [PowerEffect op'], r))))"

subsection \<open>Resume\<close>

fun resume_notices :: "session_context list \<Rightarrow> conn_registry \<Rightarrow> conn_registry" where
  "resume_notices [] reg = reg"
| "resume_notices (ctx # ctxs) reg =
     resume_notices ctxs
       (case ctx_compositor_conn ctx of None \<Rightarrow> reg | Some c \<Rightarrow> send_event c ResumedFromSleep reg)"

definition on_resume :: "session_manager \<Rightarrow> conn_registry \<Rightarrow> conn_registry \<times> unit result" where
  "on_resume sessions reg = (resume_notices (sm_list sessions) reg, Inr ())"

text \<open>A line \<open>read_reply\<close> passes over: blank, or a message that is not a response.\<close>

definition skipped_line :: "(string \<Rightarrow> string + json) \<Rightarrow> string \<Rightarrow> bool" where
  "skipped_line from_str raw \<longleftrightarrow> raw \<noteq> [] \<and> (trim raw = []
     \<or> (\<exists>v. from_str (trim raw) = Inr v \<and> Option.bind (json_get ''kind'' v) as_str \<noteq> Some ''response''))"

definition accepting_line :: "(string \<Rightarrow> string + json) \<Rightarrow> string \<Rightarrow> bool" where
  "accepting_line from_str raw \<longleftrightarrow> raw \<noteq> [] \<and> trim raw \<noteq> []
     \<and> (\<exists>v. from_str (trim raw) = Inr v \<and> Option.bind (json_get ''kind'' v) as_str = Some ''response''
          \<and> Option.bind (json_get ''ok'' v) as_bool = Some True)"

text \<open>The kill and wait calls for the compositors that were running.\<close>

definition killed :: "session_manager \<Rightarrow> effect list" where
  "killed m = concat (map (\<lambda>c. case ctx_compositor_process c of
     None \<Rightarrow> [] | Some pid \<Rightarrow> [ProcEffect (KillChild pid), ProcEffect (WaitChild pid)]) (sm_list m))"

text \<open>What \<open>LockManager::lock\<close> answers, whatever the session, and what suspend does about one session.\<close>

definition lock_verdict :: "lock_policy \<Rightarrow> lock_manager \<Rightarrow> unit result" where
  "lock_verdict p locks =
     (if \<not> lp_enabled p then Inl (Unsupported ''locking is disabled in config'')
      else if blocks InhibitLock (lm_inhibitors locks) then Inl (PermissionDenied ''an application is inhibiting the lock screen'')
      else Inr ())"

definition sleep_steps :: "lock_policy \<Rightarrow> lock_manager \<Rightarrow> session_context \<Rightarrow> effect list" where
  "sleep_steps p locks ctx =
     (if lp_lock_on_suspend p then [LockEffect (ctx_id ctx) (lock_verdict p locks)] else [])
     @ (case ctx_compositor_conn ctx of None \<Rightarrow> [] | Some c \<Rightarrow> [EventEffect c PrepareForSleep])"

definition sample_peer :: mitos_power_peer where
  "sample_peer =
     \<lparr>mpp_connect = (\<lambda>_. Inr ()), mpp_set_read_timeout = Inr (), mpp_try_clone = Inr (),
      mpp_set_write_timeout = Inr (), mpp_to_string = (\<lambda>_. Inr ''{}''), mpp_write = (\<lambda>_. Inr ()),
      mpp_read_lines = [Inr [newline], Inr ''E'', Inr ''R''],
      mpp_from_str = (\<lambda>s. if s = ''R'' then Inr (JObject [(''kind'', JString ''response''), (''ok'', JBool True)])
                          else Inr (JObject [(''kind'', JString ''event'')]))\<rparr>"

definition sample_power_os :: power_os where
  "sample_power_os =
     \<lparr>pos_write_state = (\<lambda>_. Inr ()), pos_reboot = (\<lambda>_. Inr ()), pos_kill = (\<lambda>_. Inr ()),
      pos_mitos_power = sample_peer\<rparr>"

subsection \<open>Lemmas\<close>

lemma prepare_Cons:
  "fst (prepare_sessions (ctx # ctxs) p locks reg) =
     fst (prepare_sessions ctxs p
       (if lp_lock_on_suspend p then fst (lm_lock (ctx_id ctx) p locks) else locks)
       (case ctx_compositor_conn ctx of None \<Rightarrow> reg | Some c \<Rightarrow> send_event c PrepareForSleep reg))"
  by (simp add: Let_def split_def split: option.split)

lemma prepare_locks:
  "lock_state_of (fst (prepare_sessions ctxs p locks reg)) sid =
     (if sid \<in> ctx_id ` set ctxs \<and> lp_lock_on_suspend p \<and> lp_enabled p
         \<and> \<not> blocks InhibitLock (lm_inhibitors locks)
      then LockLocked else lock_state_of locks sid)
   \<and> lm_inhibitors (fst (prepare_sessions ctxs p locks reg)) = lm_inhibitors locks
   \<and> lm_timeouts (fst (prepare_sessions ctxs p locks reg)) = lm_timeouts locks"
proof (induction ctxs arbitrary: locks reg)
  case Nil
  then show ?case by simp
next
  case (Cons ctx ctxs)
  let ?l = "if lp_lock_on_suspend p then fst (lm_lock (ctx_id ctx) p locks) else locks"
  have "lm_inhibitors ?l = lm_inhibitors locks \<and> lm_timeouts ?l = lm_timeouts locks"
    by (simp add: lm_lock_def)
  with Cons [of ?l] show ?case
    by (auto simp: prepare_Cons lm_lock_state simp del: prepare_sessions.simps(2))
qed

lemma prepare_lm_ok: "lm_ok locks \<Longrightarrow> lm_ok (fst (prepare_sessions ctxs p locks reg))"
  by (induction ctxs arbitrary: locks reg)
    (simp_all add: prepare_Cons lm_ok_lock del: prepare_sessions.simps(2))

lemma lm_lock_verdict: "snd (lm_lock sid p locks) = lock_verdict p locks" "lm_inhibitors (fst (lm_lock sid p locks)) = lm_inhibitors locks"
  by (simp_all add: lm_lock_def lock_verdict_def)

lemma prepare_effects:
  "snd (snd (prepare_sessions ctxs p locks reg)) = concat (map (sleep_steps p locks) ctxs)"
proof (induction ctxs arbitrary: locks reg)
  case (Cons ctx ctxs)
  have "sleep_steps p (fst (lm_lock sid p locks)) = sleep_steps p locks" for sid
    by (simp add: fun_eq_iff sleep_steps_def lock_verdict_def lm_lock_verdict)
  with Cons show ?case
    by (simp add: Let_def split_def lm_lock_verdict sleep_steps_def [of _ _ ctx] split: option.split)
qed simp

lemma prepare_registry:
  "fst (snd (prepare_sessions ctxs p locks reg)) =
     fold (\<lambda>c. send_event c PrepareForSleep) (List.map_filter ctx_compositor_conn ctxs) reg"
  by (induction ctxs arbitrary: locks reg)
    (simp_all add: Let_def split_def List.map_filter_simps split: option.split)

lemma sent_to_fold_events:
  "sent_to (fold (\<lambda>c. send_event c e) cs reg) x =
     sent_to reg x @ (if registered reg x then replicate (count_list cs x) (EventMsg e) else [])"
proof (induction cs arbitrary: reg)
  case (Cons c cs)
  then show ?case by (auto simp: sent_to_event)
qed simp

lemma registered_fold_events [simp]: "registered (fold (\<lambda>c. send_event c e) cs reg) x = registered reg x"
  by (induction cs arbitrary: reg) simp_all

lemma read_reply_Inr:
  "read_reply from_str name ls = Inr () \<longleftrightarrow>
     (\<exists>pre raw post. ls = map Inr pre @ Inr raw # post \<and> (\<forall>l \<in> set pre. skipped_line from_str l)
        \<and> accepting_line from_str raw)"
proof (induction ls)
  case Nil
  then show ?case by simp
next
  case (Cons l ls)
  show ?case
  proof (cases l)
    case (Inl e)
    then show ?thesis by (auto simp: Cons_eq_append_conv)
  next
    case (Inr raw)
    have split: "(\<exists>pre raw' post. Inr raw # ls = map Inr pre @ Inr raw' # post
          \<and> (\<forall>l \<in> set pre. skipped_line from_str l) \<and> accepting_line from_str raw') \<longleftrightarrow>
        accepting_line from_str raw \<or> (skipped_line from_str raw \<and>
          (\<exists>pre raw' post. ls = map Inr pre @ Inr raw' # post
             \<and> (\<forall>l \<in> set pre. skipped_line from_str l) \<and> accepting_line from_str raw'))" (is "?L = ?R")
    proof
      assume ?L
      then obtain pre raw' post where "Inr raw # ls = map Inr pre @ Inr raw' # post"
        "\<forall>l \<in> set pre. skipped_line from_str l" "accepting_line from_str raw'" by blast
      then show ?R by (cases pre) auto
    next
      assume ?R
      then show ?L
      proof
        assume "accepting_line from_str raw"
        then show ?L by (intro exI [of _ "[]"] exI [of _ raw] exI [of _ ls]) simp
      next
        assume "skipped_line from_str raw \<and> (\<exists>pre raw' post. ls = map Inr pre @ Inr raw' # post
             \<and> (\<forall>l \<in> set pre. skipped_line from_str l) \<and> accepting_line from_str raw')"
        then obtain pre raw' post where "skipped_line from_str raw" "ls = map Inr pre @ Inr raw' # post"
          "\<forall>l \<in> set pre. skipped_line from_str l" "accepting_line from_str raw'" by blast
        then show ?L by (intro exI [of _ "raw # pre"] exI [of _ raw'] exI [of _ post]) simp
      qed
    qed
    have "read_reply from_str name (Inr raw # ls) = Inr () \<longleftrightarrow>
        accepting_line from_str raw \<or> (skipped_line from_str raw \<and> read_reply from_str name ls = Inr ())"
      by (auto simp: accepting_line_def skipped_line_def Let_def split: sum.splits)
    with Cons.IH Inr split show ?thesis by simp
  qed
qed

lemma set_map_filter: "x \<in> set (List.map_filter f xs) \<longleftrightarrow> (\<exists>y \<in> set xs. f y = Some x)"
  by (auto simp: List.map_filter_def image_iff)

lemma sm_terminate_all_procs:
  assumes "hm_ok (sm_sessions m)" "\<forall>sid ctx. hm_get (sm_sessions m) sid = Some ctx \<longrightarrow> ctx_id ctx = sid"
  shows "map ProcEffect (snd (sm_terminate_all (map ctx_id (sm_list m)) m)) = killed m"
proof -
  have "snd (sm_terminate_all sids m) = concat (map (\<lambda>sid. case hm_get (sm_sessions m) sid of
      None \<Rightarrow> [] | Some ctx \<Rightarrow> fst (lifecycle_end ctx)) sids)" if "distinct sids" for sids
    using that
  proof (induction sids arbitrary: m)
    case (Cons sid sids)
    let ?m = "fst (sm_terminate_session sid m)"
    have "hm_get (sm_sessions ?m) i = hm_get (sm_sessions m) i" if "i \<in> set sids" for i
      using that Cons.prems by (auto simp: sm_terminate_session_get)
    then have "map (\<lambda>sid. case hm_get (sm_sessions ?m) sid of None \<Rightarrow> [] | Some ctx \<Rightarrow> fst (lifecycle_end ctx)) sids
        = map (\<lambda>sid. case hm_get (sm_sessions m) sid of None \<Rightarrow> [] | Some ctx \<Rightarrow> fst (lifecycle_end ctx)) sids" by simp
    with Cons.IH [of ?m] Cons.prems show ?case
      by (simp add: split_def) (simp add: sm_terminate_session_def split: option.split)
  qed simp
  moreover have ids: "map ctx_id (sm_list m) = hm_keys (sm_sessions m)"
    using assms(2) by (auto simp: sm_list_def hm_values_def hm_keys_def hm_get_iff [OF assms(1)])
  moreover have "distinct (map ctx_id (sm_list m))" using assms(1) unfolding ids by (simp add: hm_ok_def)
  moreover have "map (\<lambda>sid. case hm_get (sm_sessions m) sid of None \<Rightarrow> [] | Some ctx \<Rightarrow> fst (lifecycle_end ctx))
      (hm_keys (sm_sessions m)) = map (\<lambda>c. fst (lifecycle_end c)) (sm_list m)"
    by (auto simp: sm_list_def hm_values_def hm_keys_def iffD2 [OF hm_get_iff [OF assms(1)]])
  ultimately have "snd (sm_terminate_all (map ctx_id (sm_list m)) m) = concat (map (\<lambda>c. fst (lifecycle_end c)) (sm_list m))"
    by simp
  then show ?thesis
    by (simp add: killed_def map_concat comp_def lifecycle_end_def option.case_distrib [of "map ProcEffect"] cong: option.case_cong)
qed

lemma power_suspend_cases:
  "power_suspend os sessions locks p reg b g =
     (if blocks InhibitSuspend (lm_inhibitors locks)
      then (locks, reg, [], Inl (PermissionDenied ''an application is inhibiting suspend''))
      else (fst (prepare_sessions (sm_list sessions) p locks reg),
            fst (snd (prepare_sessions (sm_list sessions) p locks reg)),
            grace_wait InhibitSuspend locks g
              @ concat (map (sleep_steps p locks) (sm_list sessions))
              @ [PowerEffect (fst (backend_suspend os b))],
            snd (backend_suspend os b)))"
  by (simp add: power_suspend_def prepare_effects split_def)

subsection \<open>Properties\<close>

text \<open>
  C30. Suspend. With a \<open>Block\<close> inhibitor on suspend nothing happens at all. Otherwise the machine is
  sent to sleep last, exactly once: first comes the grace period, when someone delays suspend, then, session
  by session, the call that locks it, when \<open>lock_on_suspend\<close> is set, and the event that tells its compositor
  to prepare. When locking is enabled and no one inhibits it, each of these calls succeeds and leaves its
  session locked; and no locked session is ever unlocked.
\<close>

theorem suspend_sequence:
  assumes "sm_inv sessions"
    and "power_suspend os sessions locks p reg b g = (locks', reg', effs, r)"
  shows "if blocks InhibitSuspend (lm_inhibitors locks)
    then locks' = locks \<and> reg' = reg \<and> effs = [] \<and> r = Inl (PermissionDenied ''an application is inhibiting suspend'')
    else effs = grace_wait InhibitSuspend locks g
           @ concat (map (sleep_steps p locks) (sm_list sessions))
           @ [PowerEffect (fst (backend_suspend os b))]
       \<and> r = snd (backend_suspend os b)
       \<and> (lp_lock_on_suspend p \<and> lp_enabled p \<and> \<not> blocks InhibitLock (lm_inhibitors locks) \<longrightarrow>
            (\<forall>sid. hm_get (sm_sessions sessions) sid \<noteq> None \<longrightarrow> lm_is_locked locks' sid))
       \<and> (\<forall>sid. lm_is_locked locks sid \<longrightarrow> lm_is_locked locks' sid)
       \<and> (\<forall>sid ctx c. hm_get (sm_sessions sessions) sid = Some ctx \<longrightarrow> ctx_compositor_conn ctx = Some c \<longrightarrow>
            registered reg c \<longrightarrow> EventMsg PrepareForSleep \<in> set (sent_to reg' c))"
proof (cases "blocks InhibitSuspend (lm_inhibitors locks)")
  case True
  with assms(2) show ?thesis by (auto simp: power_suspend_cases)
next
  case False
  let ?ctxs = "sm_list sessions"
  let ?conns = "List.map_filter ctx_compositor_conn ?ctxs"
  from False assms(2) have locks': "locks' = fst (prepare_sessions ?ctxs p locks reg)"
    and reg': "reg' = fold (\<lambda>c. send_event c PrepareForSleep) ?conns reg"
    by (simp_all add: power_suspend_cases prepare_registry)
  have ids: "ctx_id ` set ?ctxs = {sid. hm_get (sm_sessions sessions) sid \<noteq> None}"
    using sm_list_ids [OF assms(1)] by simp
  have ok: "hm_ok (sm_sessions sessions)" using assms(1) by (simp add: sm_inv_def)
  have "EventMsg PrepareForSleep \<in> set (sent_to reg' c)"
    if "hm_get (sm_sessions sessions) sid = Some ctx" "ctx_compositor_conn ctx = Some c" "registered reg c"
    for sid ctx c
  proof -
    have "c \<in> set ?conns" using that set_hm_values [OF ok] by (auto simp: set_map_filter sm_list_def)
    then have "count_list ?conns c \<noteq> 0" by (simp add: count_list_0_iff)
    with that(3) show ?thesis by (auto simp: reg' sent_to_fold_events)
  qed
  moreover have "lm_is_locked locks' sid" if "lm_is_locked locks sid" for sid
    using that by (simp add: locks' lm_is_locked_iff prepare_locks)
  moreover have "lm_is_locked locks' sid"
    if "lp_lock_on_suspend p \<and> lp_enabled p \<and> \<not> blocks InhibitLock (lm_inhibitors locks)"
      "hm_get (sm_sessions sessions) sid \<noteq> None" for sid
    using that ids by (simp add: locks' lm_is_locked_iff prepare_locks)
  ultimately show ?thesis using False assms(2) by (simp add: power_suspend_cases)
qed

theorem suspend_sequence_witness:
  "lm_is_locked (fst (power_suspend sample_power_os sample_sessions lm_new sample_lock_policy registry_new
     (MitosPowerBackend ''/run/mitos/power.sock'') 2)) 1"
proof -
  let ?b = "MitosPowerBackend ''/run/mitos/power.sock''"
  let ?s = "power_suspend sample_power_os sample_sessions lm_new sample_lock_policy registry_new ?b 2"
  have 1: "?s = (fst ?s, fst (snd ?s), fst (snd (snd ?s)), snd (snd (snd ?s)))" by simp
  have 2: "\<not> blocks InhibitSuspend (lm_inhibitors lm_new)" by code_simp
  have 3: "lp_lock_on_suspend sample_lock_policy \<and> lp_enabled sample_lock_policy
      \<and> \<not> blocks InhibitLock (lm_inhibitors lm_new)" by code_simp
  have 4: "hm_get (sm_sessions sample_sessions) 1 \<noteq> None" by code_simp
  from suspend_sequence [OF sm_inv_sample 1] 3 4 show ?thesis unfolding if_not_P [OF 2] by blast
qed

text \<open>
  C31. Reboot and power-off. With a \<open>Block\<close> inhibitor on shutdown nothing happens. Otherwise, after the grace
  period when someone delays shutdown, every session is terminated: each compositor that is running is killed
  and then waited for, one session after the other; then the backend is called, once
  and last, and what it answers is what the caller gets.
\<close>

theorem shutdown_sequence:
  assumes "sm_inv sessions"
    and "power_reboot os sessions locks b g = (after_reboot, reboot_effs, r)"
    and "power_poweroff os sessions locks b g = (after_off, off_effs, r')"
  shows "if blocks InhibitShutdown (lm_inhibitors locks)
    then after_reboot = sessions \<and> after_off = sessions \<and> reboot_effs = [] \<and> off_effs = []
      \<and> r = Inl (PermissionDenied ''an application is inhibiting shutdown/reboot'')
      \<and> r' = Inl (PermissionDenied ''an application is inhibiting shutdown'')
    else (\<forall>sid. hm_get (sm_sessions after_reboot) sid = None \<and> hm_get (sm_sessions after_off) sid = None)
      \<and> reboot_effs = grace_wait InhibitShutdown locks g @ killed sessions @ [PowerEffect (fst (backend_reboot os b))]
      \<and> off_effs = grace_wait InhibitShutdown locks g @ killed sessions @ [PowerEffect (fst (backend_poweroff os b))]
      \<and> r = snd (backend_reboot os b) \<and> r' = snd (backend_poweroff os b)"
proof -
  have "map ProcEffect (snd (sm_terminate_all (map ctx_id (sm_list sessions)) sessions)) = killed sessions"
    using assms(1) by (intro sm_terminate_all_procs) (auto simp: sm_inv_def ctx_ok_def)
  then show ?thesis
    using assms(2,3) terminate_every_session [OF assms(1)]
    by (auto simp: power_reboot_def power_poweroff_def split_def split: if_splits)
qed

theorem shutdown_sequence_witness:
  "hm_get (sm_sessions (fst (power_reboot sample_power_os sample_sessions lm_new DirectBackend 2))) 1 = None"
proof -
  let ?r = "power_reboot sample_power_os sample_sessions lm_new DirectBackend 2"
  let ?o = "power_poweroff sample_power_os sample_sessions lm_new DirectBackend 2"
  have 1: "?r = (fst ?r, fst (snd ?r), snd (snd ?r))" and 2: "?o = (fst ?o, fst (snd ?o), snd (snd ?o))"
    by simp_all
  have 3: "\<not> blocks InhibitShutdown (lm_inhibitors lm_new)" by code_simp
  from shutdown_sequence [OF sm_inv_sample 1 2] show ?thesis unfolding if_not_P [OF 3] by blast
qed

text \<open>
  C32. The mitos-power client reports success exactly when every step of the exchange succeeded and
  the first line that is neither blank nor a non-response is a response with \<open>ok\<close> true. A peer that
  hangs up, answers garbage or rejects the request is an error, and no event line is mistaken for
  the reply.
\<close>

theorem mitos_power_success:
  "mitos_power_call peer socket name = Inr () \<longleftrightarrow>
     mpp_connect peer socket = Inr () \<and> mpp_set_read_timeout peer = Inr () \<and> mpp_try_clone peer = Inr ()
   \<and> mpp_set_write_timeout peer = Inr ()
   \<and> (\<exists>line. mpp_to_string peer (JObject [(''kind'', JString ''request''), (''id'', JString ''mitos-session''),
                (''method'', JString name), (''params'', JObject [])]) = Inr line
        \<and> mpp_write peer (line @ [newline]) = Inr ())
   \<and> (\<exists>pre raw post. mpp_read_lines peer = map Inr pre @ Inr raw # post
        \<and> list_all (skipped_line (mpp_from_str peer)) pre \<and> accepting_line (mpp_from_str peer) raw)"
  unfolding mitos_power_call_def Let_def list_all_iff
  using read_reply_Inr [of "mpp_from_str peer" name "mpp_read_lines peer"]
  by (auto split: sum.splits)

end
