(* ===== verification/Signals.thy ===== *)
theory Signals
  imports Power_Control
begin

section \<open>Signals and the graceful shutdown\<close>

text \<open>
  \<open>src/signals/\<close>: what a POSIX signal means to the daemon (\<open>handlers.rs\<close>) and the orderly teardown
  (\<open>shutdown.rs\<close>). Whether the socket file exists and the answer to removing it are parameters.
\<close>

datatype posix_signal = SIGTERM | SIGINT | SIGHUP | SIGCHLD | SIGUSR1 | OtherSignal nat

datatype signal_event = Terminate | ReloadConfig | ReapChildren

definition watched_signals :: "posix_signal list" where
  "watched_signals = [SIGTERM, SIGINT, SIGHUP, SIGCHLD]"

fun classify_signal :: "posix_signal \<Rightarrow> signal_event option" where
  "classify_signal SIGTERM = Some Terminate"
| "classify_signal SIGINT = Some Terminate"
| "classify_signal SIGHUP = Some ReloadConfig"
| "classify_signal SIGCHLD = Some ReapChildren"
| "classify_signal _ = None"

definition graceful_shutdown ::
  "(string \<Rightarrow> bool) \<Rightarrow> (string \<Rightarrow> io_error + unit) \<Rightarrow> string \<Rightarrow> session_manager
   \<Rightarrow> session_manager \<times> effect list \<times> unit result" where
  "graceful_shutdown exists_file remove_file socket sessions =
     (case sm_terminate_all (map ctx_id (sm_list sessions)) sessions of
        (sessions', procs) \<Rightarrow>
          if exists_file socket then
            (sessions', map ProcEffect procs @ [RemoveFile socket], map_err IoError (remove_file socket))
          else (sessions', map ProcEffect procs, Inr ()))"

lemma watched_signals_classified: "sig \<in> set watched_signals \<longleftrightarrow> classify_signal sig \<noteq> None"
  by (cases sig) (simp_all add: watched_signals_def)

end
