(* ===== verification/Daemon.thy ===== *)
theory Daemon
  imports Seat Policy Signals
begin

section \<open>The daemon\<close>

text \<open>
  \<open>src/main.rs\<close>: the state every callback works on, and every callback. One event of the loop, a
  message from a connection thread, the one-second tick or a signal, is one call of
  \<open>daemon_event\<close>; everything runs on one thread, so a run of the daemon is a sequence of such
  calls. The \<open>world\<close> holds the answers of the operating system, PAM and the clock during that call. Effects
  beyond the daemon's own state and its outboxes are appended to \<open>d_trace\<close>. Log lines of the
  \<open>tracing\<close> crate are left out.
\<close>

subsection \<open>State and world\<close>

record world =
  w_now :: instant
  w_unix :: nat
  w_db :: passwd_db
  w_shadow :: "string option"
  w_group_file :: "io_error + string"
  w_fs :: fs
  w_spawn :: "spawn_call \<Rightarrow> io_error + u32"
  w_pam :: pam
  w_power :: power_os
  w_config :: config_os
  w_exists :: "string \<Rightarrow> bool"
  w_remove :: "string \<Rightarrow> io_error + unit"

definition w_launch :: "world \<Rightarrow> launch_os" where
  "w_launch w = \<lparr>los_db = w_db w, los_group_file = w_group_file w, los_spawn = w_spawn w\<rparr>"

record daemon =
  d_settings :: settings
  d_sessions :: session_manager
  d_seats :: seat_manager
  d_locks :: lock_manager
  d_idle :: idle_detector
  d_registry :: conn_registry
  d_authenticator :: pam_authenticator
  d_elevation :: elevation_manager
  d_power_backend :: power_backend
  d_socket_path :: string
  d_should_exit :: bool
  d_audit_path :: "string option"
  d_trace :: "effect list"

definition resolve_elevation_requester :: "passwd_db \<Rightarrow> elevation_settings \<Rightarrow> u32 option" where
  "resolve_elevation_requester db s =
     (case by_name db (service_user s) of Inr u \<Rightarrow> Some (user_uid u) | Inl _ \<Rightarrow> None)"

definition daemon_new :: "world \<Rightarrow> settings \<Rightarrow> daemon" where
  "daemon_new w s =
     \<lparr>d_settings = s, d_sessions = sm_new, d_seats = seats_new, d_locks = lm_new, d_idle = detector_new,
      d_registry = registry_new,
      d_authenticator = pam_authenticator_new (policy_auth_policy (set_authentication s) (set_lock s)),
      d_elevation = set_requester_uid (resolve_elevation_requester (w_db w) (set_elevation s)) em_new,
      d_power_backend = backend_make (power_backend_kind (set_power s)) (mitos_power_socket_path (set_power s)),
      d_socket_path = ipc_socket_path (set_ipc s), d_should_exit = False,
      d_audit_path = configure_audit_log (set_logging s), d_trace = []\<rparr>"

text \<open>What \<open>run\<close> does to the daemon's state before the event loop starts.\<close>

definition daemon_startup :: "world \<Rightarrow> udev \<Rightarrow> settings \<Rightarrow> daemon" where
  "daemon_startup w os s =
     (let d = daemon_new w s;
          seat0 = default_seat (set_seat s);
          d' = d\<lparr>d_seats := ensure_seat seat0 (d_seats d)\<rparr>
      in (case enumerate_devices os of
            Inr devices \<Rightarrow> d'\<lparr>d_seats := set_devices seat0 devices (d_seats d')\<rparr>
          | Inl _ \<Rightarrow> d'))"

subsection \<open>Small helpers\<close>

definition emit :: "effect list \<Rightarrow> daemon \<Rightarrow> daemon" where
  "emit effs d = d\<lparr>d_trace := d_trace d @ effs\<rparr>"

definition audit :: "audit_event \<Rightarrow> daemon \<Rightarrow> daemon" where
  "audit e d = emit [Audit (d_audit_path d) e] d"

definition d_send_event :: "conn_id \<Rightarrow> event \<Rightarrow> daemon \<Rightarrow> daemon" where
  "d_send_event c e d = d\<lparr>d_registry := send_event c e (d_registry d)\<rparr>"

definition d_send_response :: "conn_id \<Rightarrow> response \<Rightarrow> daemon \<Rightarrow> daemon" where
  "d_send_response c r d = d\<lparr>d_registry := send_response c r (d_registry d)\<rparr>"

definition d_modify_session :: "session_id \<Rightarrow> (session_context \<Rightarrow> session_context) \<Rightarrow> daemon \<Rightarrow> daemon" where
  "d_modify_session sid f d = d\<lparr>d_sessions := sm_modify sid f (d_sessions d)\<rparr>"

text \<open>\<open>if let Some(c) = ctx.compositor_conn { registry.send_event(c, event) }\<close>.\<close>

definition notify_compositor :: "session_context \<Rightarrow> event \<Rightarrow> daemon \<Rightarrow> daemon" where
  "notify_compositor ctx e d =
     (case ctx_compositor_conn ctx of None \<Rightarrow> d | Some c \<Rightarrow> d_send_event c e d)"

definition make_session_info :: "session_context \<Rightarrow> session_info" where
  "make_session_info ctx =
     \<lparr>si_id = sess_id (ctx_session ctx), si_uid = sess_uid (ctx_session ctx),
      si_user_name = sess_user_name (ctx_session ctx), si_seat_id = sess_seat_id (ctx_session ctx),
      si_session_type = sess_type (ctx_session ctx), si_state = state_debug (ctx_state ctx),
      si_locked = state_is_locked (ctx_state ctx), si_created_at = sess_created_at (ctx_session ctx)\<rparr>"

definition make_inhibitor_info :: "inhibitor \<Rightarrow> inhibitor_info" where
  "make_inhibitor_info i =
     \<lparr>ii_id = inh_id i, ii_what = inh_what i, ii_who = inh_who i, ii_why = inh_why i, ii_mode = inh_mode i\<rparr>"

subsection \<open>Elevation: prompts closed without an answer\<close>

definition notify_elevation_abandoned :: "world \<Rightarrow> string \<Rightarrow> abandoned_elevation \<Rightarrow> daemon \<Rightarrow> daemon" where
  "notify_elevation_abandoned w reason a d =
     audit (audit_target
              (''session='' @ show_word (ab_session_id a) @ '' request='' @ show_word (ab_request_id a))
              (audit_event_new (w_unix w) 0 ''elevation_abandoned'' reason))
       (d_send_response (ab_requester_conn a) (RAuthResult (AuthError reason))
          (d_send_event (ab_compositor_conn a) (HideElevationPrompt (ab_request_id a)) d))"

definition notify_all_abandoned :: "world \<Rightarrow> string \<Rightarrow> abandoned_elevation list \<Rightarrow> daemon \<Rightarrow> daemon" where
  "notify_all_abandoned w reason as d = fold (notify_elevation_abandoned w reason) as d"

subsection \<open>Compositor processes\<close>

definition try_spawn_compositor :: "world \<Rightarrow> session_id \<Rightarrow> daemon \<Rightarrow> daemon" where
  "try_spawn_compositor w sid d =
     (case sm_get (d_sessions d) sid of
        Inl _ \<Rightarrow> d
      | Inr ctx \<Rightarrow>
          (case spawn_compositor (w_launch w) (ctx_user ctx) (ctx_environment ctx)
                  (compositor_binary (set_session (d_settings d))) of
             (made, Inr pid) \<Rightarrow>
               d_modify_session sid (\<lambda>c. c\<lparr>ctx_compositor_process := Some pid\<rparr>) (emit (map SpawnEffect made) d)
           | (made, Inl _) \<Rightarrow> emit (map SpawnEffect made) d))"

text \<open>\<open>iter_mut().find(...)\<close> for the session whose compositor had this process id.\<close>

definition session_of_pid :: "session_manager \<Rightarrow> u32 \<Rightarrow> session_context option" where
  "session_of_pid m pid = List.find (\<lambda>c. ctx_compositor_process c = Some pid) (sm_list m)"

definition handle_compositor_exit :: "world \<Rightarrow> u32 \<Rightarrow> daemon \<Rightarrow> daemon" where
  "handle_compositor_exit w pid d =
     (case session_of_pid (d_sessions d) pid of
        None \<Rightarrow> d
      | Some ctx \<Rightarrow>
          (let sid = ctx_id ctx;
               restarts = ctx_compositor_restarts ctx;
               d1 = d_modify_session sid
                      (\<lambda>c. c\<lparr>ctx_compositor_process := None, ctx_compositor_conn := None\<rparr>) d;
               d2 = (case ctx_compositor_conn ctx of
                       None \<Rightarrow> d1
                     | Some conn \<Rightarrow> d1\<lparr>d_registry := unregister conn (d_registry d1)\<rparr>);
               d3 = d_modify_session sid (try_transition Starting) d2
           in (case decide_restart restarts (max_compositor_restarts (set_session (d_settings d3))) of
                 Restart \<Rightarrow>
                   try_spawn_compositor w sid
                     (d_modify_session sid (\<lambda>c. c\<lparr>ctx_compositor_restarts := ctx_compositor_restarts c + 1\<rparr>) d3)
               | FallbackToTerminal \<Rightarrow>
                   (case sm_get (d_sessions d3) sid of
                      Inl _ \<Rightarrow> d3
                    | Inr ctx' \<Rightarrow>
                        (case spawn_fallback_terminal (w_launch w) (ctx_user ctx') (ctx_environment ctx') of
                           (made, Inr child) \<Rightarrow>
                             d_modify_session sid (\<lambda>c. c\<lparr>ctx_compositor_process := Some child\<rparr>)
                               (emit (map SpawnEffect made) d3)
                         | (made, Inl _) \<Rightarrow> emit (map SpawnEffect made) d3)))))"

text \<open>
  What successive calls of \<open>waitpid(-1, WNOHANG)\<close> return: nothing has exited, an error (no children
  left), or the status of a child, which in odd cases names no process. The loop ends at the first
  of the former two; a list that is used up stands for an error.
\<close>

datatype wait_status = StillAlive | WaitError | ChildStatus "u32 option"

fun reap_children :: "world \<Rightarrow> wait_status list \<Rightarrow> daemon \<Rightarrow> daemon" where
  "reap_children w [] d = d"
| "reap_children w (StillAlive # rest) d = d"
| "reap_children w (WaitError # rest) d = d"
| "reap_children w (ChildStatus None # rest) d = reap_children w rest d"
| "reap_children w (ChildStatus (Some pid) # rest) d = reap_children w rest (handle_compositor_exit w pid d)"

subsection \<open>Sessions\<close>

definition choose_session_type :: "session_settings \<Rightarrow> string option \<Rightarrow> session_type" where
  "choose_session_type s ty =
     (if ty = Some ''x11'' then X11
      else if ty = Some ''tty'' then Tty
      else sp_default_session_type (session_policy_from s))"

definition create_session ::
  "world \<Rightarrow> peer_cred \<Rightarrow> string \<Rightarrow> string option \<Rightarrow> string option \<Rightarrow> daemon \<Rightarrow> daemon \<times> response" where
  "create_session w peer name seat ty d =
     (case by_name (w_db w) name of
        Inl e \<Rightarrow> (d, RError (error_text e))
      | Inr u \<Rightarrow>
          (let sseat = (case seat of Some s \<Rightarrow> s | None \<Rightarrow> default_seat (set_seat (d_settings d)));
               sty = choose_session_type (set_session (d_settings d)) ty
           in (case sm_create_session (w_fs w) (w_unix w) u sseat sty (set_session (d_settings d)) (d_sessions d) of
                 (sm, made, Inl e) \<Rightarrow>
                   (audit (audit_target name (audit_event_new (w_unix w) (peer_uid peer) ''create_session'' (error_text e)))
                      (emit (map FsEffect made) (d\<lparr>d_sessions := sm\<rparr>)),
                    RError (error_text e))
               | (sm, made, Inr sid) \<Rightarrow>
                   (let d1 = emit (map FsEffect made) (d\<lparr>d_sessions := sm\<rparr>);
                        d2 = d1\<lparr>d_seats := attach_session sseat sid (d_seats d1)\<rparr>;
                        d3 = audit (audit_target name (audit_event_new (w_unix w) (peer_uid peer) ''create_session'' ''ok'')) d2;
                        d4 = (if sty \<noteq> Tty then try_spawn_compositor w sid d3 else d3)
                    in (d4, (case sm_get (d_sessions d4) sid of
                               Inr ctx \<Rightarrow> RSession (make_session_info ctx)
                             | Inl e \<Rightarrow> RError (error_text e)))))))"

definition terminate_session :: "world \<Rightarrow> peer_cred \<Rightarrow> session_id \<Rightarrow> daemon \<Rightarrow> daemon \<times> response" where
  "terminate_session w peer sid d =
     (case sm_terminate_session sid (d_sessions d) of
        (sm, procs, Inl e) \<Rightarrow> (d, RError (error_text e))
      | (sm, procs, Inr _) \<Rightarrow>
          (let d1 = emit (map ProcEffect procs) (d\<lparr>d_sessions := sm\<rparr>);
               d2 = d1\<lparr>d_seats := detach_session sid (d_seats d1)\<rparr>;
               d3 = audit (audit_target (show_word sid)
                       (audit_event_new (w_unix w) (peer_uid peer) ''terminate_session'' ''ok'')) d2
           in (case abandon_session sid (d_elevation d3) of
                 (em, as) \<Rightarrow> (notify_all_abandoned w ''session ended'' as (d3\<lparr>d_elevation := em\<rparr>), ROk))))"

definition register_compositor :: "conn_id \<Rightarrow> session_id \<Rightarrow> daemon \<Rightarrow> daemon \<times> response" where
  "register_compositor conn sid d =
     (case sm_get (d_sessions d) sid of
        Inl e \<Rightarrow> (d, RError (error_text e))
      | Inr _ \<Rightarrow>
          (let d1 = d_modify_session sid (\<lambda>c. c\<lparr>ctx_compositor_conn := Some conn\<rparr>) d
           in if lm_is_locked (d_locks d1) sid then
                (d_send_event conn (ShowLockScreen sid ManualLock)
                   (d_modify_session sid (try_transition Locked) d1), ROk)
              else (d_modify_session sid (try_transition Active) d1, ROk)))"

definition switch_session :: "string \<Rightarrow> session_id \<Rightarrow> daemon \<Rightarrow> daemon \<times> response" where
  "switch_session seat sid d =
     (case switch_active seat sid (d_seats d) of
        (sm, Inl e) \<Rightarrow> (d\<lparr>d_seats := sm\<rparr>, RError (error_text e))
      | (sm, Inr _) \<Rightarrow>
          (let d1 = d\<lparr>d_seats := sm\<rparr>
           in (case sm_get (d_sessions d1) sid of
                 Inr ctx \<Rightarrow> (notify_compositor ctx (SessionActivated seat sid) d1, ROk)
               | Inl _ \<Rightarrow> (d1, ROk))))"

subsection \<open>Locking and unlocking\<close>

text \<open>The part \<open>lock_session\<close> and the idle tick share once the lock manager has accepted.\<close>

definition show_lock :: "session_id \<Rightarrow> lock_reason \<Rightarrow> daemon \<Rightarrow> daemon" where
  "show_lock sid reason d =
     (case sm_get (d_sessions d) sid of
        Inl _ \<Rightarrow> d
      | Inr ctx \<Rightarrow> notify_compositor ctx (ShowLockScreen sid reason) (d_modify_session sid (try_transition Locked) d))"

definition passwordless :: "world \<Rightarrow> session_id \<Rightarrow> daemon \<Rightarrow> bool" where
  "passwordless w sid d =
     (case sm_get (d_sessions d) sid of
        Inl _ \<Rightarrow> False
      | Inr ctx \<Rightarrow> \<not> user_has_password (w_shadow w) (sess_user_name (ctx_session ctx)))"

definition lock_session ::
  "world \<Rightarrow> peer_cred \<Rightarrow> session_id \<Rightarrow> lock_reason \<Rightarrow> daemon \<Rightarrow> daemon \<times> response" where
  "lock_session w peer sid reason d =
     (if passwordless w sid d then (d, RError ''Lock screen disabled: No password set for this user.'')
      else
        (case lm_lock sid (lock_policy_from (set_lock (d_settings d))) (d_locks d) of
           (lm, Inl e) \<Rightarrow> (d\<lparr>d_locks := lm\<rparr>, RError (error_text e))
         | (lm, Inr _) \<Rightarrow>
             (audit (audit_target (show_word sid) (audit_event_new (w_unix w) (peer_uid peer) ''lock_session'' ''ok''))
                (show_lock sid reason (d\<lparr>d_locks := lm\<rparr>)), ROk)))"

definition unlock ::
  "world \<Rightarrow> peer_cred \<Rightarrow> session_id \<Rightarrow> string \<Rightarrow> string \<Rightarrow> daemon \<Rightarrow> daemon \<times> response" where
  "unlock w peer sid name password d =
     (let apolicy = policy_auth_policy (set_authentication (d_settings d)) (set_lock (d_settings d));
          request = \<lparr>req_session_id = sid, req_user_name = name, req_password = password\<rparr>
      in (case attempt_unlock (pam_authenticate (w_pam w) (d_authenticator d)) request apolicy (w_now w) (d_locks d) of
            (lm, outcome) \<Rightarrow>
              (let d1 = d\<lparr>d_locks := lm\<rparr>;
                   d2 = (case sm_get (d_sessions d1) sid of
                           Inl _ \<Rightarrow> d1
                         | Inr ctx \<Rightarrow>
                             if outcome = AuthSuccess then
                               notify_compositor ctx (HideLockScreen sid) (d_modify_session sid (try_transition Active) d1)
                             else notify_compositor ctx (AuthFeedback sid outcome) d1)
               in (audit (audit_target name
                      (audit_event_new (w_unix w) (peer_uid peer) ''unlock_attempt'' (outcome_debug outcome))) d2,
                   RAuthResult outcome))))"

subsection \<open>Elevation\<close>

definition start_elevation ::
  "world \<Rightarrow> conn_id \<Rightarrow> peer_cred \<Rightarrow> session_id \<Rightarrow> elevation_action \<Rightarrow> daemon \<Rightarrow> daemon \<times> response option" where
  "start_elevation w conn peer sid action d =
     (case validate action of
        Inl msg \<Rightarrow> (d, Some (RError msg))
      | Inr _ \<Rightarrow>
          (let epolicy = elevation_policy_from (set_elevation (d_settings d))
           in if \<not> ep_enabled epolicy then (d, Some (RError ''elevation is disabled in config''))
              else
                (case sm_get (d_sessions d) sid of
                   Inl e \<Rightarrow> (d, Some (RError (error_text e)))
                 | Inr ctx \<Rightarrow>
                     if \<not> user_has_password (w_shadow w) (sess_user_name (ctx_session ctx)) then
                       (d, Some (RAuthResult (AuthError ''no password is configured for this account'')))
                     else
                       (case ctx_compositor_conn ctx of
                          None \<Rightarrow> (d, Some (RError ''session has no active display to show the prompt on''))
                        | Some cconn \<Rightarrow>
                            (case em_begin sid cconn conn epolicy
                                    (elevation_auth_policy (set_elevation (d_settings d))) (w_now w) (d_elevation d) of
                               (em, Inl (LockedOutError secs)) \<Rightarrow>
                                 (audit (audit_target (show_word sid)
                                     (audit_event_new (w_unix w) (peer_uid peer) ''elevation_request'' ''locked_out''))
                                    (d\<lparr>d_elevation := em\<rparr>),
                                  Some (RAuthResult (AuthLockedOut secs)))
                             | (em, Inl e) \<Rightarrow> (d\<lparr>d_elevation := em\<rparr>, Some (RError (error_text e)))
                             | (em, Inr rid) \<Rightarrow>
                                 (d_send_event cconn (ShowElevationPrompt rid sid action)
                                    (audit (audit_detail (requesting_app action @ '': '' @ description action)
                                        (audit_target (''session='' @ show_word sid @ '' request='' @ show_word rid)
                                          (audit_event_new (w_unix w) (peer_uid peer) ''elevation_request'' ''prompted'')))
                                       (d\<lparr>d_elevation := em\<rparr>)),
                                  None))))))"

text \<open>What the two connections of a prompt are told once an answer has been checked.\<close>

definition finish_response :: "world \<Rightarrow> peer_cred \<Rightarrow> request_id \<Rightarrow> elevation_outcome \<Rightarrow> daemon \<Rightarrow> daemon" where
  "finish_response w peer rid res d =
     (let d1 = d_send_event (eo_compositor_conn res) (ElevationFeedback rid (eo_outcome res)) d;
          d2 = (if eo_terminal res then
                  d_send_response (eo_requester_conn res) (RAuthResult (eo_outcome res))
                    (d_send_event (eo_compositor_conn res) (HideElevationPrompt rid) d1)
                else d1)
      in audit (audit_target (''session='' @ show_word (eo_session_id res) @ '' request='' @ show_word rid)
             (audit_event_new (w_unix w) (peer_uid peer) ''elevation_response'' (outcome_debug (eo_outcome res)))) d2)"

definition respond_elevation ::
  "world \<Rightarrow> peer_cred \<Rightarrow> request_id \<Rightarrow> elevation_response \<Rightarrow> daemon \<Rightarrow> daemon \<times> response" where
  "respond_elevation w peer rid response d =
     (case peek (d_elevation d) rid of
        None \<Rightarrow> (d, RError (error_text (UnknownElevationRequest rid)))
      | Some info \<Rightarrow>
          (let finish = (\<lambda>em resolved.
                 case resolved of
                   None \<Rightarrow> (d\<lparr>d_elevation := em\<rparr>, RError (error_text (UnknownElevationRequest rid)))
                 | Some res \<Rightarrow> (finish_response w peer rid res (d\<lparr>d_elevation := em\<rparr>), RAuthResult (eo_outcome res)))
           in (case response of
                 CancelPrompt \<Rightarrow> (case em_cancel rid (d_elevation d) of (em, resolved) \<Rightarrow> finish em resolved)
               | Password password \<Rightarrow>
                   (case sm_get (d_sessions d) (pi_session_id info) of
                      Inl e \<Rightarrow> (d, RError (error_text e))
                    | Inr ctx \<Rightarrow>
                        (case em_attempt rid (pam_authenticate (w_pam w) (d_authenticator d))
                                \<lparr>req_session_id = pi_session_id info,
                                 req_user_name = sess_user_name (ctx_session ctx), req_password = password\<rparr>
                                (elevation_auth_policy (set_elevation (d_settings d))) (w_now w) (d_elevation d) of
                           (em, resolved) \<Rightarrow> finish em resolved)))))"

subsection \<open>Power\<close>

definition inhibit_grace :: "daemon \<Rightarrow> duration" where
  "inhibit_grace d = from_secs (suspend_inhibit_grace_secs (set_power (d_settings d)))"

definition do_suspend :: "world \<Rightarrow> daemon \<Rightarrow> daemon \<times> unit result" where
  "do_suspend w d =
     (case power_suspend (w_power w) (d_sessions d) (d_locks d) (lock_policy_from (set_lock (d_settings d)))
             (d_registry d) (d_power_backend d) (inhibit_grace d) of
        (lm, reg, effs, r) \<Rightarrow> (emit effs (d\<lparr>d_locks := lm, d_registry := reg\<rparr>), r))"

definition unit_response :: "unit result \<Rightarrow> response" where
  "unit_response r = (case r of Inr _ \<Rightarrow> ROk | Inl e \<Rightarrow> RError (error_text e))"

definition do_reboot :: "world \<Rightarrow> daemon \<Rightarrow> daemon \<times> unit result" where
  "do_reboot w d =
     (case power_reboot (w_power w) (d_sessions d) (d_locks d) (d_power_backend d) (inhibit_grace d) of
        (sm, effs, r) \<Rightarrow> (emit effs (d\<lparr>d_sessions := sm\<rparr>), r))"

definition do_poweroff :: "world \<Rightarrow> daemon \<Rightarrow> daemon \<times> unit result" where
  "do_poweroff w d =
     (case power_poweroff (w_power w) (d_sessions d) (d_locks d) (d_power_backend d) (inhibit_grace d) of
        (sm, effs, r) \<Rightarrow> (emit effs (d\<lparr>d_sessions := sm\<rparr>), r))"

subsection \<open>Dispatch\<close>

definition reply :: "daemon \<times> response \<Rightarrow> daemon \<times> response option" where
  "reply p = (fst p, Some (snd p))"

fun dispatch :: "world \<Rightarrow> conn_id \<Rightarrow> peer_cred \<Rightarrow> request \<Rightarrow> daemon \<Rightarrow> daemon \<times> response option" where
  "dispatch w conn peer (CreateSession name seat ty) d = reply (create_session w peer name seat ty d)"
| "dispatch w conn peer (TerminateSession sid) d = reply (terminate_session w peer sid d)"
| "dispatch w conn peer (RegisterCompositor sid) d = reply (register_compositor conn sid d)"
| "dispatch w conn peer ListSessions d =
     (d, Some (RSessions (map make_session_info (sm_list (d_sessions d)))))"
| "dispatch w conn peer (SessionStatus sid) d =
     (d, Some (case sm_get (d_sessions d) sid of
                 Inr ctx \<Rightarrow> RSession (make_session_info ctx)
               | Inl e \<Rightarrow> RError (error_text e)))"
| "dispatch w conn peer (LockSession sid) d = reply (lock_session w peer sid ManualLock d)"
| "dispatch w conn peer (Unlock sid name password) d = reply (unlock w peer sid name password d)"
| "dispatch w conn peer (ReportActivity seat) d =
     (d\<lparr>d_idle := record_activity seat (w_now w) (d_idle d)\<rparr>, Some ROk)"
| "dispatch w conn peer (SwitchSession seat sid) d = reply (switch_session seat sid d)"
| "dispatch w conn peer (Inhibit what who why mode) d =
     (case add_inhibitor what who why mode (d_locks d) of
        (lm, i) \<Rightarrow> (d\<lparr>d_locks := lm\<rparr>, Some (RInhibitGranted i)))"
| "dispatch w conn peer (ReleaseInhibit i) d =
     (case release_inhibitor i (d_locks d) of
        (lm, r) \<Rightarrow> (d\<lparr>d_locks := lm\<rparr>, Some (unit_response r)))"
| "dispatch w conn peer ListInhibitors d =
     (d, Some (RInhibitors (map make_inhibitor_info (inhibitor_list (lm_inhibitors (d_locks d))))))"
| "dispatch w conn peer Suspend d = (case do_suspend w d of (d', r) \<Rightarrow> (d', Some (unit_response r)))"
| "dispatch w conn peer Reboot d = (case do_reboot w d of (d', r) \<Rightarrow> (d', Some (unit_response r)))"
| "dispatch w conn peer PowerOff d = (case do_poweroff w d of (d', r) \<Rightarrow> (d', Some (unit_response r)))"
| "dispatch w conn peer (RequestElevation sid action) d = start_elevation w conn peer sid action d"
| "dispatch w conn peer (RespondElevation rid response) d = reply (respond_elevation w peer rid response d)"

definition handle_command :: "world \<Rightarrow> conn_id \<Rightarrow> peer_cred \<Rightarrow> request \<Rightarrow> daemon \<Rightarrow> daemon" where
  "handle_command w conn peer request d =
     (case authorize (w_db w) peer conn request (d_sessions d) (d_elevation d) of
        Inl e \<Rightarrow> d_send_response conn (RError (error_text e)) d
      | Inr _ \<Rightarrow>
          (case dispatch w conn peer request d of
             (d', Some response) \<Rightarrow> d_send_response conn response d'
           | (d', None) \<Rightarrow> d'))"

definition drop_compositor :: "conn_id \<Rightarrow> session_context \<Rightarrow> session_context" where
  "drop_compositor conn ctx =
     (if ctx_compositor_conn ctx = Some conn then ctx\<lparr>ctx_compositor_conn := None\<rparr> else ctx)"

fun handle_ipc :: "world \<Rightarrow> manager_message \<Rightarrow> daemon \<Rightarrow> daemon" where
  "handle_ipc w (Connected conn peer) d = d\<lparr>d_registry := register conn (d_registry d)\<rparr>"
| "handle_ipc w (Disconnected conn) d =
     (let d1 = d\<lparr>d_registry := unregister conn (d_registry d),
                d_sessions := sm_map_all (drop_compositor conn) (d_sessions d)\<rparr>
      in (case abandon_connection conn (d_elevation d1) of
            (em, as) \<Rightarrow>
              notify_all_abandoned w ''a required connection disconnected'' as (d1\<lparr>d_elevation := em\<rparr>)))"
| "handle_ipc w (Command conn peer request) d = handle_command w conn peer request d"

subsection \<open>The tick\<close>

definition notify_active_compositor :: "string \<Rightarrow> event \<Rightarrow> daemon \<Rightarrow> daemon" where
  "notify_active_compositor seat e d =
     (case seat_active_session (d_seats d) seat of
        Inr (Some sid) \<Rightarrow>
          (case sm_get (d_sessions d) sid of Inr ctx \<Rightarrow> notify_compositor ctx e d | Inl _ \<Rightarrow> d)
      | _ \<Rightarrow> d)"

definition idle_lock :: "world \<Rightarrow> lock_policy \<Rightarrow> string \<Rightarrow> daemon \<Rightarrow> daemon" where
  "idle_lock w policy seat d =
     (if \<not> lp_lock_on_idle policy then d
      else
        (case seat_active_session (d_seats d) seat of
           Inr (Some sid) \<Rightarrow>
             if passwordless w sid d then d
             else (case lm_lock sid policy (d_locks d) of
                     (lm, Inr _) \<Rightarrow> show_lock sid IdleLock (d\<lparr>d_locks := lm\<rparr>)
                   | (lm, Inl _) \<Rightarrow> d\<lparr>d_locks := lm\<rparr>)
         | _ \<Rightarrow> d))"

definition handle_idle_change :: "world \<Rightarrow> lock_policy \<Rightarrow> string \<times> idle_stage \<Rightarrow> daemon \<Rightarrow> daemon" where
  "handle_idle_change w policy change d =
     (case snd change of
        StageActive \<Rightarrow> d
      | StageDimmed \<Rightarrow> notify_active_compositor (fst change) (Dim (fst change)) d
      | LockRequested \<Rightarrow> idle_lock w policy (fst change) d
      | SuspendRequested \<Rightarrow> fst (do_suspend w d))"

definition on_idle_tick :: "world \<Rightarrow> daemon \<Rightarrow> daemon" where
  "on_idle_tick w d =
     (let now = w_now w;
          lpolicy = lock_policy_from (set_lock (d_settings d))
      in (case tick now (idle_policy_from (set_idle (d_settings d))) (d_idle d) of
            (det, changes) \<Rightarrow>
              (let d1 = fold (handle_idle_change w lpolicy) changes (d\<lparr>d_idle := det\<rparr>)
               in (case expired_lockouts (lm_timeouts (d_locks d1)) now of
                     (t, sids) \<Rightarrow>
                       (let d2 = d1\<lparr>d_locks := fold clear_lockout sids ((d_locks d1)\<lparr>lm_timeouts := t\<rparr>)\<rparr>;
                            d3 = d2\<lparr>d_elevation := clear_expired_lockouts now (d_elevation d2)\<rparr>
                        in (case expire_pending now (d_elevation d3) of
                              (em, as) \<Rightarrow>
                                notify_all_abandoned w ''timed out waiting for a response'' as
                                  (d3\<lparr>d_elevation := em\<rparr>)))))))"

subsection \<open>Signals\<close>

definition reload_config :: "world \<Rightarrow> daemon \<Rightarrow> daemon" where
  "reload_config w d =
     (case load (w_config w) None of
        Inl _ \<Rightarrow> d
      | Inr s \<Rightarrow>
          d\<lparr>d_authenticator := pam_authenticator_new (policy_auth_policy (set_authentication s) (set_lock s)),
            d_elevation := set_requester_uid (resolve_elevation_requester (w_db w) (set_elevation s)) (d_elevation d),
            d_audit_path := configure_audit_log (set_logging s),
            d_settings := s\<rparr>)"

fun on_signal :: "world \<Rightarrow> wait_status list \<Rightarrow> signal_event \<Rightarrow> daemon \<Rightarrow> daemon" where
  "on_signal w ws Terminate d =
     (let d1 = emit [SdNotify ''STOPPING=1''] d
      in (case graceful_shutdown (w_exists w) (w_remove w) (d_socket_path d1) (d_sessions d1) of
            (sm, effs, _) \<Rightarrow> emit effs (d1\<lparr>d_sessions := sm, d_should_exit := True\<rparr>)))"
| "on_signal w ws ReloadConfig d = reload_config w d"
| "on_signal w ws ReapChildren d = reap_children w ws d"

subsection \<open>One event of the loop\<close>

datatype loop_event =
    IpcEvent manager_message
  | TickEvent
  | SignalEvent posix_signal "wait_status list"

fun daemon_event :: "world \<Rightarrow> loop_event \<Rightarrow> daemon \<Rightarrow> daemon" where
  "daemon_event w (IpcEvent msg) d = handle_ipc w msg d"
| "daemon_event w TickEvent d = on_idle_tick w d"
| "daemon_event w (SignalEvent sig ws) d =
     (case classify_signal sig of None \<Rightarrow> d | Some ev \<Rightarrow> on_signal w ws ev d)"

end
