(* ===== verification/Daemon_Lemmas.thy ===== *)
theory Daemon_Lemmas
  imports Daemon
begin

section \<open>What the daemon's handlers leave alone\<close>

text \<open>
  Frame rules for the helpers of \<open>Daemon\<close>, one rule per field a helper does not touch, and the
  vocabulary the properties use: the messages a connection has been sent, the number of replies
  among them, and the prompts that still owe a reply.
\<close>

subsection \<open>Replies sent and owed\<close>

fun is_response :: "message \<Rightarrow> bool" where
  "is_response (ResponseMsg _) = True"
| "is_response (EventMsg _) = False"

definition replies :: "conn_registry \<Rightarrow> conn_id \<Rightarrow> nat" where
  "replies reg c = length (filter is_response (sent_to reg c))"

definition owed :: "elevation_manager \<Rightarrow> conn_id \<Rightarrow> nat" where
  "owed em c = hm_count (\<lambda>p. pe_requester_conn p = c) (em_pending em)"

text \<open>A registry change that sends events only.\<close>

definition quiet :: "conn_registry \<Rightarrow> conn_registry \<Rightarrow> bool" where
  "quiet reg reg' \<longleftrightarrow>
     (\<forall>c. registered reg' c = registered reg c
        \<and> filter is_response (sent_to reg' c) = filter is_response (sent_to reg c))
     \<and> hm_ok (outboxes reg') = hm_ok (outboxes reg)"

text \<open>Every session that was locked still is.\<close>

definition locks_kept :: "daemon \<Rightarrow> daemon \<Rightarrow> bool" where
  "locks_kept d d' \<longleftrightarrow> (\<forall>sid. lm_is_locked (d_locks d) sid \<longrightarrow> lm_is_locked (d_locks d') sid)"

subsection \<open>Frame rules\<close>

lemma emit_frame [simp]:
  "d_settings (emit effs d) = d_settings d"
  "d_sessions (emit effs d) = d_sessions d"
  "d_seats (emit effs d) = d_seats d"
  "d_locks (emit effs d) = d_locks d"
  "d_idle (emit effs d) = d_idle d"
  "d_registry (emit effs d) = d_registry d"
  "d_authenticator (emit effs d) = d_authenticator d"
  "d_elevation (emit effs d) = d_elevation d"
  "d_power_backend (emit effs d) = d_power_backend d"
  "d_socket_path (emit effs d) = d_socket_path d"
  "d_should_exit (emit effs d) = d_should_exit d"
  "d_audit_path (emit effs d) = d_audit_path d"
  by (simp_all add: emit_def)

lemma audit_frame [simp]:
  "d_settings (audit e d) = d_settings d"
  "d_sessions (audit e d) = d_sessions d"
  "d_seats (audit e d) = d_seats d"
  "d_locks (audit e d) = d_locks d"
  "d_idle (audit e d) = d_idle d"
  "d_registry (audit e d) = d_registry d"
  "d_authenticator (audit e d) = d_authenticator d"
  "d_elevation (audit e d) = d_elevation d"
  "d_power_backend (audit e d) = d_power_backend d"
  "d_socket_path (audit e d) = d_socket_path d"
  "d_should_exit (audit e d) = d_should_exit d"
  "d_audit_path (audit e d) = d_audit_path d"
  by (simp_all add: audit_def)

lemma d_send_event_frame [simp]:
  "d_settings (d_send_event c e d) = d_settings d"
  "d_sessions (d_send_event c e d) = d_sessions d"
  "d_seats (d_send_event c e d) = d_seats d"
  "d_locks (d_send_event c e d) = d_locks d"
  "d_idle (d_send_event c e d) = d_idle d"
  "d_authenticator (d_send_event c e d) = d_authenticator d"
  "d_elevation (d_send_event c e d) = d_elevation d"
  "d_power_backend (d_send_event c e d) = d_power_backend d"
  "d_socket_path (d_send_event c e d) = d_socket_path d"
  "d_should_exit (d_send_event c e d) = d_should_exit d"
  "d_audit_path (d_send_event c e d) = d_audit_path d"
  "d_trace (d_send_event c e d) = d_trace d"
  by (simp_all add: d_send_event_def)

lemma d_send_response_frame [simp]:
  "d_settings (d_send_response c r d) = d_settings d"
  "d_sessions (d_send_response c r d) = d_sessions d"
  "d_seats (d_send_response c r d) = d_seats d"
  "d_locks (d_send_response c r d) = d_locks d"
  "d_idle (d_send_response c r d) = d_idle d"
  "d_authenticator (d_send_response c r d) = d_authenticator d"
  "d_elevation (d_send_response c r d) = d_elevation d"
  "d_power_backend (d_send_response c r d) = d_power_backend d"
  "d_socket_path (d_send_response c r d) = d_socket_path d"
  "d_should_exit (d_send_response c r d) = d_should_exit d"
  "d_audit_path (d_send_response c r d) = d_audit_path d"
  "d_trace (d_send_response c r d) = d_trace d"
  by (simp_all add: d_send_response_def)

lemma d_modify_session_frame [simp]:
  "d_settings (d_modify_session sid f d) = d_settings d"
  "d_seats (d_modify_session sid f d) = d_seats d"
  "d_locks (d_modify_session sid f d) = d_locks d"
  "d_idle (d_modify_session sid f d) = d_idle d"
  "d_registry (d_modify_session sid f d) = d_registry d"
  "d_authenticator (d_modify_session sid f d) = d_authenticator d"
  "d_elevation (d_modify_session sid f d) = d_elevation d"
  "d_power_backend (d_modify_session sid f d) = d_power_backend d"
  "d_socket_path (d_modify_session sid f d) = d_socket_path d"
  "d_should_exit (d_modify_session sid f d) = d_should_exit d"
  "d_audit_path (d_modify_session sid f d) = d_audit_path d"
  "d_trace (d_modify_session sid f d) = d_trace d"
  by (simp_all add: d_modify_session_def)

lemma notify_compositor_frame [simp]:
  "d_settings (notify_compositor ctx e d) = d_settings d"
  "d_sessions (notify_compositor ctx e d) = d_sessions d"
  "d_seats (notify_compositor ctx e d) = d_seats d"
  "d_locks (notify_compositor ctx e d) = d_locks d"
  "d_idle (notify_compositor ctx e d) = d_idle d"
  "d_authenticator (notify_compositor ctx e d) = d_authenticator d"
  "d_elevation (notify_compositor ctx e d) = d_elevation d"
  "d_power_backend (notify_compositor ctx e d) = d_power_backend d"
  "d_socket_path (notify_compositor ctx e d) = d_socket_path d"
  "d_should_exit (notify_compositor ctx e d) = d_should_exit d"
  "d_audit_path (notify_compositor ctx e d) = d_audit_path d"
  "d_trace (notify_compositor ctx e d) = d_trace d"
  by (simp_all add: notify_compositor_def split: option.split)

lemma notify_elevation_abandoned_frame [simp]:
  "d_settings (notify_elevation_abandoned w reason a d) = d_settings d"
  "d_sessions (notify_elevation_abandoned w reason a d) = d_sessions d"
  "d_seats (notify_elevation_abandoned w reason a d) = d_seats d"
  "d_locks (notify_elevation_abandoned w reason a d) = d_locks d"
  "d_idle (notify_elevation_abandoned w reason a d) = d_idle d"
  "d_authenticator (notify_elevation_abandoned w reason a d) = d_authenticator d"
  "d_elevation (notify_elevation_abandoned w reason a d) = d_elevation d"
  "d_power_backend (notify_elevation_abandoned w reason a d) = d_power_backend d"
  "d_socket_path (notify_elevation_abandoned w reason a d) = d_socket_path d"
  "d_should_exit (notify_elevation_abandoned w reason a d) = d_should_exit d"
  "d_audit_path (notify_elevation_abandoned w reason a d) = d_audit_path d"
  by (simp_all add: notify_elevation_abandoned_def)

lemma notify_all_abandoned_frame [simp]:
  "d_settings (notify_all_abandoned w reason as d) = d_settings d"
  "d_sessions (notify_all_abandoned w reason as d) = d_sessions d"
  "d_seats (notify_all_abandoned w reason as d) = d_seats d"
  "d_locks (notify_all_abandoned w reason as d) = d_locks d"
  "d_idle (notify_all_abandoned w reason as d) = d_idle d"
  "d_authenticator (notify_all_abandoned w reason as d) = d_authenticator d"
  "d_elevation (notify_all_abandoned w reason as d) = d_elevation d"
  "d_power_backend (notify_all_abandoned w reason as d) = d_power_backend d"
  "d_socket_path (notify_all_abandoned w reason as d) = d_socket_path d"
  "d_should_exit (notify_all_abandoned w reason as d) = d_should_exit d"
  "d_audit_path (notify_all_abandoned w reason as d) = d_audit_path d"
  unfolding notify_all_abandoned_def by (induction as arbitrary: d) simp_all

lemma try_spawn_compositor_frame [simp]:
  "d_settings (try_spawn_compositor w sid d) = d_settings d"
  "d_seats (try_spawn_compositor w sid d) = d_seats d"
  "d_locks (try_spawn_compositor w sid d) = d_locks d"
  "d_idle (try_spawn_compositor w sid d) = d_idle d"
  "d_registry (try_spawn_compositor w sid d) = d_registry d"
  "d_authenticator (try_spawn_compositor w sid d) = d_authenticator d"
  "d_elevation (try_spawn_compositor w sid d) = d_elevation d"
  "d_power_backend (try_spawn_compositor w sid d) = d_power_backend d"
  "d_socket_path (try_spawn_compositor w sid d) = d_socket_path d"
  "d_should_exit (try_spawn_compositor w sid d) = d_should_exit d"
  "d_audit_path (try_spawn_compositor w sid d) = d_audit_path d"
  by (simp_all add: try_spawn_compositor_def split: sum.split prod.split)

lemma show_lock_frame [simp]:
  "d_settings (show_lock sid reason d) = d_settings d"
  "d_seats (show_lock sid reason d) = d_seats d"
  "d_locks (show_lock sid reason d) = d_locks d"
  "d_idle (show_lock sid reason d) = d_idle d"
  "d_authenticator (show_lock sid reason d) = d_authenticator d"
  "d_elevation (show_lock sid reason d) = d_elevation d"
  "d_power_backend (show_lock sid reason d) = d_power_backend d"
  "d_socket_path (show_lock sid reason d) = d_socket_path d"
  "d_should_exit (show_lock sid reason d) = d_should_exit d"
  "d_audit_path (show_lock sid reason d) = d_audit_path d"
  "d_trace (show_lock sid reason d) = d_trace d"
  by (simp_all add: show_lock_def split: sum.split)

lemma notify_active_compositor_frame [simp]:
  "d_settings (notify_active_compositor seat e d) = d_settings d"
  "d_sessions (notify_active_compositor seat e d) = d_sessions d"
  "d_seats (notify_active_compositor seat e d) = d_seats d"
  "d_locks (notify_active_compositor seat e d) = d_locks d"
  "d_idle (notify_active_compositor seat e d) = d_idle d"
  "d_authenticator (notify_active_compositor seat e d) = d_authenticator d"
  "d_elevation (notify_active_compositor seat e d) = d_elevation d"
  "d_power_backend (notify_active_compositor seat e d) = d_power_backend d"
  "d_socket_path (notify_active_compositor seat e d) = d_socket_path d"
  "d_should_exit (notify_active_compositor seat e d) = d_should_exit d"
  "d_audit_path (notify_active_compositor seat e d) = d_audit_path d"
  "d_trace (notify_active_compositor seat e d) = d_trace d"
  by (simp_all add: notify_active_compositor_def split: sum.split option.split)

lemma finish_response_frame [simp]:
  "d_settings (finish_response w peer rid res d) = d_settings d"
  "d_sessions (finish_response w peer rid res d) = d_sessions d"
  "d_seats (finish_response w peer rid res d) = d_seats d"
  "d_locks (finish_response w peer rid res d) = d_locks d"
  "d_idle (finish_response w peer rid res d) = d_idle d"
  "d_authenticator (finish_response w peer rid res d) = d_authenticator d"
  "d_elevation (finish_response w peer rid res d) = d_elevation d"
  "d_power_backend (finish_response w peer rid res d) = d_power_backend d"
  "d_socket_path (finish_response w peer rid res d) = d_socket_path d"
  "d_should_exit (finish_response w peer rid res d) = d_should_exit d"
  "d_audit_path (finish_response w peer rid res d) = d_audit_path d"
  by (simp_all add: finish_response_def Let_def)

lemma handle_compositor_exit_frame [simp]:
  "d_settings (handle_compositor_exit w pid d) = d_settings d"
  "d_seats (handle_compositor_exit w pid d) = d_seats d"
  "d_locks (handle_compositor_exit w pid d) = d_locks d"
  "d_idle (handle_compositor_exit w pid d) = d_idle d"
  "d_authenticator (handle_compositor_exit w pid d) = d_authenticator d"
  "d_elevation (handle_compositor_exit w pid d) = d_elevation d"
  "d_power_backend (handle_compositor_exit w pid d) = d_power_backend d"
  "d_socket_path (handle_compositor_exit w pid d) = d_socket_path d"
  "d_should_exit (handle_compositor_exit w pid d) = d_should_exit d"
  "d_audit_path (handle_compositor_exit w pid d) = d_audit_path d"
  by (simp_all add: handle_compositor_exit_def Let_def
      split: option.split sum.split prod.split restart_decision.split)

lemma do_suspend_frame [simp]:
  "d_settings (fst (do_suspend w d)) = d_settings d"
  "d_sessions (fst (do_suspend w d)) = d_sessions d"
  "d_seats (fst (do_suspend w d)) = d_seats d"
  "d_idle (fst (do_suspend w d)) = d_idle d"
  "d_authenticator (fst (do_suspend w d)) = d_authenticator d"
  "d_elevation (fst (do_suspend w d)) = d_elevation d"
  "d_power_backend (fst (do_suspend w d)) = d_power_backend d"
  "d_socket_path (fst (do_suspend w d)) = d_socket_path d"
  "d_should_exit (fst (do_suspend w d)) = d_should_exit d"
  "d_audit_path (fst (do_suspend w d)) = d_audit_path d"
  by (simp_all add: do_suspend_def split_def)

lemma do_reboot_frame [simp]:
  "d_settings (fst (do_reboot w d)) = d_settings d"
  "d_seats (fst (do_reboot w d)) = d_seats d"
  "d_locks (fst (do_reboot w d)) = d_locks d"
  "d_idle (fst (do_reboot w d)) = d_idle d"
  "d_registry (fst (do_reboot w d)) = d_registry d"
  "d_authenticator (fst (do_reboot w d)) = d_authenticator d"
  "d_elevation (fst (do_reboot w d)) = d_elevation d"
  "d_power_backend (fst (do_reboot w d)) = d_power_backend d"
  "d_socket_path (fst (do_reboot w d)) = d_socket_path d"
  "d_should_exit (fst (do_reboot w d)) = d_should_exit d"
  "d_audit_path (fst (do_reboot w d)) = d_audit_path d"
  by (simp_all add: do_reboot_def split_def)

lemma do_poweroff_frame [simp]:
  "d_settings (fst (do_poweroff w d)) = d_settings d"
  "d_seats (fst (do_poweroff w d)) = d_seats d"
  "d_locks (fst (do_poweroff w d)) = d_locks d"
  "d_idle (fst (do_poweroff w d)) = d_idle d"
  "d_registry (fst (do_poweroff w d)) = d_registry d"
  "d_authenticator (fst (do_poweroff w d)) = d_authenticator d"
  "d_elevation (fst (do_poweroff w d)) = d_elevation d"
  "d_power_backend (fst (do_poweroff w d)) = d_power_backend d"
  "d_socket_path (fst (do_poweroff w d)) = d_socket_path d"
  "d_should_exit (fst (do_poweroff w d)) = d_should_exit d"
  "d_audit_path (fst (do_poweroff w d)) = d_audit_path d"
  by (simp_all add: do_poweroff_def split_def)

lemma create_session_frame [simp]:
  "d_settings (fst (create_session w peer name seat ty d)) = d_settings d"
  "d_locks (fst (create_session w peer name seat ty d)) = d_locks d"
  "d_idle (fst (create_session w peer name seat ty d)) = d_idle d"
  "d_registry (fst (create_session w peer name seat ty d)) = d_registry d"
  "d_authenticator (fst (create_session w peer name seat ty d)) = d_authenticator d"
  "d_elevation (fst (create_session w peer name seat ty d)) = d_elevation d"
  "d_power_backend (fst (create_session w peer name seat ty d)) = d_power_backend d"
  "d_socket_path (fst (create_session w peer name seat ty d)) = d_socket_path d"
  "d_should_exit (fst (create_session w peer name seat ty d)) = d_should_exit d"
  "d_audit_path (fst (create_session w peer name seat ty d)) = d_audit_path d"
  by (simp_all add: create_session_def Let_def split: sum.split prod.split)

lemma terminate_session_frame [simp]:
  "d_settings (fst (terminate_session w peer sid d)) = d_settings d"
  "d_locks (fst (terminate_session w peer sid d)) = d_locks d"
  "d_idle (fst (terminate_session w peer sid d)) = d_idle d"
  "d_authenticator (fst (terminate_session w peer sid d)) = d_authenticator d"
  "d_power_backend (fst (terminate_session w peer sid d)) = d_power_backend d"
  "d_socket_path (fst (terminate_session w peer sid d)) = d_socket_path d"
  "d_should_exit (fst (terminate_session w peer sid d)) = d_should_exit d"
  "d_audit_path (fst (terminate_session w peer sid d)) = d_audit_path d"
  by (simp_all add: terminate_session_def Let_def split: sum.split prod.split)

lemma register_compositor_frame [simp]:
  "d_settings (fst (register_compositor conn sid d)) = d_settings d"
  "d_seats (fst (register_compositor conn sid d)) = d_seats d"
  "d_locks (fst (register_compositor conn sid d)) = d_locks d"
  "d_idle (fst (register_compositor conn sid d)) = d_idle d"
  "d_authenticator (fst (register_compositor conn sid d)) = d_authenticator d"
  "d_elevation (fst (register_compositor conn sid d)) = d_elevation d"
  "d_power_backend (fst (register_compositor conn sid d)) = d_power_backend d"
  "d_socket_path (fst (register_compositor conn sid d)) = d_socket_path d"
  "d_should_exit (fst (register_compositor conn sid d)) = d_should_exit d"
  "d_audit_path (fst (register_compositor conn sid d)) = d_audit_path d"
  "d_trace (fst (register_compositor conn sid d)) = d_trace d"
  by (simp_all add: register_compositor_def Let_def split: sum.split)

lemma switch_session_frame [simp]:
  "d_settings (fst (switch_session seat sid d)) = d_settings d"
  "d_sessions (fst (switch_session seat sid d)) = d_sessions d"
  "d_locks (fst (switch_session seat sid d)) = d_locks d"
  "d_idle (fst (switch_session seat sid d)) = d_idle d"
  "d_authenticator (fst (switch_session seat sid d)) = d_authenticator d"
  "d_elevation (fst (switch_session seat sid d)) = d_elevation d"
  "d_power_backend (fst (switch_session seat sid d)) = d_power_backend d"
  "d_socket_path (fst (switch_session seat sid d)) = d_socket_path d"
  "d_should_exit (fst (switch_session seat sid d)) = d_should_exit d"
  "d_audit_path (fst (switch_session seat sid d)) = d_audit_path d"
  "d_trace (fst (switch_session seat sid d)) = d_trace d"
  by (simp_all add: switch_session_def Let_def split: sum.split prod.split)

lemma lock_session_frame [simp]:
  "d_settings (fst (lock_session w peer sid reason d)) = d_settings d"
  "d_seats (fst (lock_session w peer sid reason d)) = d_seats d"
  "d_idle (fst (lock_session w peer sid reason d)) = d_idle d"
  "d_authenticator (fst (lock_session w peer sid reason d)) = d_authenticator d"
  "d_elevation (fst (lock_session w peer sid reason d)) = d_elevation d"
  "d_power_backend (fst (lock_session w peer sid reason d)) = d_power_backend d"
  "d_socket_path (fst (lock_session w peer sid reason d)) = d_socket_path d"
  "d_should_exit (fst (lock_session w peer sid reason d)) = d_should_exit d"
  "d_audit_path (fst (lock_session w peer sid reason d)) = d_audit_path d"
  by (simp_all add: lock_session_def split: sum.split prod.split)

lemma unlock_frame [simp]:
  "d_settings (fst (unlock w peer sid name password d)) = d_settings d"
  "d_seats (fst (unlock w peer sid name password d)) = d_seats d"
  "d_idle (fst (unlock w peer sid name password d)) = d_idle d"
  "d_authenticator (fst (unlock w peer sid name password d)) = d_authenticator d"
  "d_elevation (fst (unlock w peer sid name password d)) = d_elevation d"
  "d_power_backend (fst (unlock w peer sid name password d)) = d_power_backend d"
  "d_socket_path (fst (unlock w peer sid name password d)) = d_socket_path d"
  "d_should_exit (fst (unlock w peer sid name password d)) = d_should_exit d"
  "d_audit_path (fst (unlock w peer sid name password d)) = d_audit_path d"
  by (simp_all add: unlock_def Let_def split: sum.split prod.split)

lemma start_elevation_frame [simp]:
  "d_settings (fst (start_elevation w conn peer sid action d)) = d_settings d"
  "d_sessions (fst (start_elevation w conn peer sid action d)) = d_sessions d"
  "d_seats (fst (start_elevation w conn peer sid action d)) = d_seats d"
  "d_locks (fst (start_elevation w conn peer sid action d)) = d_locks d"
  "d_idle (fst (start_elevation w conn peer sid action d)) = d_idle d"
  "d_authenticator (fst (start_elevation w conn peer sid action d)) = d_authenticator d"
  "d_power_backend (fst (start_elevation w conn peer sid action d)) = d_power_backend d"
  "d_socket_path (fst (start_elevation w conn peer sid action d)) = d_socket_path d"
  "d_should_exit (fst (start_elevation w conn peer sid action d)) = d_should_exit d"
  "d_audit_path (fst (start_elevation w conn peer sid action d)) = d_audit_path d"
  by (simp_all add: start_elevation_def Let_def
      split: sum.split prod.split option.split session_error.split)

lemma respond_elevation_frame [simp]:
  "d_settings (fst (respond_elevation w peer rid response d)) = d_settings d"
  "d_sessions (fst (respond_elevation w peer rid response d)) = d_sessions d"
  "d_seats (fst (respond_elevation w peer rid response d)) = d_seats d"
  "d_locks (fst (respond_elevation w peer rid response d)) = d_locks d"
  "d_idle (fst (respond_elevation w peer rid response d)) = d_idle d"
  "d_authenticator (fst (respond_elevation w peer rid response d)) = d_authenticator d"
  "d_power_backend (fst (respond_elevation w peer rid response d)) = d_power_backend d"
  "d_socket_path (fst (respond_elevation w peer rid response d)) = d_socket_path d"
  "d_should_exit (fst (respond_elevation w peer rid response d)) = d_should_exit d"
  "d_audit_path (fst (respond_elevation w peer rid response d)) = d_audit_path d"
  by (simp_all add: respond_elevation_def Let_def
      split: sum.split prod.split option.split elevation_response.split)

lemma idle_lock_frame [simp]:
  "d_settings (idle_lock w policy seat d) = d_settings d"
  "d_seats (idle_lock w policy seat d) = d_seats d"
  "d_idle (idle_lock w policy seat d) = d_idle d"
  "d_authenticator (idle_lock w policy seat d) = d_authenticator d"
  "d_elevation (idle_lock w policy seat d) = d_elevation d"
  "d_power_backend (idle_lock w policy seat d) = d_power_backend d"
  "d_socket_path (idle_lock w policy seat d) = d_socket_path d"
  "d_should_exit (idle_lock w policy seat d) = d_should_exit d"
  "d_audit_path (idle_lock w policy seat d) = d_audit_path d"
  "d_trace (idle_lock w policy seat d) = d_trace d"
  by (simp_all add: idle_lock_def split: sum.split prod.split option.split)

lemma handle_idle_change_frame [simp]:
  "d_settings (handle_idle_change w policy change d) = d_settings d"
  "d_seats (handle_idle_change w policy change d) = d_seats d"
  "d_idle (handle_idle_change w policy change d) = d_idle d"
  "d_authenticator (handle_idle_change w policy change d) = d_authenticator d"
  "d_elevation (handle_idle_change w policy change d) = d_elevation d"
  "d_power_backend (handle_idle_change w policy change d) = d_power_backend d"
  "d_socket_path (handle_idle_change w policy change d) = d_socket_path d"
  "d_should_exit (handle_idle_change w policy change d) = d_should_exit d"
  "d_audit_path (handle_idle_change w policy change d) = d_audit_path d"
  by (simp_all add: handle_idle_change_def split: idle_stage.split)

lemma fold_idle_frame [simp]:
  "d_settings (fold (handle_idle_change w policy) changes d) = d_settings d"
  "d_seats (fold (handle_idle_change w policy) changes d) = d_seats d"
  "d_idle (fold (handle_idle_change w policy) changes d) = d_idle d"
  "d_authenticator (fold (handle_idle_change w policy) changes d) = d_authenticator d"
  "d_elevation (fold (handle_idle_change w policy) changes d) = d_elevation d"
  "d_power_backend (fold (handle_idle_change w policy) changes d) = d_power_backend d"
  "d_socket_path (fold (handle_idle_change w policy) changes d) = d_socket_path d"
  "d_should_exit (fold (handle_idle_change w policy) changes d) = d_should_exit d"
  "d_audit_path (fold (handle_idle_change w policy) changes d) = d_audit_path d"
  by (induction changes arbitrary: d) simp_all

lemma reap_children_frame [simp]:
  "d_settings (reap_children w ws d) = d_settings d"
  "d_seats (reap_children w ws d) = d_seats d"
  "d_locks (reap_children w ws d) = d_locks d"
  "d_idle (reap_children w ws d) = d_idle d"
  "d_authenticator (reap_children w ws d) = d_authenticator d"
  "d_elevation (reap_children w ws d) = d_elevation d"
  "d_power_backend (reap_children w ws d) = d_power_backend d"
  "d_socket_path (reap_children w ws d) = d_socket_path d"
  "d_should_exit (reap_children w ws d) = d_should_exit d"
  "d_audit_path (reap_children w ws d) = d_audit_path d"
  by (induction w ws d rule: reap_children.induct) simp_all

end
