(* ===== verification/Daemon_Security.thy ===== *)
theory Daemon_Security
  imports Daemon_Lemmas
begin

section \<open>Security of the daemon, one event at a time\<close>

text \<open>
  Statements about one call of \<open>daemon_event\<close> in an arbitrary state and world: who can release a
  lock, what an unauthorized request changes, that every request is answered exactly once, and
  what a success reply proves. The first part collects what each handler does to locks, replies
  and open prompts.
\<close>

subsection \<open>Replies\<close>

definition responses :: "conn_registry \<Rightarrow> conn_id \<Rightarrow> message list" where
  "responses reg c = filter is_response (sent_to reg c)"

text \<open>The prompts a list of closed prompts reports to a requester.\<close>

definition reported_to :: "conn_id \<Rightarrow> abandoned_elevation list \<Rightarrow> nat" where
  "reported_to c as = length (filter (\<lambda>a. ab_requester_conn a = c) as)"

text \<open>The prompt answers that carry a password, with the request \<open>respond_elevation\<close> makes of it.\<close>

definition prompt_request :: "daemon \<Rightarrow> request_id \<Rightarrow> string \<Rightarrow> auth_request option" where
  "prompt_request d rid password =
     (case hm_get (em_pending (d_elevation d)) rid of
        None \<Rightarrow> None
      | Some pe \<Rightarrow>
          (case hm_get (sm_sessions (d_sessions d)) (pe_session_id pe) of
             None \<Rightarrow> None
           | Some ctx \<Rightarrow> Some \<lparr>req_session_id = pe_session_id pe,
                               req_user_name = sess_user_name (ctx_session ctx), req_password = password\<rparr>))"

text \<open>The success replies a connection has been sent.\<close>

definition success_replies :: "conn_registry \<Rightarrow> conn_id \<Rightarrow> nat" where
  "success_replies reg c = length (filter (\<lambda>m. m = ResponseMsg (RAuthResult AuthSuccess)) (sent_to reg c))"

subsection \<open>A concrete daemon, for the examples\<close>

definition sample_pam :: pam where
  "sample_pam =
     \<lparr>pam_with_password = (\<lambda>_. Inr ()),
      pam_client_authenticate = (\<lambda>_ u p. if (u = ''alice'' \<and> p = ''hunter2'') \<or> (u = ''mallory'' \<and> p = ''m'')
                                        then Inr () else Inl ''denied''),
      pam_client_open_session = (\<lambda>_ _ _. Inr ())\<rparr>"

definition sample_config :: config_os where
  "sample_config = \<lparr>env_config_path = None, path_exists = (\<lambda>_. False), read_file = (\<lambda>_. Inr []), toml_from_str = (\<lambda>_. Inl [])\<rparr>"

definition sample_world :: world where
  "sample_world =
     \<lparr>w_now = 0, w_unix = 0, w_db = sample_db, w_shadow = None,
      w_group_file = Inr [], w_fs = sample_fs, w_spawn = (\<lambda>_. Inr 4242), w_pam = sample_pam,
      w_power = sample_power_os, w_config = sample_config, w_exists = (\<lambda>_. False), w_remove = (\<lambda>_. Inr ())\<rparr>"

definition root_cred :: peer_cred where
  "root_cred = \<lparr>peer_uid = 0, peer_gid = 0, peer_pid = 1\<rparr>"

definition alice_cred :: peer_cred where
  "alice_cred = \<lparr>peer_uid = 1000, peer_gid = 1000, peer_pid = 2\<rparr>"

definition mallory_cred :: peer_cred where
  "mallory_cred = \<lparr>peer_uid = 1001, peer_gid = 1001, peer_pid = 3\<rparr>"

definition run_events :: "loop_event list \<Rightarrow> daemon \<Rightarrow> daemon" where
  "run_events evs d = fold (daemon_event sample_world) evs d"

definition sample_udev :: udev where
  "sample_udev = \<lparr>enumerator_new = Inr (), match_subsystem = (\<lambda>_. Inr ()), scan_devices = (\<lambda>_. Inr [])\<rparr>"

definition sample_daemon :: daemon where
  "sample_daemon = run_events
     [IpcEvent (Connected 1 root_cred), IpcEvent (Connected 2 alice_cred), IpcEvent (Connected 3 mallory_cred),
      IpcEvent (Command 1 root_cred (CreateSession ''alice'' None None)),
      IpcEvent (Command 2 alice_cred (RegisterCompositor 1))]
     (daemon_startup sample_world sample_udev default_settings)"

definition locked_daemon :: daemon where
  "locked_daemon = run_events [IpcEvent (Command 2 alice_cred (LockSession 1))] sample_daemon"

definition sample_action :: elevation_action where
  "sample_action = \<lparr>requesting_app = ''Editor'', description = ''Raw Disk Access'', risk = Critical, duration_label = ''Once''\<rparr>"

definition prompted_daemon :: daemon where
  "prompted_daemon = run_events [IpcEvent (Command 1 root_cred (RequestElevation 1 sample_action))] sample_daemon"

lemma replies_eq: "replies reg c = length (responses reg c)"
  by (simp add: replies_def responses_def)

lemma responses_response [simp]:
  "responses (send_response c r reg) x =
     responses reg x @ (if x = c \<and> registered reg c then [ResponseMsg r] else [])"
  by (simp add: responses_def sent_to_response)

lemma responses_event [simp]: "responses (send_event c e reg) x = responses reg x"
  by (simp add: responses_def sent_to_event)

lemma quietD: "quiet reg reg' \<Longrightarrow> registered reg' c = registered reg c \<and> responses reg' c = responses reg c"
  by (simp add: quiet_def responses_def)

lemma quiet_refl [simp]: "quiet reg reg"
  by (simp add: quiet_def)

lemma quiet_trans: "quiet a b \<Longrightarrow> quiet b c \<Longrightarrow> quiet a c"
  by (simp add: quiet_def)

lemma quiet_event [simp]: "quiet reg (send_event c e reg)"
  by (simp add: quiet_def sent_to_event)

lemma quiet_event_iff: "quiet reg (send_event c e reg') \<longleftrightarrow> quiet reg reg'"
  by (auto simp: quiet_def sent_to_event)

text \<open>
  The handlers that only send events: whatever holds between a registry and itself, is transitive and
  survives the sending of an event, holds between the registry before and after each of them.
\<close>

locale event_preorder =
  fixes rel :: "conn_registry \<Rightarrow> conn_registry \<Rightarrow> bool"
  assumes rel_refl: "rel reg reg"
    and rel_trans: "rel a b \<Longrightarrow> rel b c \<Longrightarrow> rel a c"
    and rel_event: "rel reg (send_event conn e reg)"
begin

lemma notify_compositor: "rel (d_registry d) (d_registry (notify_compositor ctx e d))"
  by (simp add: notify_compositor_def d_send_event_def rel_refl rel_event split: option.split)

lemma notify_compositor_after:
  "d_registry d' = d_registry d \<Longrightarrow> rel (d_registry d) (d_registry (notify_compositor ctx e d'))"
  using notify_compositor [of d'] by simp

lemma show_lock_after:
  "d_registry d' = d_registry d \<Longrightarrow> rel (d_registry d) (d_registry (show_lock sid reason d'))"
  by (simp add: show_lock_def notify_compositor_after rel_refl split: sum.split)

lemma notify_active: "rel (d_registry d) (d_registry (notify_active_compositor seat e d))"
  by (simp add: notify_active_compositor_def notify_compositor rel_refl split: sum.split option.split)

lemma suspend: "rel (d_registry d) (d_registry (fst (do_suspend w d)))"
proof -
  have "rel reg (fold (\<lambda>c. send_event c e) cs reg)" for e cs reg
    by (induction cs arbitrary: reg) (auto simp: rel_refl intro: rel_trans [OF rel_event])
  then show ?thesis
    by (simp add: do_suspend_def power_suspend_cases prepare_registry split_def rel_refl)
qed

lemma idle_lock: "rel (d_registry d) (d_registry (idle_lock w p seat d))"
  by (simp add: idle_lock_def show_lock_after rel_refl split: sum.split option.split prod.split)

lemma idle_change: "rel (d_registry d) (d_registry (handle_idle_change w p ch d))"
  by (simp add: handle_idle_change_def notify_active idle_lock suspend rel_refl split: idle_stage.split)

lemma idle_changes: "rel (d_registry d) (d_registry (fold (handle_idle_change w p) chs d))"
  by (induction chs arbitrary: d) (auto simp: rel_refl intro: rel_trans [OF idle_change])

lemma register: "rel (d_registry d) (d_registry (fst (register_compositor conn sid d)))"
  by (simp add: register_compositor_def d_send_event_def Let_def rel_refl rel_event split: sum.split)

lemma switch: "rel (d_registry d) (d_registry (fst (switch_session seat sid d)))"
  by (simp add: switch_session_def Let_def notify_compositor_after rel_refl split: sum.split prod.split)

lemma lock: "rel (d_registry d) (d_registry (fst (lock_session w peer sid reason d)))"
  by (simp add: lock_session_def show_lock_after rel_refl split: sum.split prod.split)

lemma unlock: "rel (d_registry d) (d_registry (fst (unlock w peer sid name password d)))"
  by (simp add: unlock_def Let_def notify_compositor_after rel_refl split: sum.split prod.split)

lemma start_elevation: "rel (d_registry d) (d_registry (fst (start_elevation w conn peer sid action d)))"
  by (auto simp: start_elevation_def d_send_event_def Let_def rel_refl rel_event
      split: sum.split prod.split option.split session_error.split)

end

interpretation quiet: event_preorder quiet
  by unfold_locales (auto intro: quiet_trans)

lemmas quiet_suspend [simp] = quiet.suspend
lemmas quiet_idle_changes [simp] = quiet.idle_changes
lemmas quiet_register = quiet.register
lemmas quiet_switch = quiet.switch
lemmas quiet_lock = quiet.lock
lemmas quiet_unlock = quiet.unlock
lemmas quiet_start_elevation = quiet.start_elevation

lemma registered_abandoned [simp]:
  "registered (d_registry (notify_all_abandoned w reason as d)) c = registered (d_registry d) c"
  unfolding notify_all_abandoned_def
  by (induction as arbitrary: d)
    (simp_all add: notify_elevation_abandoned_def d_send_response_def d_send_event_def)

lemma responses_abandoned:
  "responses (d_registry (notify_all_abandoned w reason as d)) c =
     responses (d_registry d) c @
       (if registered (d_registry d) c
        then replicate (reported_to c as) (ResponseMsg (RAuthResult (AuthError reason))) else [])"
proof (induction as arbitrary: d)
  case Nil
  then show ?case by (simp add: notify_all_abandoned_def reported_to_def)
next
  case (Cons a as)
  let ?d = "notify_elevation_abandoned w reason a d"
  have "notify_all_abandoned w reason (a # as) d = notify_all_abandoned w reason as ?d"
    by (simp add: notify_all_abandoned_def)
  moreover have "registered (d_registry ?d) c = registered (d_registry d) c"
    "responses (d_registry ?d) c = responses (d_registry d) c @
       (if c = ab_requester_conn a \<and> registered (d_registry d) c
        then [ResponseMsg (RAuthResult (AuthError reason))] else [])"
    by (auto simp: notify_elevation_abandoned_def d_send_response_def d_send_event_def)
  ultimately show ?case using Cons [of ?d] by (auto simp: reported_to_def)
qed

subsection \<open>Owed replies\<close>

lemma owed_take_all:
  "hm_ok (em_pending m) \<Longrightarrow>
     owed (fst (take_abandoned_all ids m)) c + reported_to c (snd (take_abandoned_all ids m)) = owed m c"
proof (induction ids arbitrary: m)
  case Nil
  then show ?case by (simp add: reported_to_def)
next
  case (Cons i ids)
  let ?m = "fst (take_abandoned i m)"
  have "hm_ok (em_pending ?m)" using Cons.prems by (simp add: take_abandoned_def)
  from Cons.IH [OF this] show ?case
    using hm_count_remove [OF Cons.prems, of i _ "\<lambda>p. pe_requester_conn p = c"]
      hm_remove_absent [of "em_pending m" i]
    by (auto simp: take_all_Cons owed_def reported_to_def abandoned_of_def take_abandoned_def split: option.splits)
qed

lemma owed_abandon:
  "hm_ok (em_pending m) \<Longrightarrow>
     owed (fst (abandon_where P m)) c + reported_to c (snd (abandon_where P m)) = owed m c"
  by (simp add: abandon_where_def owed_take_all)

lemma owed_expire:
  "hm_ok (em_pending m) \<Longrightarrow>
     owed (fst (expire_pending now m)) c + reported_to c (snd (expire_pending now m)) = owed m c"
  using owed_take_all [of "m\<lparr>em_timeouts := t\<rparr>" for t] by (simp add: expire_pending_eq owed_def)

lemma owed_begin:
  assumes "em_inv m" "Suc (unat (em_next_id m)) < 2 ^ 64"
    and "em_begin sid cconn rconn policy apolicy now m = (m', r)"
  shows "owed m' c = owed m c + (if c = rconn \<and> (\<exists>i. r = Inr i) then 1 else 0)"
  using em_begin_cases [OF assms(3)] em_begin_fresh [OF assms(1,2)]
  by (auto simp: owed_def hm_count_insert_fresh)

subsection \<open>What each request does to replies and prompts\<close>

lemma start_elevation_owed:
  assumes "em_inv (d_elevation d)" "Suc (unat (em_next_id (d_elevation d))) < 2 ^ 64"
  shows "owed (d_elevation (fst (start_elevation w conn peer sid action d))) c =
    owed (d_elevation d) c + (if c = conn \<and> snd (start_elevation w conn peer sid action d) = None then 1 else 0)"
  using owed_begin [OF assms]
  by (auto simp: start_elevation_def Let_def split: sum.split prod.split option.split session_error.split)

lemma start_elevation_no_success:
  "snd (start_elevation w conn peer sid action d) \<noteq> Some (RAuthResult AuthSuccess)"
  by (auto simp: start_elevation_def Let_def split: sum.split prod.split option.split session_error.split)

lemma terminate_session_registry:
  assumes "hm_ok (em_pending (d_elevation d))" "d' = fst (terminate_session w peer sid d)"
  shows "registered (d_registry d') c = registered (d_registry d) c"
    and "\<exists>n. responses (d_registry d') c = responses (d_registry d) c
        @ (if registered (d_registry d) c then replicate n (ResponseMsg (RAuthResult (AuthError ''session ended''))) else [])
      \<and> owed (d_elevation d') c + n = owed (d_elevation d) c"
proof -
  have "registered (d_registry d') c = registered (d_registry d) c \<and>
     (\<exists>n. responses (d_registry d') c = responses (d_registry d) c
        @ (if registered (d_registry d) c then replicate n (ResponseMsg (RAuthResult (AuthError ''session ended''))) else [])
      \<and> owed (d_elevation d') c + n = owed (d_elevation d) c)"
  proof (cases "snd (snd (sm_terminate_session sid (d_sessions d)))")
    case (Inl e)
    then have "d' = d" by (auto simp: assms(2) terminate_session_def split: prod.splits sum.splits)
    then show ?thesis by (intro conjI refl exI [of _ 0]) auto
  next
    case (Inr u)
    obtain em as where ab: "abandon_session sid (d_elevation d) = (em, as)" by fastforce
    then have "owed em c + reported_to c as = owed (d_elevation d) c"
      using owed_abandon [OF assms(1), of "\<lambda>p. pe_session_id p = sid" c] by (simp add: abandon_session_def)
    with Inr ab show ?thesis
      by (intro conjI exI [of _ "reported_to c as"])
        (auto simp: assms(2) terminate_session_def responses_abandoned Let_def split: prod.splits)
  qed
  then show "registered (d_registry d') c = registered (d_registry d) c"
    and "\<exists>n. responses (d_registry d') c = responses (d_registry d) c
        @ (if registered (d_registry d) c then replicate n (ResponseMsg (RAuthResult (AuthError ''session ended''))) else [])
      \<and> owed (d_elevation d') c + n = owed (d_elevation d) c" by blast+
qed

lemma terminate_session_reply: "snd (terminate_session w peer sid d) \<noteq> RAuthResult out"
  by (simp add: terminate_session_def Let_def split: sum.split prod.split)

lemma finish_response_registry:
  "registered (d_registry (finish_response w peer rid res d)) c = registered (d_registry d) c"
  "responses (d_registry (finish_response w peer rid res d)) c = responses (d_registry d) c
     @ (if eo_terminal res \<and> c = eo_requester_conn res \<and> registered (d_registry d) c
        then [ResponseMsg (RAuthResult (eo_outcome res))] else [])"
  by (auto simp: finish_response_def d_send_event_def d_send_response_def Let_def)

text \<open>The three ways \<open>respond_elevation\<close> can end: nothing happens, the answer is a cancel or a password.\<close>

lemma respond_elevation_cases:
  assumes "respond_elevation w peer rid response d = (d', r)"
  obtains (error) e where "d' = d" "r = RError e"
  | (answered) pe em res where "hm_get (em_pending (d_elevation d)) rid = Some pe"
      "d' = finish_response w peer rid res (d\<lparr>d_elevation := em\<rparr>)" "r = RAuthResult (eo_outcome res)"
      "eo_requester_conn res = pe_requester_conn pe" "eo_compositor_conn res = pe_compositor_conn pe"
      "eo_session_id res = pe_session_id pe"
      "em_pending em = (if eo_terminal res then hm_remove rid (em_pending (d_elevation d)) else em_pending (d_elevation d))"
      "(response = CancelPrompt \<and> em = fst (em_cancel rid (d_elevation d)) \<and> eo_outcome res = AuthCancelled \<and> eo_terminal res) \<or>
       (\<exists>password request. response = Password password \<and> prompt_request d rid password = Some request
          \<and> em = fst (em_attempt rid (pam_authenticate (w_pam w) (d_authenticator d)) request
                (elevation_auth_policy (set_elevation (d_settings d))) (w_now w) (d_elevation d))
          \<and> eo_outcome res = fst (check (pam_authenticate (w_pam w) (d_authenticator d)) request
                (elevation_auth_policy (set_elevation (d_settings d))) (elev_attempts (d_elevation d) (pe_session_id pe)))
          \<and> eo_terminal res = (\<not> is_AuthFailure (eo_outcome res)))"
proof (cases "hm_get (em_pending (d_elevation d)) rid")
  case None
  with assms show ?thesis by (intro error) (auto simp: respond_elevation_def peek_def)
next
  case (Some pe)
  show ?thesis
  proof (cases response)
    case CancelPrompt
    with assms Some show ?thesis
      by (intro answered [OF Some]) (auto simp: respond_elevation_def peek_def em_cancel_def)
  next
    case (Password password)
    show ?thesis
    proof (cases "hm_get (sm_sessions (d_sessions d)) (pe_session_id pe)")
      case None
      with assms Some Password show ?thesis
        by (intro error) (auto simp: respond_elevation_def peek_def sm_get_def)
    next
      case (Some ctx)
      let ?r = "\<lparr>req_session_id = pe_session_id pe, req_user_name = sess_user_name (ctx_session ctx), req_password = password\<rparr>"
      let ?a = "pam_authenticate (w_pam w) (d_authenticator d)"
      let ?p = "elevation_auth_policy (set_elevation (d_settings d))"
      let ?t = "em_attempt rid ?a ?r ?p (w_now w) (d_elevation d)"
      note pend = \<open>hm_get (em_pending (d_elevation d)) rid = Some pe\<close>
      obtain out n where ch: "check ?a ?r ?p (elev_attempts (d_elevation d) (pe_session_id pe)) = (out, n)" by fastforce
      let ?res = "\<lparr>eo_session_id = pe_session_id pe, eo_compositor_conn = pe_compositor_conn pe,
              eo_requester_conn = pe_requester_conn pe, eo_outcome = out, eo_terminal = (\<not> is_AuthFailure out)\<rparr>"
      have snd: "snd ?t = Some ?res" using em_attempt_outcome [OF pend] ch by (simp add: Let_def)
      have "prompt_request d rid password = Some ?r" using pend Some by (simp add: prompt_request_def)
      moreover have "d' = finish_response w peer rid ?res (d\<lparr>d_elevation := fst ?t\<rparr>)" "r = RAuthResult out"
        using assms Password pend Some snd
        by (auto simp: respond_elevation_def peek_def sm_get_def split: prod.splits)
      moreover have "em_pending (fst ?t) = (if eo_terminal ?res then hm_remove rid (em_pending (d_elevation d))
          else em_pending (d_elevation d))"
        using em_attempt_state(3) [OF pend refl ch refl, of "w_now w"] by simp
      ultimately show ?thesis using ch Password by (intro answered [OF pend, of ?res "fst ?t"]) auto
    qed
  qed
qed

lemma respond_elevation_registry:
  assumes "hm_ok (em_pending (d_elevation d))" "respond_elevation w peer rid response d = (d', r)"
  shows "registered (d_registry d') c = registered (d_registry d) c
    \<and> (registered (d_registry d) c \<longrightarrow>
         replies (d_registry d') c + owed (d_elevation d') c = replies (d_registry d) c + owed (d_elevation d) c)"
  using assms(2)
proof (cases rule: respond_elevation_cases)
  case (answered pe em res)
  have "owed (d_elevation d) c = owed em c + (if eo_terminal res \<and> c = pe_requester_conn pe then 1 else 0)"
    using hm_count_remove [OF assms(1) answered(1)] by (simp add: owed_def answered(7))
  then show ?thesis by (simp add: answered(2,4) finish_response_registry replies_eq)
qed simp

lemma dispatch_registered:
  assumes "hm_ok (em_pending (d_elevation d))"
  shows "registered (d_registry (fst (dispatch w conn peer r d))) c = registered (d_registry d) c"
proof (cases r)
  case (TerminateSession sid)
  then show ?thesis using terminate_session_registry(1) [OF assms refl] by (simp add: reply_def)
next
  case (RespondElevation rid resp)
  then show ?thesis
    using respond_elevation_registry [OF assms, of w peer rid resp] by (simp add: reply_def prod_eq_iff)
qed (use quietD [OF quiet_register] quietD [OF quiet_switch] quietD [OF quiet_lock] quietD [OF quiet_unlock]
    quietD [OF quiet_start_elevation] quietD [OF quiet_suspend] in
    \<open>simp_all add: reply_def split_def\<close>)

lemma dispatch_replies:
  assumes inv: "em_inv (d_elevation d)" and lim: "Suc (unat (em_next_id (d_elevation d))) < 2 ^ 64"
    and reg: "registered (d_registry d) c"
  shows "replies (d_registry (fst (dispatch w conn peer r d))) c
      + owed (d_elevation (fst (dispatch w conn peer r d))) c =
    replies (d_registry d) c + owed (d_elevation d) c
      + (if c = conn \<and> snd (dispatch w conn peer r d) = None then 1 else 0)"
proof -
  have ok: "hm_ok (em_pending (d_elevation d))" using inv by (simp add: em_inv_def)
  show ?thesis
  proof (cases r)
    case (TerminateSession sid)
    obtain n where "responses (d_registry (fst (terminate_session w peer sid d))) c = responses (d_registry d) c
        @ replicate n (ResponseMsg (RAuthResult (AuthError ''session ended'')))"
      "owed (d_elevation (fst (terminate_session w peer sid d))) c + n = owed (d_elevation d) c"
      using terminate_session_registry(2) [OF ok refl, of w peer sid c] reg by auto
    with TerminateSession show ?thesis by (simp add: reply_def replies_eq)
  next
    case (RespondElevation rid resp)
    then show ?thesis
      using respond_elevation_registry [OF ok, of w peer rid resp _ _ c] reg by (simp add: reply_def prod_eq_iff)
  next
    case (RequestElevation sid action)
    then show ?thesis
      using start_elevation_owed [OF inv lim] quietD [OF quiet_start_elevation] by (simp add: replies_eq)
  qed (use quietD [OF quiet_register] quietD [OF quiet_switch] quietD [OF quiet_lock] quietD [OF quiet_unlock]
      quietD [OF quiet_suspend] in \<open>simp_all add: reply_def split_def replies_eq\<close>)
qed

lemma handle_command_replies:
  assumes "em_inv (d_elevation d)" "Suc (unat (em_next_id (d_elevation d))) < 2 ^ 64" "registered (d_registry d) c"
  shows "replies (d_registry (handle_command w conn peer r d)) c + owed (d_elevation (handle_command w conn peer r d)) c =
    replies (d_registry d) c + owed (d_elevation d) c + (if c = conn then 1 else 0)"
proof (cases "authorize (w_db w) peer conn r (d_sessions d) (d_elevation d)")
  case (Inl e)
  then show ?thesis using assms(3) by (auto simp: handle_command_def d_send_response_def replies_eq)
next
  case (Inr u)
  obtain d' resp where di: "dispatch w conn peer r d = (d', resp)" by fastforce
  have "registered (d_registry d') c"
    using dispatch_registered [of d w conn peer r c] assms di by (simp add: em_inv_def)
  with Inr di dispatch_replies [OF assms, of w conn peer r] show ?thesis
    by (cases resp) (auto simp: handle_command_def d_send_response_def replies_eq)
qed

lemma handle_compositor_exit_registry:
  "registered (d_registry (handle_compositor_exit w pid d)) c \<Longrightarrow>
     registered (d_registry d) c \<and> sent_to (d_registry (handle_compositor_exit w pid d)) c = sent_to (d_registry d) c"
proof -
  have "sent_to (unregister c' reg) c = sent_to reg c" if "c \<noteq> c'" for c' reg
    using that by (simp add: sent_to_def unregister_def)
  then show "registered (d_registry (handle_compositor_exit w pid d)) c \<Longrightarrow>
     registered (d_registry d) c \<and> sent_to (d_registry (handle_compositor_exit w pid d)) c = sent_to (d_registry d) c"
    by (auto simp: handle_compositor_exit_def Let_def
        split: option.splits restart_decision.splits sum.splits prod.splits)
qed

lemma reap_children_registry:
  "registered (d_registry (reap_children w ws d)) c \<Longrightarrow>
     registered (d_registry d) c \<and> sent_to (d_registry (reap_children w ws d)) c = sent_to (d_registry d) c"
proof (induction w ws d rule: reap_children.induct)
  case (5 w pid rest d)
  then show ?case using handle_compositor_exit_registry [of w pid d c] by auto
qed simp_all

lemma on_signal_registry:
  "registered (d_registry (on_signal w ws ev d)) c \<Longrightarrow>
     sent_to (d_registry (on_signal w ws ev d)) c = sent_to (d_registry d) c
   \<and> em_pending (d_elevation (on_signal w ws ev d)) = em_pending (d_elevation d)"
proof (cases ev)
  case Terminate
  then show ?thesis by (simp add: Let_def split: prod.split)
next
  case ReloadConfig
  then show ?thesis by (simp add: reload_config_def set_requester_uid_def split: sum.split)
next
  case ReapChildren
  moreover assume "registered (d_registry (on_signal w ws ev d)) c"
  ultimately show ?thesis using reap_children_registry [of w ws d c] by simp
qed

lemma tick_registry:
  assumes inv: "em_inv (d_elevation d)"
  shows "\<exists>n. responses (d_registry (on_idle_tick w d)) c = responses (d_registry d) c
      @ (if registered (d_registry d) c
         then replicate n (ResponseMsg (RAuthResult (AuthError ''timed out waiting for a response''))) else [])
    \<and> owed (d_elevation (on_idle_tick w d)) c + n = owed (d_elevation d) c"
proof -
  obtain det changes where t: "tick (w_now w) (idle_policy_from (set_idle (d_settings d))) (d_idle d) = (det, changes)"
    by fastforce
  let ?p = "lock_policy_from (set_lock (d_settings d))"
  define d1 where "d1 = fold (handle_idle_change w ?p) changes (d\<lparr>d_idle := det\<rparr>)"
  have q: "quiet (d_registry d) (d_registry d1)"
    using quiet_idle_changes [of "d\<lparr>d_idle := det\<rparr>" w ?p changes] by (simp add: d1_def)
  define em0 where "em0 = clear_expired_lockouts (w_now w) (d_elevation d)"
  have pend: "em_pending em0 = em_pending (d_elevation d)"
    by (simp add: em0_def clear_expired_lockouts_def elev_expired_lockouts_eq)
  obtain em as where ex: "expire_pending (w_now w) em0 = (em, as)" by fastforce
  have "owed em c + reported_to c as = owed (d_elevation d) c"
    using owed_expire [of em0 "w_now w" c] inv ex by (simp add: pend owed_def em_inv_def)
  moreover have "d_elevation (on_idle_tick w d) = em"
    "responses (d_registry (on_idle_tick w d)) c = responses (d_registry d1) c
      @ (if registered (d_registry d1) c then replicate (reported_to c as)
           (ResponseMsg (RAuthResult (AuthError ''timed out waiting for a response''))) else [])"
    using ex [unfolded em0_def]
    by (simp_all add: on_idle_tick_def t d1_def Let_def split_def responses_abandoned)
  ultimately show ?thesis using quietD [OF q, of c] by (intro exI [of _ "reported_to c as"]) simp
qed

lemma disconnect_registry:
  assumes inv: "em_inv (d_elevation d)" and c: "c \<noteq> conn"
  shows "\<exists>n. responses (d_registry (handle_ipc w (Disconnected conn) d)) c = responses (d_registry d) c
      @ (if registered (d_registry d) c
         then replicate n (ResponseMsg (RAuthResult (AuthError ''a required connection disconnected''))) else [])
    \<and> owed (d_elevation (handle_ipc w (Disconnected conn) d)) c + n = owed (d_elevation d) c"
proof -
  obtain em as where ab: "abandon_connection conn (d_elevation d) = (em, as)" by fastforce
  have "owed em c + reported_to c as = owed (d_elevation d) c"
    using owed_abandon [of "d_elevation d" "\<lambda>p. pe_compositor_conn p = conn \<or> pe_requester_conn p = conn" c] inv ab
    by (simp add: em_inv_def abandon_connection_def)
  moreover have "registered (unregister conn (d_registry d)) c = registered (d_registry d) c"
    "responses (unregister conn (d_registry d)) c = responses (d_registry d) c"
    using c by (simp_all add: registered_def responses_def sent_to_def unregister_def)
  ultimately show ?thesis
    using ab by (intro exI [of _ "reported_to c as"]) (simp add: responses_abandoned Let_def)
qed

subsection \<open>What each event does to locks\<close>

lemma locks_kept_refl [simp]: "locks_kept d d"
  by (simp add: locks_kept_def)

lemma locks_kept_trans: "locks_kept a b \<Longrightarrow> locks_kept b c \<Longrightarrow> locks_kept a c"
  by (simp add: locks_kept_def)

lemma locks_kept_frame: "d_locks d' = d_locks d \<Longrightarrow> locks_kept d d'"
  by (simp add: locks_kept_def)

lemma lm_lock_kept: "lm_is_locked m i \<Longrightarrow> lm_is_locked (fst (lm_lock sid p m)) i"
  by (simp add: lm_is_locked_iff lm_lock_state)

lemma lm_lock_kept': "lm_lock sid p m = (m', r) \<Longrightarrow> lm_is_locked m i \<Longrightarrow> lm_is_locked m' i"
  using lm_lock_kept [of m i sid p] by simp

lemma locks_kept_lock_session: "locks_kept d (fst (lock_session w peer sid reason d))"
  by (auto simp: locks_kept_def lock_session_def intro: lm_lock_kept' split: prod.split sum.split)

lemma locks_kept_suspend: "locks_kept d (fst (do_suspend w d))"
  by (auto simp: locks_kept_def do_suspend_def power_suspend_cases prepare_locks lm_is_locked_iff split_def)

lemma locks_kept_idle_change: "locks_kept d (handle_idle_change w p ch d)"
proof -
  have "locks_kept d (idle_lock w p seat d)" for seat
    by (auto simp: locks_kept_def idle_lock_def intro: lm_lock_kept' split: sum.split option.split prod.split)
  then show ?thesis
    using locks_kept_suspend [of d w]
    by (auto simp: handle_idle_change_def locks_kept_def split: idle_stage.split)
qed

lemma locks_kept_idle_changes: "locks_kept d (fold (handle_idle_change w p) chs d)"
  by (induction chs arbitrary: d) (auto intro: locks_kept_trans [OF locks_kept_idle_change])

lemma clear_lockouts_locked: "lm_is_locked (fold clear_lockout sids m) i = lm_is_locked m i"
  by (induction sids arbitrary: m) (auto simp: lm_is_locked_iff clear_lockout_state)

lemma locks_kept_tick: "locks_kept d (on_idle_tick w d)"
proof -
  have "lm_is_locked (m\<lparr>lm_timeouts := t\<rparr>) i = lm_is_locked m i" for m t i by (simp add: lm_is_locked_def)
  then show ?thesis
    using locks_kept_idle_changes [of "d\<lparr>d_idle := det\<rparr>" w p chs for det p chs]
    by (simp add: on_idle_tick_def locks_kept_def clear_lockouts_locked Let_def split_def)
qed

lemma locks_kept_dispatch:
  assumes "\<And>sid name password. r \<noteq> Unlock sid name password"
  shows "locks_kept d (fst (dispatch w conn peer r d))"
proof (cases r)
  case (Unlock sid name password)
  with assms show ?thesis by blast
qed (use locks_kept_lock_session [of d w peer] locks_kept_suspend [of d w] in
    \<open>auto simp: reply_def split_def locks_kept_def add_inhibitor_def release_inhibitor_def lm_is_locked_def\<close>)

lemma locks_kept_other:
  assumes "\<And>conn peer r. ev \<noteq> IpcEvent (Command conn peer r)"
  shows "locks_kept d (daemon_event w ev d)"
proof (cases ev)
  case (IpcEvent msg)
  with assms show ?thesis
    by (cases msg) (auto intro!: locks_kept_frame simp: Let_def split: prod.split)
next
  case TickEvent
  then show ?thesis by (simp add: locks_kept_tick)
next
  case (SignalEvent sig ws)
  have "locks_kept d (on_signal w ws e d)" for e
    by (cases e) (auto intro!: locks_kept_frame simp: reload_config_def Let_def split: prod.split sum.split)
  with SignalEvent show ?thesis by (auto split: option.split)
qed

lemma unlock_locks:
  "d_locks (fst (unlock w peer sid name password d)) =
     fst (attempt_unlock (pam_authenticate (w_pam w) (d_authenticator d))
        \<lparr>req_session_id = sid, req_user_name = name, req_password = password\<rparr>
        (policy_auth_policy (set_authentication (d_settings d)) (set_lock (d_settings d))) (w_now w) (d_locks d))"
  "snd (unlock w peer sid name password d) =
     RAuthResult (snd (attempt_unlock (pam_authenticate (w_pam w) (d_authenticator d))
        \<lparr>req_session_id = sid, req_user_name = name, req_password = password\<rparr>
        (policy_auth_policy (set_authentication (d_settings d)) (set_lock (d_settings d))) (w_now w) (d_locks d)))"
  by (simp_all add: unlock_def Let_def split_def split: sum.split)

lemma unlock_releases:
  assumes "lm_is_locked (d_locks d) i" "\<not> lm_is_locked (d_locks (fst (unlock w peer sid name password d))) i"
  shows "i = sid \<and> lock_state_of (d_locks d) sid = LockLocked
    \<and> pam_authenticate (w_pam w) (d_authenticator d)
        \<lparr>req_session_id = sid, req_user_name = name, req_password = password\<rparr> = Inr ()"
proof -
  let ?a = "pam_authenticate (w_pam w) (d_authenticator d)"
  let ?r = "\<lparr>req_session_id = sid, req_user_name = name, req_password = password\<rparr>"
  let ?u = "attempt_unlock ?a ?r (policy_auth_policy (set_authentication (d_settings d)) (set_lock (d_settings d)))
      (w_now w) (d_locks d)"
  have st: "lock_state_of (fst ?u) i = LockUnlocked" "lock_state_of (d_locks d) i \<noteq> LockUnlocked"
    using assms by (simp_all add: lm_is_locked_iff unlock_locks)
  then have i: "i = sid" and out: "snd ?u = AuthSuccess"
    by (auto simp: attempt_unlock_state split: if_splits auth_outcome.splits)
  from out st i show ?thesis
    unfolding attempt_unlock_Success_iff by (cases "lock_state_of (d_locks d) sid") auto
qed

subsection \<open>The example daemon is well-formed\<close>

lemma em_inv_prompted_daemon: "em_inv (d_elevation prompted_daemon)"
proof -
  have "d_elevation prompted_daemon = fst (em_begin 1 2 1 (elevation_policy_from default_elevation_settings)
      (elevation_auth_policy default_elevation_settings) 0 (set_requester_uid None em_new))" by code_simp
  moreover have "Suc (unat (em_next_id (set_requester_uid None em_new))) < 2 ^ 64"
    by (simp add: set_requester_uid_def em_new_def)
  ultimately show ?thesis
    using em_inv_begin [of "set_requester_uid None em_new"] em_inv_new by (metis em_inv_requester prod.collapse)
qed

subsection \<open>One reply per request\<close>

text \<open>
  For a connection that stays registered, the number of replies it has been sent plus the number of
  its elevation requests that are still open grows by exactly one with each request it makes, and by
  nothing else.
\<close>

lemma event_replies:
  assumes "em_inv (d_elevation d)" "Suc (unat (em_next_id (d_elevation d))) < 2 ^ 64"
    and "registered (d_registry d) c" "registered (d_registry (daemon_event w ev d)) c"
    and "\<forall>peer. ev \<noteq> IpcEvent (Connected c peer)"
  shows "replies (d_registry (daemon_event w ev d)) c + owed (d_elevation (daemon_event w ev d)) c =
    replies (d_registry d) c + owed (d_elevation d) c
      + (case ev of IpcEvent (Command conn _ _) \<Rightarrow> if c = conn then 1 else 0 | _ \<Rightarrow> 0)"
proof (cases ev)
  case TickEvent
  then show ?thesis using tick_registry [OF assms(1), of w c] assms(3) by (auto simp: replies_eq)
next
  case (SignalEvent sig ws)
  show ?thesis
  proof (cases "classify_signal sig")
    case (Some e)
    with assms(4) SignalEvent on_signal_registry [of w ws e d c] show ?thesis
      by (simp add: replies_def owed_def)
  qed (use SignalEvent in simp)
next
  case (IpcEvent msg)
  show ?thesis
  proof (cases msg)
    case (Connected conn peer)
    with assms(5) IpcEvent have "c \<noteq> conn" by auto
    with IpcEvent Connected show ?thesis by (simp add: replies_def sent_to_def register_def)
  next
    case (Command conn peer r)
    with IpcEvent handle_command_replies [OF assms(1-3), of w conn peer r] show ?thesis by simp
  next
    case (Disconnected conn)
    have "c \<noteq> conn"
    proof
      assume "c = conn"
      with assms(4) IpcEvent Disconnected show False by (simp add: Let_def split: prod.splits)
    qed
    with disconnect_registry [OF assms(1) this, of w] assms(3) IpcEvent Disconnected show ?thesis
      by (auto simp: replies_eq)
  qed
qed

subsection \<open>Releasing a lock\<close>

lemma released_by_accepted_unlock:
  assumes "lm_is_locked (d_locks d) sid" "\<not> lm_is_locked (d_locks (daemon_event w ev d)) sid"
  shows "\<exists>conn peer name password. ev = IpcEvent (Command conn peer (Unlock sid name password))
    \<and> (peer_is_root peer \<or> (\<exists>ctx. hm_get (sm_sessions (d_sessions d)) sid = Some ctx
          \<and> sess_uid (ctx_session ctx) = peer_uid peer))
    \<and> lock_state_of (d_locks d) sid = LockLocked
    \<and> pam_authenticate (w_pam w) (d_authenticator d)
        \<lparr>req_session_id = sid, req_user_name = name, req_password = password\<rparr> = Inr ()"
proof -
  have "\<not> locks_kept d (daemon_event w ev d)" using assms by (auto simp: locks_kept_def)
  then obtain conn peer r where ev: "ev = IpcEvent (Command conn peer r)"
    using locks_kept_other by blast
  have auth: "authorize (w_db w) peer conn r (d_sessions d) (d_elevation d) = Inr ()"
    using assms ev by (auto simp: handle_command_def split: sum.splits)
  have locks: "d_locks (daemon_event w ev d) = d_locks (fst (dispatch w conn peer r d))"
    using auth ev by (simp add: handle_command_def split: prod.split option.split)
  obtain i name password where r: "r = Unlock i name password"
    using assms locks_kept_dispatch [of r d w conn peer] locks unfolding locks_kept_def by metis
  have "\<not> lm_is_locked (d_locks (fst (unlock w peer i name password d))) sid"
    using assms(2) locks r by (simp add: reply_def)
  note rel = unlock_releases [OF assms(1) this]
  moreover have "permitted (w_db w) peer conn r (d_sessions d) (d_elevation d)"
    using auth authorize_iff_permitted by blast
  then have "peer_is_root peer \<or> (\<exists>ctx. hm_get (sm_sessions (d_sessions d)) i = Some ctx
      \<and> sess_uid (ctx_session ctx) = peer_uid peer)"
    using r by (auto simp: permitted_def open_to_all_def)
  ultimately show ?thesis using ev r by blast
qed

subsection \<open>Properties\<close>

text \<open>
  C1. A lock is released only by a successful unlock. Whatever the state, the world and the event
  (a request of any kind, a connection coming or going, a tick, a signal, a crashed compositor),
  if a session was locked before and is not afterwards, then the event was an \<open>Unlock\<close> request for
  that very session, made by root or by the owner of the session, the session was not serving a
  lockout, and PAM accepted the credential of the request.
\<close>

theorem lock_released_only_by_accepted_unlock:
  assumes "lm_is_locked (d_locks d) sid" "\<not> lm_is_locked (d_locks (daemon_event w ev d)) sid"
  shows "\<exists>conn peer name password. ev = IpcEvent (Command conn peer (Unlock sid name password))
    \<and> (peer_is_root peer \<or> (\<exists>ctx. hm_get (sm_sessions (d_sessions d)) sid = Some ctx
          \<and> sess_uid (ctx_session ctx) = peer_uid peer))
    \<and> lock_state_of (d_locks d) sid = LockLocked
    \<and> pam_authenticate (w_pam w) (d_authenticator d)
        \<lparr>req_session_id = sid, req_user_name = name, req_password = password\<rparr> = Inr ()"
  using assms by (rule released_by_accepted_unlock)

theorem lock_released_only_by_accepted_unlock_witness:
  "\<exists>conn peer name password.
     IpcEvent (Command 2 alice_cred (Unlock 1 ''alice'' ''hunter2'')) =
       IpcEvent (Command conn peer (Unlock 1 name password))
   \<and> (peer_is_root peer \<or> (\<exists>ctx. hm_get (sm_sessions (d_sessions locked_daemon)) 1 = Some ctx
         \<and> sess_uid (ctx_session ctx) = peer_uid peer))
   \<and> lock_state_of (d_locks locked_daemon) 1 = LockLocked
   \<and> pam_authenticate (w_pam sample_world) (d_authenticator locked_daemon)
       \<lparr>req_session_id = 1, req_user_name = name, req_password = password\<rparr> = Inr ()"
proof -
  have 1: "lm_is_locked (d_locks locked_daemon) 1" by code_simp
  have 2: "\<not> lm_is_locked (d_locks (daemon_event sample_world
      (IpcEvent (Command 2 alice_cred (Unlock 1 ''alice'' ''hunter2''))) locked_daemon)) 1" by code_simp
  show ?thesis by (rule lock_released_only_by_accepted_unlock [OF 1 2])
qed

text \<open>
  C5. A request the policy does not permit changes nothing: the daemon's state, its effects and
  every other connection's outbox stay as they are, and the requester is sent one error.
\<close>

theorem unauthorized_request_is_inert:
  assumes "\<not> permitted (w_db w) peer conn r (d_sessions d) (d_elevation d)"
  shows "\<exists>text. handle_command w conn peer r d = d\<lparr>d_registry := send_response conn (RError text) (d_registry d)\<rparr>
    \<and> (\<forall>c. sent_to (d_registry (handle_command w conn peer r d)) c = sent_to (d_registry d) c
          @ (if c = conn \<and> registered (d_registry d) c then [ResponseMsg (RError text)] else []))"
proof -
  from assms obtain e where "authorize (w_db w) peer conn r (d_sessions d) (d_elevation d) = Inl e"
    using authorize_iff_permitted by (cases "authorize (w_db w) peer conn r (d_sessions d) (d_elevation d)") auto
  then have "handle_command w conn peer r d = d\<lparr>d_registry := send_response conn (RError (error_text e)) (d_registry d)\<rparr>"
    by (simp add: handle_command_def d_send_response_def)
  then show ?thesis by (intro exI [of _ "error_text e"]) (auto simp: sent_to_response)
qed

theorem unauthorized_request_is_inert_witness:
  "\<exists>text. handle_command sample_world 3 mallory_cred (LockSession 1) sample_daemon =
     sample_daemon\<lparr>d_registry := send_response 3 (RError text) (d_registry sample_daemon)\<rparr>"
proof -
  have "authorize (w_db sample_world) mallory_cred 3 (LockSession 1) (d_sessions sample_daemon)
      (d_elevation sample_daemon) \<noteq> Inr ()" by code_simp
  then have "\<not> permitted (w_db sample_world) mallory_cred 3 (LockSession 1) (d_sessions sample_daemon)
      (d_elevation sample_daemon)" unfolding authorize_iff_permitted .
  from unauthorized_request_is_inert [OF this] show ?thesis by (elim exE conjE) (rule exI)
qed

end
