(* ===== verification/Daemon_Behaviour.thy ===== *)
theory Daemon_Behaviour
  imports Daemon_Security
begin

section \<open>Behaviour of the daemon's handlers\<close>

text \<open>
  What a success reply proves, what a crashed compositor leaves behind, exactly when a prompt is
  opened, and the places where the daemon does less than its documentation says.
\<close>

text \<open>What must hold for \<open>start_elevation\<close> to show a prompt.\<close>

definition prompt_allowed :: "world \<Rightarrow> session_id \<Rightarrow> elevation_action \<Rightarrow> conn_id \<Rightarrow> daemon \<Rightarrow> bool" where
  "prompt_allowed w sid action cconn d \<longleftrightarrow>
     validate action = Inr () \<and> elev_enabled (set_elevation (d_settings d))
   \<and> (\<exists>ctx. hm_get (sm_sessions (d_sessions d)) sid = Some ctx
        \<and> user_has_password (w_shadow w) (sess_user_name (ctx_session ctx))
        \<and> ctx_compositor_conn ctx = Some cconn)
   \<and> \<not> elev_locked_out (d_elevation d) sid
   \<and> pending_of sid (d_elevation d) < unat (max_pending_per_session (set_elevation (d_settings d)))"

subsection \<open>Success replies\<close>

lemma success_replies_eq:
  "success_replies reg c = length (filter (\<lambda>m. m = ResponseMsg (RAuthResult AuthSuccess)) (responses reg c))"
proof -
  have "filter (\<lambda>m. m = ResponseMsg (RAuthResult AuthSuccess)) (filter is_response ms) =
      filter (\<lambda>m. m = ResponseMsg (RAuthResult AuthSuccess)) ms" for ms
    by (induction ms) auto
  then show ?thesis by (simp add: success_replies_def responses_def)
qed

lemma filter_success_replicate [simp]:
  "filter (\<lambda>m. m = ResponseMsg (RAuthResult AuthSuccess)) (replicate n (ResponseMsg (RAuthResult (AuthError e)))) = []"
  by (induction n) auto

lemma quiet_success: "quiet reg reg' \<Longrightarrow> success_replies reg' c = success_replies reg c"
  by (simp add: success_replies_eq quietD)

lemma dispatch_success:
  assumes "hm_ok (em_pending (d_elevation d))"
    and "\<And>sid name password. r \<noteq> Unlock sid name password" "\<And>rid resp. r \<noteq> RespondElevation rid resp"
  shows "success_replies (d_registry (fst (dispatch w conn peer r d))) c = success_replies (d_registry d) c
    \<and> snd (dispatch w conn peer r d) \<noteq> Some (RAuthResult AuthSuccess)"
proof (cases r)
  case (TerminateSession sid)
  then show ?thesis
    using terminate_session_registry(2) [OF assms(1) refl, of w peer sid c] terminate_session_reply [of w peer sid d]
    by (auto simp: reply_def success_replies_eq)
next
  case (CreateSession name seat ty)
  then show ?thesis by (auto simp: reply_def create_session_def Let_def split: sum.split prod.split)
next
  case (RegisterCompositor sid)
  then show ?thesis using quiet_success [OF quiet_register [of d conn sid]]
    by (auto simp: reply_def register_compositor_def Let_def split: sum.splits)
next
  case (LockSession sid)
  then show ?thesis using quiet_success [OF quiet_lock [of d w peer sid ManualLock]]
    by (auto simp: reply_def lock_session_def split: sum.splits prod.splits)
next
  case (SwitchSession seat sid)
  then show ?thesis using quiet_success [OF quiet_switch [of d seat sid]]
    by (auto simp: reply_def switch_session_def Let_def split: sum.splits prod.splits)
next
  case (RequestElevation sid action)
  then show ?thesis
    using quiet_success [OF quiet_start_elevation] start_elevation_no_success by simp
next
  case Suspend
  then show ?thesis using quiet_success [OF quiet_suspend [of d w]]
    by (auto simp: unit_response_def split_def split: sum.splits)
next
  case (Unlock sid name password)
  with assms(2) show ?thesis by blast
next
  case (RespondElevation rid resp)
  with assms(3) show ?thesis by blast
qed (auto simp: unit_response_def split_def split: sum.split)

lemma other_events_no_success:
  assumes inv: "em_inv (d_elevation d)" and ev: "\<And>conn peer r. ev \<noteq> IpcEvent (Command conn peer r)"
    and reg: "registered (d_registry d) c" "registered (d_registry (daemon_event w ev d)) c"
  shows "success_replies (d_registry (daemon_event w ev d)) c \<le> success_replies (d_registry d) c"
proof (cases ev)
  case TickEvent
  then show ?thesis using tick_registry [OF inv, of w c] reg by (auto simp: success_replies_eq)
next
  case (SignalEvent sig ws)
  show ?thesis
  proof (cases "classify_signal sig")
    case (Some e)
    with reg(2) SignalEvent on_signal_registry [of w ws e d c] show ?thesis by (simp add: success_replies_def)
  qed (use SignalEvent in simp)
next
  case (IpcEvent msg)
  show ?thesis
  proof (cases msg)
    case (Connected conn peer)
    with IpcEvent show ?thesis by (simp add: success_replies_def sent_to_def register_def)
  next
    case (Disconnected conn)
    show ?thesis
    proof (cases "c = conn")
      case True
      with reg(2) IpcEvent Disconnected show ?thesis by (simp add: Let_def split: prod.splits)
    next
      case False
      with disconnect_registry [OF inv this, of w] reg(1) IpcEvent Disconnected show ?thesis
        by (auto simp: success_replies_eq)
    qed
  qed (use IpcEvent ev in simp)
qed

subsection \<open>Crashed compositors\<close>

lemma try_spawn_session:
  assumes "hm_get (sm_sessions (d_sessions d)) sid = Some ctx"
  shows "\<exists>p. hm_get (sm_sessions (d_sessions (try_spawn_compositor w i d))) sid =
    Some (ctx\<lparr>ctx_compositor_process := p\<rparr>)"
proof -
  have "\<exists>p. ctx = ctx\<lparr>ctx_compositor_process := p\<rparr>"
    by (rule exI [of _ "ctx_compositor_process ctx"]) simp
  with assms show ?thesis
    by (auto simp: try_spawn_compositor_def d_modify_session_def split: sum.splits prod.splits)
qed

lemma compositor_exit_session:
  assumes "hm_get (sm_sessions (d_sessions d)) sid = Some ctx"
  shows "\<exists>ctx'. hm_get (sm_sessions (d_sessions (handle_compositor_exit w pid d))) sid = Some ctx'
    \<and> ctx_state ctx' \<in> {ctx_state ctx, Starting} \<and> ctx_session ctx' = ctx_session ctx
    \<and> ctx_user ctx' = ctx_user ctx
    \<and> (ctx_compositor_restarts ctx' = ctx_compositor_restarts ctx
        \<or> sid \<in> ctx_id ` set (sm_list (d_sessions d)) \<and> ctx_compositor_restarts ctx' = ctx_compositor_restarts ctx + 1)"
proof (cases "session_of_pid (d_sessions d) pid")
  case None
  with assms show ?thesis by (simp add: handle_compositor_exit_def)
next
  case (Some c)
  have mem: "c \<in> set (sm_list (d_sessions d))"
    using Some unfolding session_of_pid_def by (auto simp: find_Some_iff)
  define ctx3 where "ctx3 = (if sid = ctx_id c
      then try_transition Starting (ctx\<lparr>ctx_compositor_process := None, ctx_compositor_conn := None\<rparr>) else ctx)"
  define d2 where "d2 = (let d1 = d_modify_session (ctx_id c)
        (\<lambda>c. c\<lparr>ctx_compositor_process := None, ctx_compositor_conn := None\<rparr>) d
      in case ctx_compositor_conn c of None \<Rightarrow> d1 | Some conn \<Rightarrow> d1\<lparr>d_registry := unregister conn (d_registry d1)\<rparr>)"
  define d3 where "d3 = d_modify_session (ctx_id c) (try_transition Starting) d2"
  have "sm_sessions (d_sessions d2) = sm_sessions (d_sessions (d_modify_session (ctx_id c)
        (\<lambda>c. c\<lparr>ctx_compositor_process := None, ctx_compositor_conn := None\<rparr>) d))"
    by (simp add: d2_def Let_def split: option.split)
  then have get3: "hm_get (sm_sessions (d_sessions d3)) sid = Some ctx3"
    using assms by (auto simp: d3_def ctx3_def d_modify_session_def)
  have st3: "ctx_state ctx3 \<in> {ctx_state ctx, Starting}" "ctx_session ctx3 = ctx_session ctx"
    "ctx_user ctx3 = ctx_user ctx" "ctx_compositor_restarts ctx3 = ctx_compositor_restarts ctx"
    by (auto simp: ctx3_def ctx_state_try_transition)
  have step: "handle_compositor_exit w pid d =
    (case decide_restart (ctx_compositor_restarts c) (max_compositor_restarts (set_session (d_settings d3))) of
       Restart \<Rightarrow> try_spawn_compositor w (ctx_id c)
         (d_modify_session (ctx_id c) (\<lambda>c. c\<lparr>ctx_compositor_restarts := ctx_compositor_restarts c + 1\<rparr>) d3)
     | FallbackToTerminal \<Rightarrow>
         (case sm_get (d_sessions d3) (ctx_id c) of
            Inl _ \<Rightarrow> d3
          | Inr ctx' \<Rightarrow>
              (case spawn_fallback_terminal (w_launch w) (ctx_user ctx') (ctx_environment ctx') of
                 (made, Inr child) \<Rightarrow>
                   d_modify_session (ctx_id c) (\<lambda>c. c\<lparr>ctx_compositor_process := Some child\<rparr>)
                     (emit (map SpawnEffect made) d3)
               | (made, Inl _) \<Rightarrow> emit (map SpawnEffect made) d3)))"
    unfolding handle_compositor_exit_def Some d3_def d2_def by (simp only: option.case Let_def)
  show ?thesis
  proof (cases "decide_restart (ctx_compositor_restarts c) (max_compositor_restarts (set_session (d_settings d3)))")
    case Restart
    let ?bump = "d_modify_session (ctx_id c) (\<lambda>c. c\<lparr>ctx_compositor_restarts := ctx_compositor_restarts c + 1\<rparr>) d3"
    have "hm_get (sm_sessions (d_sessions ?bump)) sid = Some (if sid = ctx_id c
        then ctx3\<lparr>ctx_compositor_restarts := ctx_compositor_restarts ctx3 + 1\<rparr> else ctx3)"
      using get3 by (auto simp: d_modify_session_def)
    from try_spawn_session [OF this, of w "ctx_id c"] Restart st3 mem show ?thesis
      by (auto simp: step split: if_splits)
  next
    case FallbackToTerminal
    with get3 st3 show ?thesis
      by (auto simp: step d_modify_session_def split: sum.splits prod.splits)
  qed
qed

subsection \<open>Opening a prompt\<close>

lemma em_begin_Inr:
  "(\<exists>i. snd (em_begin sid cconn rconn policy apolicy now m) = Inr i) \<longleftrightarrow>
     \<not> elev_locked_out m sid \<and> pending_of sid m < ep_max_pending policy"
  by (auto simp: em_begin_def Let_def elev_locked_out_def pending_of_def hm_entry_def
      session_elevation_auth_default_def split: option.splits)

lemma start_elevation_None:
  assumes "start_elevation w conn peer sid action d = (d', None)"
  shows "\<exists>cconn. prompt_allowed w sid action cconn d
    \<and> hm_get (em_pending (d_elevation d')) (em_next_id (d_elevation d) + 1) =
        Some \<lparr>pe_session_id = sid, pe_compositor_conn = cconn, pe_requester_conn = conn\<rparr>
    \<and> hm_get (prompt_expiry (em_timeouts (d_elevation d'))) (em_next_id (d_elevation d) + 1) =
        Some (w_now w + from_secs (prompt_timeout_secs (set_elevation (d_settings d))))
    \<and> d_registry d' = send_event cconn (ShowElevationPrompt (em_next_id (d_elevation d) + 1) sid action) (d_registry d)"
proof -
  let ?ep = "elevation_policy_from (set_elevation (d_settings d))"
  let ?ap = "elevation_auth_policy (set_elevation (d_settings d))"
  from assms obtain ctx cconn em rid where
    ok: "validate action = Inr ()" "elev_enabled (set_elevation (d_settings d))"
      "hm_get (sm_sessions (d_sessions d)) sid = Some ctx"
      "user_has_password (w_shadow w) (sess_user_name (ctx_session ctx))" "ctx_compositor_conn ctx = Some cconn"
    and bg: "em_begin sid cconn conn ?ep ?ap (w_now w) (d_elevation d) = (em, Inr rid)"
    and d': "d_elevation d' = em" "d_registry d' = send_event cconn (ShowElevationPrompt rid sid action) (d_registry d)"
    by (auto simp: start_elevation_def d_send_event_def Let_def elevation_policy_from_def
        split: sum.splits if_splits option.splits prod.splits session_error.splits)
  from em_begin_cases [OF bg] have "\<not> elev_locked_out (d_elevation d) sid"
    "pending_of sid (d_elevation d) < ep_max_pending ?ep" "rid = em_next_id (d_elevation d) + 1"
    "hm_get (em_pending em) rid = Some \<lparr>pe_session_id = sid, pe_compositor_conn = cconn, pe_requester_conn = conn\<rparr>"
    "hm_get (prompt_expiry (em_timeouts em)) rid = Some (w_now w + ep_prompt_timeout ?ep)"
    by (auto simp: start_prompt_def)
  with ok d' show ?thesis
    by (intro exI [of _ cconn]) (simp add: prompt_allowed_def elevation_policy_from_def)
qed

lemma start_elevation_allowed:
  assumes "prompt_allowed w sid action cconn d"
  shows "snd (start_elevation w conn peer sid action d) = None"
proof -
  let ?ep = "elevation_policy_from (set_elevation (d_settings d))"
  let ?ap = "elevation_auth_policy (set_elevation (d_settings d))"
  from assms have "\<exists>i. snd (em_begin sid cconn conn ?ep ?ap (w_now w) (d_elevation d)) = Inr i"
    unfolding em_begin_Inr by (simp add: prompt_allowed_def elevation_policy_from_def)
  with assms show ?thesis
    by (auto simp: prompt_allowed_def start_elevation_def elevation_policy_from_def sm_get_def Let_def
        split: sum.splits prod.splits option.splits)
qed

lemma start_elevation_refused:
  assumes "snd (start_elevation w conn peer sid action d) = Some r"
  shows "d_elevation (fst (start_elevation w conn peer sid action d)) = d_elevation d
    \<and> d_registry (fst (start_elevation w conn peer sid action d)) = d_registry d"
  using assms
  by (auto simp: start_elevation_def sm_get_def Let_def dest!: em_begin_cases
      split: sum.splits if_splits option.splits prod.splits session_error.splits)

subsection \<open>Properties\<close>

lemma unlock_success_reply:
  assumes "dispatch w conn peer (Unlock sid name password) d = (d', resp)"
    and "success_replies (d_registry d) c < success_replies (d_registry d') c
      \<or> (c = conn \<and> resp = Some (RAuthResult AuthSuccess))"
  shows "c = conn" "pam_authenticate (w_pam w) (d_authenticator d)
     \<lparr>req_session_id = sid, req_user_name = name, req_password = password\<rparr> = Inr ()"
proof -
  have "success_replies (d_registry d') c = success_replies (d_registry d) c"
    using assms(1) quiet_success [OF quiet_unlock [of d w peer sid name password]] by (auto simp: reply_def)
  with assms show "c = conn" by auto
  have "snd (unlock w peer sid name password d) = RAuthResult AuthSuccess"
    using assms \<open>success_replies (d_registry d') c = _\<close> by (auto simp: reply_def)
  then show "pam_authenticate (w_pam w) (d_authenticator d)
     \<lparr>req_session_id = sid, req_user_name = name, req_password = password\<rparr> = Inr ()"
    by (simp add: unlock_locks attempt_unlock_Success_iff)
qed

lemma respond_success_reply:
  assumes "dispatch w conn peer (RespondElevation rid resp') d = (d', resp)" "registered (d_registry d) c"
    and more: "success_replies (d_registry d) c < success_replies (d_registry d') c
      \<or> (c = conn \<and> resp = Some (RAuthResult AuthSuccess))"
  obtains password request pe where "resp' = Password password" "hm_get (em_pending (d_elevation d)) rid = Some pe"
    "prompt_request d rid password = Some request" "pam_authenticate (w_pam w) (d_authenticator d) request = Inr ()"
    "c = conn \<or> c = pe_requester_conn pe"
proof -
  from assms(1) have re: "respond_elevation w peer rid resp' d = (d', snd (respond_elevation w peer rid resp' d))"
    and resp: "resp = Some (snd (respond_elevation w peer rid resp' d))" by (auto simp: reply_def)
  from re show thesis
  proof (cases rule: respond_elevation_cases)
    case (error e)
    with more resp show ?thesis by simp
  next
    case (answered pe em res)
    have "resp = Some (RAuthResult (eo_outcome res))" using resp answered(3) by simp
    moreover have "success_replies (d_registry d') c = success_replies (d_registry d) c
        + (if eo_terminal res \<and> c = pe_requester_conn pe \<and> eo_outcome res = AuthSuccess then 1 else 0)"
      unfolding answered(2) by (simp add: finish_response_registry success_replies_eq answered(4) assms(2))
    ultimately have out: "eo_outcome res = AuthSuccess" and c: "c = conn \<or> c = pe_requester_conn pe"
      using more by (auto split: if_splits)
    from answered(8) out obtain password request where pw: "resp' = Password password"
      "prompt_request d rid password = Some request"
      "fst (check (pam_authenticate (w_pam w) (d_authenticator d)) request
          (elevation_auth_policy (set_elevation (d_settings d))) (elev_attempts (d_elevation d) (pe_session_id pe))) = AuthSuccess"
      by auto
    then have "pam_authenticate (w_pam w) (d_authenticator d) request = Inr ()" by (simp add: check_Success_iff)
    with that pw(1,2) answered(1) c show thesis by blast
  qed
qed

text \<open>
  C8. A success reply is proof of a password. If an event makes the daemon send \<open>AuthResult Success\<close>
  on some connection, then the event was an authorized request and PAM has just accepted its
  credential: either an \<open>Unlock\<close> made on that connection, or a password answer to an open prompt,
  checked under the name of the user of the prompt's session, where the connection is the one that
  answered or the one that asked.
\<close>

theorem success_reply_is_authenticated:
  assumes inv: "em_inv (d_elevation d)" and reg: "registered (d_registry d) c" "registered (d_registry (daemon_event w ev d)) c"
    and more_success: "success_replies (d_registry d) c < success_replies (d_registry (daemon_event w ev d)) c"
  shows "\<exists>conn peer r request. ev = IpcEvent (Command conn peer r)
    \<and> permitted (w_db w) peer conn r (d_sessions d) (d_elevation d)
    \<and> pam_authenticate (w_pam w) (d_authenticator d) request = Inr ()
    \<and> ((\<exists>sid name password. r = Unlock sid name password \<and> c = conn
           \<and> request = \<lparr>req_session_id = sid, req_user_name = name, req_password = password\<rparr>)
     \<or> (\<exists>rid password pe. r = RespondElevation rid (Password password)
           \<and> hm_get (em_pending (d_elevation d)) rid = Some pe
           \<and> prompt_request d rid password = Some request \<and> (c = conn \<or> c = pe_requester_conn pe)))"
proof -
  have ok: "hm_ok (em_pending (d_elevation d))" using inv by (simp add: em_inv_def)
  obtain conn peer r where ev: "ev = IpcEvent (Command conn peer r)"
    using other_events_no_success [OF inv _ reg] more_success leD by blast
  have auth: "authorize (w_db w) peer conn r (d_sessions d) (d_elevation d) = Inr ()"
    using more_success ev
    by (auto simp: handle_command_def d_send_response_def success_replies_eq split: sum.splits)
  then have perm: "permitted (w_db w) peer conn r (d_sessions d) (d_elevation d)"
    using authorize_iff_permitted by blast
  obtain d' resp where di: "dispatch w conn peer r d = (d', resp)" by fastforce
  have more: "success_replies (d_registry d) c < success_replies (d_registry d') c
      \<or> (c = conn \<and> resp = Some (RAuthResult AuthSuccess))"
    using more_success ev auth di
    by (cases resp) (auto simp: handle_command_def d_send_response_def success_replies_eq split: if_splits)
  consider (unlock) sid name password where "r = Unlock sid name password"
    | (respond) rid resp' where "r = RespondElevation rid resp'"
  proof (cases "(\<exists>sid name password. r = Unlock sid name password) \<or> (\<exists>rid resp'. r = RespondElevation rid resp')")
    case False
    with dispatch_success [OF ok, of r w conn peer c] more di show ?thesis by auto
  qed (use that in blast)
  then show ?thesis
  proof cases
    case unlock
    from unlock_success_reply [OF di [unfolded unlock] more] ev perm unlock show ?thesis
      by (intro exI [of _ conn] exI [of _ peer] exI [of _ r]
          exI [of _ "\<lparr>req_session_id = sid, req_user_name = name, req_password = password\<rparr>"]) simp
  next
    case respond
    from di [unfolded respond] reg(1) more obtain password request pe where "resp' = Password password"
      "hm_get (em_pending (d_elevation d)) rid = Some pe" "prompt_request d rid password = Some request"
      "pam_authenticate (w_pam w) (d_authenticator d) request = Inr ()" "c = conn \<or> c = pe_requester_conn pe"
      by (rule respond_success_reply)
    with ev perm respond show ?thesis
      by (intro exI [of _ conn] exI [of _ peer] exI [of _ r] exI [of _ request]) simp
  qed
qed

theorem success_reply_is_authenticated_witness:
  "\<exists>conn peer r request.
     IpcEvent (Command 2 alice_cred (RespondElevation 1 (Password ''hunter2''))) = IpcEvent (Command conn peer r)
   \<and> pam_authenticate (w_pam sample_world) (d_authenticator prompted_daemon) request = Inr ()"
proof -
  let ?ev = "IpcEvent (Command 2 alice_cred (RespondElevation 1 (Password ''hunter2'')))"
  have 2: "registered (d_registry prompted_daemon) 1" by code_simp
  have 3: "registered (d_registry (daemon_event sample_world ?ev prompted_daemon)) 1" by code_simp
  have 4: "success_replies (d_registry prompted_daemon) 1 <
      success_replies (d_registry (daemon_event sample_world ?ev prompted_daemon)) 1" by code_simp
  from success_reply_is_authenticated [OF em_inv_prompted_daemon 2 3 4] show ?thesis
    by (elim exE conjE) (intro exI conjI; assumption)
qed

text \<open>
  C12. A crash of the compositor never opens a locked session. After any child process has exited,
  the session is still locked, and the next compositor that registers for it is told to show the
  lock screen as the last thing it hears, while the session is in state \<open>Locked\<close>.
\<close>

theorem compositor_crash_keeps_lock:
  assumes "hm_get (sm_sessions (d_sessions d)) sid = Some ctx" "ctx_state ctx \<in> {Starting, Active, Idle, Locked}"
    and "lm_is_locked (d_locks d) sid"
    and "registered (d_registry (handle_compositor_exit w pid d)) conn"
    and "register_compositor conn sid (handle_compositor_exit w pid d) = (d', r)"
  shows "lm_is_locked (d_locks d') sid \<and> r = ROk
    \<and> (\<exists>ctx'. hm_get (sm_sessions (d_sessions d')) sid = Some ctx' \<and> ctx_state ctx' = Locked
         \<and> ctx_compositor_conn ctx' = Some conn)
    \<and> last (sent_to (d_registry d') conn) = EventMsg (ShowLockScreen sid ManualLock)"
proof -
  let ?d = "handle_compositor_exit w pid d"
  from compositor_exit_session [OF assms(1), of w pid] obtain ctx' where
    get: "hm_get (sm_sessions (d_sessions ?d)) sid = Some ctx'" and "ctx_state ctx' \<in> {ctx_state ctx, Starting}"
    by auto
  with assms(2) have "can_transition_to (ctx_state ctx') Locked \<or> ctx_state ctx' = Locked" by auto
  then have st: "ctx_state (try_transition Locked (ctx'\<lparr>ctx_compositor_conn := Some conn\<rparr>)) = Locked"
    by (auto simp: ctx_state_try_transition)
  have locked: "lm_is_locked (d_locks ?d) sid" using assms(3) by simp
  have d': "d' = d_send_event conn (ShowLockScreen sid ManualLock)
      (d_modify_session sid (try_transition Locked)
         (d_modify_session sid (\<lambda>c. c\<lparr>ctx_compositor_conn := Some conn\<rparr>) ?d))" "r = ROk"
    using assms(5) get locked by (auto simp: register_compositor_def sm_get_def Let_def)
  have "last (sent_to (d_registry d') conn) = EventMsg (ShowLockScreen sid ManualLock)"
    using assms(4) by (simp add: d' d_send_event_def sent_to_event)
  moreover have "hm_get (sm_sessions (d_sessions d')) sid = Some (try_transition Locked (ctx'\<lparr>ctx_compositor_conn := Some conn\<rparr>))"
    using get by (simp add: d' d_modify_session_def)
  ultimately show ?thesis using d' locked st by simp
qed

theorem compositor_crash_keeps_lock_witness:
  "let d1 = handle_compositor_exit sample_world 4242 locked_daemon; d2 = fst (register_compositor 3 1 d1)
   in lm_is_locked (d_locks d2) 1 \<and> last (sent_to (d_registry d2) 3) = EventMsg (ShowLockScreen 1 ManualLock)"
proof -
  let ?d1 = "handle_compositor_exit sample_world 4242 locked_daemon"
  let ?c = "the (hm_get (sm_sessions (d_sessions locked_daemon)) 1)"
  have 1: "hm_get (sm_sessions (d_sessions locked_daemon)) 1 = Some ?c" by code_simp
  have 2: "ctx_state ?c \<in> {Starting, Active, Idle, Locked}" by code_simp
  have 3: "lm_is_locked (d_locks locked_daemon) 1" by code_simp
  have 4: "registered (d_registry ?d1) 3" by code_simp
  have 5: "register_compositor 3 1 ?d1 = (fst (register_compositor 3 1 ?d1), snd (register_compositor 3 1 ?d1))" by simp
  from compositor_crash_keeps_lock [OF 1 2 3 4 5] show ?thesis
    unfolding Let_def by - (elim conjE, intro conjI; assumption)
qed

text \<open>
  C13. A prompt is opened exactly when it may be: the action's labels are non-empty and short
  enough, elevation is enabled, the session exists, its user has a usable password and a registered
  compositor, the session is not serving a lockout and has fewer open prompts than the limit. Then
  the prompt is recorded for that compositor and that requester with its deadline, and shown on
  that compositor alone; otherwise the request is answered at once, no prompt is recorded and
  nothing is shown.
\<close>

theorem elevation_prompt_opened_iff:
  "case start_elevation w conn peer sid action d of
     (d', None) \<Rightarrow> (\<exists>cconn. prompt_allowed w sid action cconn d
        \<and> hm_get (em_pending (d_elevation d')) (em_next_id (d_elevation d) + 1) =
            Some \<lparr>pe_session_id = sid, pe_compositor_conn = cconn, pe_requester_conn = conn\<rparr>
        \<and> hm_get (prompt_expiry (em_timeouts (d_elevation d'))) (em_next_id (d_elevation d) + 1) =
            Some (w_now w + from_secs (prompt_timeout_secs (set_elevation (d_settings d))))
        \<and> d_registry d' = send_event cconn (ShowElevationPrompt (em_next_id (d_elevation d) + 1) sid action) (d_registry d))
   | (d', Some r) \<Rightarrow> (\<nexists>cconn. prompt_allowed w sid action cconn d)
        \<and> d_elevation d' = d_elevation d \<and> d_registry d' = d_registry d"
proof (cases "start_elevation w conn peer sid action d")
  case (Pair d' resp)
  then show ?thesis
  proof (cases resp)
    case None
    with Pair start_elevation_None [of w conn peer sid action d d'] show ?thesis by simp
  next
    case (Some r)
    with Pair have "snd (start_elevation w conn peer sid action d) = Some r" by simp
    with Pair Some start_elevation_refused [OF this] start_elevation_allowed [of w sid action _ d conn peer]
    show ?thesis by auto
  qed
qed

text \<open>
  C39. Unlocking checks the account the request names, not the account the session belongs to: with
  any name and password PAM accepts, the session is unlocked, whoever its user is.
\<close>

theorem unlock_accepts_any_account:
  assumes "hm_get (sm_sessions (d_sessions d)) sid = Some ctx" "name \<noteq> sess_user_name (ctx_session ctx)"
    and "lock_state_of (d_locks d) sid \<noteq> LockLockedOut"
    and "pam_authenticate (w_pam w) (d_authenticator d)
      \<lparr>req_session_id = sid, req_user_name = name, req_password = password\<rparr> = Inr ()"
  shows "snd (unlock w peer sid name password d) = RAuthResult AuthSuccess
    \<and> \<not> lm_is_locked (d_locks (fst (unlock w peer sid name password d))) sid"
  using assms(3,4)
  by (simp add: unlock_locks attempt_unlock_Success_iff lm_is_locked_iff attempt_unlock_state
      iffD2 [OF attempt_unlock_Success_iff])

theorem unlock_accepts_any_account_witness:
  "snd (unlock sample_world alice_cred 1 ''mallory'' ''m'' locked_daemon) = RAuthResult AuthSuccess
   \<and> \<not> lm_is_locked (d_locks (fst (unlock sample_world alice_cred 1 ''mallory'' ''m'' locked_daemon))) 1"
proof -
  let ?c = "the (hm_get (sm_sessions (d_sessions locked_daemon)) 1)"
  have 1: "hm_get (sm_sessions (d_sessions locked_daemon)) 1 = Some ?c" by code_simp
  have 2: "''mallory'' \<noteq> sess_user_name (ctx_session ?c)" by code_simp
  have 3: "lock_state_of (d_locks locked_daemon) 1 \<noteq> LockLockedOut" by code_simp
  have 4: "pam_authenticate (w_pam sample_world) (d_authenticator locked_daemon)
      \<lparr>req_session_id = 1, req_user_name = ''mallory'', req_password = ''m''\<rparr> = Inr ()" by code_simp
  show ?thesis by (rule unlock_accepts_any_account [OF 1 2 3 4])
qed

text \<open>
  Suspending locks behind the user's back: the lock manager locks every session, but the state
  of no session changes (clients still see it as not locked) and no compositor is told to show a
  lock screen; the only message any connection gets is \<open>PrepareForSleep\<close>.
\<close>

lemma suspend_locks_silently:
  assumes "m \<in> set (sent_to (d_registry (fst (do_suspend w d))) c)"
  shows "d_sessions (fst (do_suspend w d)) = d_sessions d
    \<and> (m \<in> set (sent_to (d_registry d) c) \<or> m = EventMsg PrepareForSleep)"
  using assms
  by (auto simp: do_suspend_def power_suspend_cases prepare_registry sent_to_fold_events split_def split: if_splits)

end
