(* ===== verification/Daemon_Invariants.thy ===== *)
theory Daemon_Invariants
  imports Daemon_Behaviour
begin

section \<open>What holds in every state the daemon can reach\<close>

text \<open>
  The event loop as a step relation, an invariant of the whole daemon state, and what follows for
  every state that can be reached. A step is one event of the loop, after which the entries of every
  hash map the daemon iterates over may come in any other order: the iteration order of a \<open>HashMap\<close>
  is not specified, and nothing proved here depends on it. (The map of the connection registry is
  never iterated over.) Session ids are 32 bits wide and the counter wraps, so the
  statements are about runs of fewer than $2^{32} - 2$ events.
\<close>

subsection \<open>The same state in another order\<close>

definition same_sessions :: "session_manager \<Rightarrow> session_manager \<Rightarrow> bool" where
  "same_sessions m m' \<longleftrightarrow> hm_same (sm_sessions m) (sm_sessions m') \<and> sm_next_id m' = sm_next_id m"

definition same_locks :: "lock_manager \<Rightarrow> lock_manager \<Rightarrow> bool" where
  "same_locks m m' \<longleftrightarrow> hm_same (lm_locks m) (lm_locks m')
     \<and> hm_same (inhibitors (lm_inhibitors m)) (inhibitors (lm_inhibitors m'))
     \<and> inh_next_id (lm_inhibitors m') = inh_next_id (lm_inhibitors m)
     \<and> hm_same (grace_expiry (lm_timeouts m)) (grace_expiry (lm_timeouts m'))
     \<and> hm_same (lockout_expiry (lm_timeouts m)) (lockout_expiry (lm_timeouts m'))"

definition same_elevation :: "elevation_manager \<Rightarrow> elevation_manager \<Rightarrow> bool" where
  "same_elevation m m' \<longleftrightarrow> hm_same (em_pending m) (em_pending m')
     \<and> hm_same (em_session_auth m) (em_session_auth m')
     \<and> hm_same (prompt_expiry (em_timeouts m)) (prompt_expiry (em_timeouts m'))
     \<and> hm_same (elev_lockout_expiry (em_timeouts m)) (elev_lockout_expiry (em_timeouts m'))
     \<and> em_next_id m' = em_next_id m \<and> em_requester_uid m' = em_requester_uid m"

definition same_idle :: "idle_detector \<Rightarrow> idle_detector \<Rightarrow> bool" where
  "same_idle m m' \<longleftrightarrow> hm_same (last_activity (det_tracker m)) (last_activity (det_tracker m'))
     \<and> hm_same (det_stage m) (det_stage m')"

definition same_daemon :: "daemon \<Rightarrow> daemon \<Rightarrow> bool" where
  "same_daemon d d' \<longleftrightarrow> same_sessions (d_sessions d) (d_sessions d')
     \<and> hm_same (seats (d_seats d)) (seats (d_seats d'))
     \<and> same_locks (d_locks d) (d_locks d') \<and> same_idle (d_idle d) (d_idle d')
     \<and> same_elevation (d_elevation d) (d_elevation d')
     \<and> d_registry d' = d_registry d \<and> d_settings d' = d_settings d \<and> d_authenticator d' = d_authenticator d
     \<and> d_power_backend d' = d_power_backend d \<and> d_socket_path d' = d_socket_path d
     \<and> d_should_exit d' = d_should_exit d \<and> d_audit_path d' = d_audit_path d \<and> d_trace d' = d_trace d"

subsection \<open>The event loop\<close>

inductive dstep :: "daemon \<Rightarrow> world \<times> loop_event \<Rightarrow> daemon \<Rightarrow> bool" where
  dstep: "same_daemon (daemon_event w ev d) d' \<Longrightarrow> dstep d (w, ev) d'"

inductive_cases dstepE: "dstep d e d'"

text \<open>The states the loop starts in, whatever the configuration and the devices.\<close>

definition initial_daemon :: "daemon \<Rightarrow> bool" where
  "initial_daemon d \<longleftrightarrow> (\<exists>w os s. d = daemon_startup w os s)"

definition reachable_in :: "nat \<Rightarrow> daemon \<Rightarrow> bool" where
  "reachable_in n d \<longleftrightarrow> (\<exists>d0 evs. initial_daemon d0 \<and> run dstep d0 evs d \<and> length evs = n)"

text \<open>
  A stretch of a run in which a connection stays registered and does not connect anew, with the
  events of the stretch.
\<close>

inductive served :: "conn_id \<Rightarrow> daemon \<Rightarrow> (world \<times> loop_event) list \<Rightarrow> daemon \<Rightarrow> bool" for c d where
  served_start: "registered (d_registry d) c \<Longrightarrow> served c d [] d"
| served_step: "served c d es t \<Longrightarrow> dstep t (w, ev) u \<Longrightarrow> registered (d_registry u) c \<Longrightarrow>
    \<forall>peer. ev \<noteq> IpcEvent (Connected c peer) \<Longrightarrow> served c d (es @ [(w, ev)]) u"

fun request_on :: "conn_id \<Rightarrow> loop_event \<Rightarrow> bool" where
  "request_on c (IpcEvent (Command conn peer r)) = (c = conn)"
| "request_on c _ = False"

subsection \<open>The invariant\<close>

text \<open>
  A session is \<open>Starting\<close>, \<open>Active\<close> or \<open>Locked\<close>, and one that shows as \<open>Locked\<close> is locked in
  the lock manager, whose word decides.
\<close>

definition state_safe :: "lock_manager \<Rightarrow> session_id \<Rightarrow> session_state \<Rightarrow> bool" where
  "state_safe lm sid st \<longleftrightarrow> st \<in> {Starting, Active, Locked} \<and> (st = Locked \<longrightarrow> lm_is_locked lm sid)"

definition sessions_safe :: "daemon \<Rightarrow> bool" where
  "sessions_safe d \<longleftrightarrow> sm_inv (d_sessions d)
     \<and> (\<forall>sid ctx. hm_get (sm_sessions (d_sessions d)) sid = Some ctx \<longrightarrow> state_safe (d_locks d) sid (ctx_state ctx))"

text \<open>Every lockout has a deadline, so that the tick will end it.\<close>

definition locks_safe :: "lock_manager \<Rightarrow> bool" where
  "locks_safe lm \<longleftrightarrow> lm_ok lm
     \<and> (\<forall>sid. lock_state_of lm sid = LockLockedOut \<longrightarrow> hm_get (lockout_expiry (lm_timeouts lm)) sid \<noteq> None)"

text \<open>A session on a seat has an id that was handed out.\<close>

definition seats_safe :: "daemon \<Rightarrow> bool" where
  "seats_safe d \<longleftrightarrow> seats_ok (d_seats d)
     \<and> (\<forall>sid. seated (d_seats d) sid \<longrightarrow> unat sid \<le> sm_high (d_sessions d))"

definition elev_safe :: "nat \<Rightarrow> elevation_manager \<Rightarrow> bool" where
  "elev_safe n m \<longleftrightarrow> em_inv m \<and> unat (em_next_id m) \<le> n"

definition daemon_inv :: "nat \<Rightarrow> daemon \<Rightarrow> bool" where
  "daemon_inv n d \<longleftrightarrow> sessions_safe d \<and> sm_high (d_sessions d) \<le> n \<and> locks_safe (d_locks d) \<and> seats_safe d
     \<and> elev_safe n (d_elevation d) \<and> detector_ok (d_idle d)"

text \<open>The state after the first loop of the tick, when the idle stages have been dealt with.\<close>

definition after_idle :: "world \<Rightarrow> daemon \<Rightarrow> daemon" where
  "after_idle w d =
     (case tick (w_now w) (idle_policy_from (set_idle (d_settings d))) (d_idle d) of
        (det, changes) \<Rightarrow>
          fold (handle_idle_change w (lock_policy_from (set_lock (d_settings d)))) changes (d\<lparr>d_idle := det\<rparr>))"

subsection \<open>Sessions\<close>

lemma sessions_safe_cong:
  "sessions_safe d \<Longrightarrow> d_sessions d' = d_sessions d \<Longrightarrow> locks_kept d d' \<Longrightarrow> sessions_safe d'"
  by (auto simp: sessions_safe_def state_safe_def locks_kept_def)

lemma sessions_safe_same:
  "d_sessions d' = d_sessions d \<Longrightarrow> d_locks d' = d_locks d \<Longrightarrow> sessions_safe d' = sessions_safe d"
  by (simp add: sessions_safe_def)

lemma sessions_safe_idle [simp]: "sessions_safe (d\<lparr>d_idle := x\<rparr>) = sessions_safe d"
  by (simp add: sessions_safe_def)

lemma sessions_safe_inhibitors:
  "sessions_safe d \<Longrightarrow> sessions_safe (d\<lparr>d_locks := fst (add_inhibitor what who why mode (d_locks d))\<rparr>)"
  "sessions_safe d \<Longrightarrow> sessions_safe (d\<lparr>d_locks := fst (release_inhibitor i (d_locks d))\<rparr>)"
  by (auto simp: add_inhibitor_def release_inhibitor_def split_def sessions_safe_def state_safe_def lm_is_locked_def)

lemma sessions_safe_modify:
  assumes "sessions_safe d"
    and "\<And>ctx. ctx_session (f ctx) = ctx_session ctx \<and> ctx_user (f ctx) = ctx_user ctx"
    and "\<And>ctx. state_safe (d_locks d) sid (ctx_state ctx) \<Longrightarrow> state_safe (d_locks d) sid (ctx_state (f ctx))"
  shows "sessions_safe (d_modify_session sid f d)"
proof -
  have "sm_inv (sm_modify sid f (d_sessions d))"
    using assms(1,2) by (intro sm_inv_modify) (simp_all add: sessions_safe_def)
  with assms(1,3) show ?thesis by (auto simp: sessions_safe_def d_modify_session_def split: if_splits)
qed

lemma state_safe_Starting [simp]: "state_safe lm sid Starting"
  by (simp add: state_safe_def)

lemma state_safe_transition:
  assumes "state_safe lm sid (ctx_state ctx)" "st \<in> {Starting, Active} \<or> st = Locked \<and> lm_is_locked lm sid"
  shows "state_safe lm sid (ctx_state (try_transition st ctx))"
  using assms by (auto simp: state_safe_def ctx_state_try_transition)

lemma sessions_safe_shrink:
  assumes "sessions_safe d" "sm_inv sm"
    and "\<And>i ctx. hm_get (sm_sessions sm) i = Some ctx \<Longrightarrow> hm_get (sm_sessions (d_sessions d)) i = Some ctx"
    and "d_sessions d' = sm" "d_locks d' = d_locks d"
  shows "sessions_safe d'"
  using assms by (auto simp: sessions_safe_def)

lemma sessions_safe_spawn: "sessions_safe d \<Longrightarrow> sessions_safe (try_spawn_compositor w sid d)"
  by (auto simp: try_spawn_compositor_def sessions_safe_same [of "emit effs d" d for effs]
      split: sum.split prod.split intro!: sessions_safe_modify)

lemma sessions_safe_exit: "sessions_safe d \<Longrightarrow> sessions_safe (handle_compositor_exit w pid d)"
proof (cases "session_of_pid (d_sessions d) pid")
  case None
  then show "sessions_safe d \<Longrightarrow> ?thesis" by (simp add: handle_compositor_exit_def)
next
  case (Some ctx)
  let ?d1 = "d_modify_session (ctx_id ctx) (\<lambda>c. c\<lparr>ctx_compositor_process := None, ctx_compositor_conn := None\<rparr>) d"
  define d2 where "d2 = (case ctx_compositor_conn ctx of None \<Rightarrow> ?d1
    | Some conn \<Rightarrow> ?d1\<lparr>d_registry := unregister conn (d_registry ?d1)\<rparr>)"
  define d3 where "d3 = d_modify_session (ctx_id ctx) (try_transition Starting) d2"
  assume "sessions_safe d"
  then have "sessions_safe ?d1" by (rule sessions_safe_modify) simp_all
  then have "sessions_safe d2" by (simp add: d2_def sessions_safe_def split: option.split)
  then have d3: "sessions_safe d3"
    unfolding d3_def by (rule sessions_safe_modify) (simp_all add: state_safe_transition)
  then have "sessions_safe (d_modify_session (ctx_id ctx)
      (\<lambda>c. c\<lparr>ctx_compositor_restarts := ctx_compositor_restarts c + 1\<rparr>) d3)"
    by (rule sessions_safe_modify) simp_all
  moreover have "sessions_safe (d_modify_session (ctx_id ctx)
      (\<lambda>c. c\<lparr>ctx_compositor_process := Some child\<rparr>) (emit effs d3))" for child effs
    by (rule sessions_safe_modify) (use d3 in \<open>simp_all add: sessions_safe_same [of "emit effs d3" d3]\<close>)
  ultimately show ?thesis
    using d3 unfolding handle_compositor_exit_def Some option.case Let_def
    by (fold d2_def, fold d3_def)
      (auto simp: sessions_safe_same [of "emit effs d3" d3 for effs]
        intro: sessions_safe_spawn split: sum.split prod.split restart_decision.split)
qed

lemma sessions_safe_reap: "sessions_safe d \<Longrightarrow> sessions_safe (reap_children w ws d)"
  by (induction w ws d rule: reap_children.induct) (simp_all add: sessions_safe_exit)

lemma sessions_safe_show_lock:
  assumes "sessions_safe d" "lm_is_locked (d_locks d) sid"
  shows "sessions_safe (show_lock sid reason d)"
proof -
  have "sessions_safe (d_modify_session sid (try_transition Locked) d)"
    by (rule sessions_safe_modify [OF assms(1)]) (simp_all add: state_safe_transition assms(2))
  then show ?thesis
    using assms(1) by (auto simp: show_lock_def
        sessions_safe_same [of "notify_compositor ctx e d'" d' for ctx e d'] split: sum.split)
qed

lemma lm_lock_Inr_locked: "lm_lock sid p m = (m', Inr u) \<Longrightarrow> lm_is_locked m' sid"
  by (auto simp: lm_is_locked_iff dest!: lm_lock_cases)

lemma sessions_safe_locked:
  assumes "sessions_safe d" "lm_lock sid p (d_locks d) = (lm, r)"
  shows "sessions_safe (d\<lparr>d_locks := lm\<rparr>)"
  by (rule sessions_safe_cong [OF assms(1)]) (auto simp: locks_kept_def intro: lm_lock_kept' [OF assms(2)])

lemma sessions_safe_lock_session:
  assumes "sessions_safe d"
  shows "sessions_safe (fst (lock_session w peer sid reason d))"
proof (cases "lm_lock sid (lock_policy_from (set_lock (d_settings d))) (d_locks d)")
  case (Pair lm r)
  note safe = sessions_safe_locked [OF assms Pair]
  show ?thesis
  proof (cases r)
    case (Inl e)
    with Pair safe assms show ?thesis by (simp add: lock_session_def)
  next
    case (Inr u)
    with Pair have "lm_is_locked lm sid" by (blast intro: lm_lock_Inr_locked)
    then have "sessions_safe (show_lock sid reason (d\<lparr>d_locks := lm\<rparr>))"
      by (intro sessions_safe_show_lock [OF safe]) simp
    with Pair Inr assms show ?thesis
      by (simp add: lock_session_def sessions_safe_same [of "audit e d'" d' for e d'])
  qed
qed

lemma sessions_safe_idle_lock:
  assumes "sessions_safe d"
  shows "sessions_safe (idle_lock w p seat d)"
proof -
  have "sessions_safe (case lm_lock sid p (d_locks d) of
      (lm, Inr _) \<Rightarrow> show_lock sid IdleLock (d\<lparr>d_locks := lm\<rparr>) | (lm, Inl _) \<Rightarrow> d\<lparr>d_locks := lm\<rparr>)" for sid
  proof (cases "lm_lock sid p (d_locks d)")
    case (Pair lm r)
    note safe = sessions_safe_locked [OF assms Pair]
    show ?thesis
    proof (cases r)
      case (Inr u)
      with Pair have "lm_is_locked lm sid" by (blast intro: lm_lock_Inr_locked)
      with Pair Inr show ?thesis by (simp add: sessions_safe_show_lock [OF safe])
    qed (use Pair safe in simp)
  qed
  then show ?thesis using assms by (simp add: idle_lock_def split: sum.split option.split)
qed

lemma sessions_safe_suspend: "sessions_safe d \<Longrightarrow> sessions_safe (fst (do_suspend w d))"
  by (rule sessions_safe_cong [OF _ _ locks_kept_suspend]) simp_all

lemma sessions_safe_idle_changes: "sessions_safe d \<Longrightarrow> sessions_safe (fold (handle_idle_change w p) chs d)"
proof (induction chs arbitrary: d)
  case (Cons ch chs)
  then have "sessions_safe (handle_idle_change w p ch d)"
    by (auto simp: handle_idle_change_def sessions_safe_idle_lock sessions_safe_suspend
        sessions_safe_same [of "notify_active_compositor seat e d" d for seat e] split: idle_stage.split)
  then show ?case by (simp add: Cons.IH)
qed simp

lemma sessions_safe_tick: "sessions_safe d \<Longrightarrow> sessions_safe (on_idle_tick w d)"
proof -
  assume "sessions_safe d"
  let ?p = "lock_policy_from (set_lock (d_settings d))"
  obtain det chs where ti: "tick (w_now w) (idle_policy_from (set_idle (d_settings d))) (d_idle d) = (det, chs)" by fastforce
  from \<open>sessions_safe d\<close> have "sessions_safe (d\<lparr>d_idle := det\<rparr>)" by (simp add: sessions_safe_def)
  then have safe: "sessions_safe (fold (handle_idle_change w ?p) chs (d\<lparr>d_idle := det\<rparr>))"
    by (rule sessions_safe_idle_changes)
  have "lm_is_locked (m\<lparr>lm_timeouts := t\<rparr>) i = lm_is_locked m i" for m t i by (simp add: lm_is_locked_def)
  with safe show ?thesis
    by (simp add: on_idle_tick_def ti Let_def split_def sessions_safe_def state_safe_def clear_lockouts_locked)
qed

lemma sessions_safe_unlock:
  assumes "sessions_safe d"
  shows "sessions_safe (fst (unlock w peer sid name password d))"
proof -
  obtain lm out where at: "attempt_unlock (pam_authenticate (w_pam w) (d_authenticator d))
      \<lparr>req_session_id = sid, req_user_name = name, req_password = password\<rparr>
      (policy_auth_policy (set_authentication (d_settings d)) (set_lock (d_settings d))) (w_now w) (d_locks d) = (lm, out)"
    by fastforce
  have lst: "lock_state_of lm i = (if i \<noteq> sid then lock_state_of (d_locks d) i
      else case out of AuthSuccess \<Rightarrow> LockUnlocked | AuthLockedOut _ \<Rightarrow> LockLockedOut | _ \<Rightarrow> lock_state_of (d_locks d) i)" for i
    using attempt_unlock_state [of "pam_authenticate (w_pam w) (d_authenticator d)"
        "\<lparr>req_session_id = sid, req_user_name = name, req_password = password\<rparr>"
        "policy_auth_policy (set_authentication (d_settings d)) (set_lock (d_settings d))" "w_now w" "d_locks d" i]
    by (simp add: at)
  have sessions: "d_sessions (fst (unlock w peer sid name password d)) =
      (if out = AuthSuccess then sm_modify sid (try_transition Active) (d_sessions d) else d_sessions d)"
    by (auto simp: unlock_def at Let_def d_modify_session_def sm_get_Inl sm_modify_def hm_modify_absent
        split: sum.split)
  have locks: "d_locks (fst (unlock w peer sid name password d)) = lm" by (simp add: unlock_locks at)
  show ?thesis
  proof (cases "out = AuthSuccess")
    case True
    have "sm_inv (sm_modify sid (try_transition Active) (d_sessions d))"
      using assms by (intro sm_inv_modify) (simp_all add: sessions_safe_def)
    moreover have "state_safe lm i (ctx_state ctx')"
      if "hm_get (sm_sessions (sm_modify sid (try_transition Active) (d_sessions d))) i = Some ctx'" for i ctx'
      using that assms True
      by (fastforce simp: sessions_safe_def state_safe_def lm_is_locked_iff lst ctx_state_try_transition split: if_splits)
    ultimately show ?thesis using True by (simp add: sessions_safe_def sessions locks)
  next
    case False
    have "locks_kept d (fst (unlock w peer sid name password d))"
      using False by (auto simp: locks_kept_def locks lm_is_locked_iff lst split: auth_outcome.splits if_splits)
    with False sessions show ?thesis by (intro sessions_safe_cong [OF assms]) simp_all
  qed
qed

lemma sessions_safe_register:
  assumes "sessions_safe d"
  shows "sessions_safe (fst (register_compositor conn sid d))"
proof -
  let ?d = "d_modify_session sid (\<lambda>c. c\<lparr>ctx_compositor_conn := Some conn\<rparr>) d"
  have d: "sessions_safe ?d" by (rule sessions_safe_modify [OF assms]) simp_all
  have "sessions_safe (d_modify_session sid (try_transition Active) ?d)"
    by (rule sessions_safe_modify [OF d]) (simp_all add: state_safe_transition)
  moreover have "sessions_safe (d_modify_session sid (try_transition Locked) ?d)" if "lm_is_locked (d_locks d) sid"
    by (rule sessions_safe_modify [OF d]) (simp_all add: state_safe_transition that)
  ultimately show ?thesis
    using assms by (auto simp: register_compositor_def Let_def
        sessions_safe_same [of "d_send_event c e d'" d' for c e d'] split: sum.split)
qed

lemma sessions_safe_terminate_all:
  assumes "sessions_safe d" "d_sessions d' = fst (sm_terminate_all sids (d_sessions d))" "d_locks d' = d_locks d"
  shows "sessions_safe d'"
proof (rule sessions_safe_shrink [OF assms(1) _ _ assms(2,3)])
  show "sm_inv (fst (sm_terminate_all sids (d_sessions d)))"
    using assms(1) by (simp add: sessions_safe_def sm_terminate_all_inv)
qed (simp add: sm_terminate_all_get split: if_splits)

lemma terminate_session_sessions:
  "d_sessions (fst (terminate_session w peer sid d)) = fst (sm_terminate_session sid (d_sessions d))"
  by (cases "hm_get (sm_sessions (d_sessions d)) sid")
    (simp_all add: terminate_session_def sm_terminate_session_def Let_def split_def)

lemma sessions_safe_terminate:
  assumes "sessions_safe d"
  shows "sessions_safe (fst (terminate_session w peer sid d))"
proof (rule sessions_safe_shrink [OF assms _ _ terminate_session_sessions])
  show "sm_inv (fst (sm_terminate_session sid (d_sessions d)))"
    using assms by (simp add: sessions_safe_def sm_inv_terminate)
qed (simp_all add: sm_terminate_session_get split: if_splits)

lemma create_session_refused:
  assumes "by_name (w_db w) name = Inr u"
    and "sm_create_session (w_fs w) (w_unix w) u
      (case seat of Some s \<Rightarrow> s | None \<Rightarrow> default_seat (set_seat (d_settings d)))
      (choose_session_type (set_session (d_settings d)) ty) (set_session (d_settings d)) (d_sessions d) = (sm, made, Inl e)"
  shows "d_sessions (fst (create_session w peer name seat ty d)) = sm
      \<and> d_seats (fst (create_session w peer name seat ty d)) = d_seats d"
  by (simp add: create_session_def assms Let_def)

lemma create_session_granted:
  assumes "by_name (w_db w) name = Inr u"
    and "sm_create_session (w_fs w) (w_unix w) u
      (case seat of Some s \<Rightarrow> s | None \<Rightarrow> default_seat (set_seat (d_settings d)))
      (choose_session_type (set_session (d_settings d)) ty) (set_session (d_settings d)) (d_sessions d) = (sm, made, Inr sid)"
  shows "fst (create_session w peer name seat ty d) =
    (let d' = audit (audit_target name (audit_event_new (w_unix w) (peer_uid peer) ''create_session'' ''ok''))
           ((emit (map FsEffect made) (d\<lparr>d_sessions := sm\<rparr>))
              \<lparr>d_seats := attach_session (case seat of Some s \<Rightarrow> s | None \<Rightarrow> default_seat (set_seat (d_settings d)))
                 sid (d_seats d)\<rparr>)
     in if choose_session_type (set_session (d_settings d)) ty \<noteq> Tty then try_spawn_compositor w sid d' else d')"
  by (simp add: create_session_def assms Let_def)

lemma create_session_unknown:
  "by_name (w_db w) name = Inl e \<Longrightarrow> create_session w peer name seat ty d = (d, RError (error_text e))"
  by (simp add: create_session_def)

lemma sm_next_id_spawn [simp]: "sm_next_id (d_sessions (try_spawn_compositor w sid d)) = sm_next_id (d_sessions d)"
  by (simp add: try_spawn_compositor_def d_modify_session_def split: sum.split prod.split)

lemma sm_high_cong: "sm_next_id m' = sm_next_id m \<Longrightarrow> sm_high m' = sm_high m"
  by (simp add: sm_high_def)

lemma sessions_safe_created:
  assumes "sessions_safe d" "Suc (sm_high (d_sessions d)) < 2 ^ 32 - 1"
    and "sm_create_session os now u sname st settings (d_sessions d) = (sm, made, r)"
    and "d_sessions d' = sm" "d_locks d' = d_locks d"
  shows "sessions_safe d'"
proof -
  have "sm_inv (d_sessions d)" using assms(1) by (simp add: sessions_safe_def)
  from sm_inv_create(1) [OF this assms(2,3)] sm_create_cases [OF assms(3)] assms(1,4,5) show ?thesis
    by (auto simp: sessions_safe_def split: if_splits)
qed

lemma create_session_safe:
  assumes safe: "sessions_safe d" "seats_safe d" and lim: "Suc (sm_high (d_sessions d)) < 2 ^ 32 - 1"
    and d'_def: "d' = fst (create_session w peer name seat ty d)"
  shows "sessions_safe d' \<and> seats_safe d' \<and> sm_high (d_sessions d') \<le> Suc (sm_high (d_sessions d))"
proof (cases "by_name (w_db w) name")
  case (Inl e)
  with safe show ?thesis by (simp add: d'_def create_session_unknown)
next
  case (Inr u)
  let ?seat = "case seat of Some s \<Rightarrow> s | None \<Rightarrow> default_seat (set_seat (d_settings d))"
  obtain sm made r where cr: "sm_create_session (w_fs w) (w_unix w) u ?seat
      (choose_session_type (set_session (d_settings d)) ty) (set_session (d_settings d)) (d_sessions d) = (sm, made, r)"
    by (metis prod_cases3)
  have inv: "sm_inv (d_sessions d)" using safe(1) by (simp add: sessions_safe_def)
  note high = sm_inv_create(2,3) [OF inv lim cr]
  show ?thesis
  proof (cases r)
    case (Inl e)
    from create_session_refused [OF \<open>by_name (w_db w) name = Inr u\<close> cr [unfolded this]]
    have "d_sessions d' = sm" "d_seats d' = d_seats d" by (simp_all add: d'_def)
    with safe high sessions_safe_created [OF safe(1) lim cr] show ?thesis
      by (auto simp: seats_safe_def d'_def intro: le_trans)
  next
    case (Inr sid)
    let ?dm = "audit (audit_target name (audit_event_new (w_unix w) (peer_uid peer) ''create_session'' ''ok''))
      ((emit (map FsEffect made) (d\<lparr>d_sessions := sm\<rparr>))\<lparr>d_seats := attach_session ?seat sid (d_seats d)\<rparr>)"
    obtain dm where dm: "d_sessions dm = sm" "d_seats dm = attach_session ?seat sid (d_seats d)"
      "d_locks dm = d_locks d" "d' = dm \<or> d' = try_spawn_compositor w sid dm"
    proof
      show "d' = ?dm \<or> d' = try_spawn_compositor w sid ?dm"
        unfolding d'_def create_session_granted [OF \<open>by_name (w_db w) name = Inr u\<close> cr [unfolded Inr]] Let_def by simp
    qed simp_all
    from sm_inv_create(4) [OF inv lim cr Inr] have new: "unat sid = Suc (sm_high (d_sessions d))"
      "sm_high sm = Suc (sm_high (d_sessions d))" by simp_all
    with safe(2) have "\<not> seated (d_seats d) sid" by (auto simp: seats_safe_def)
    with safe(2) have "seats_ok (attach_session ?seat sid (d_seats d))"
      by (intro seats_ok_attach) (simp_all add: seats_safe_def)
    then have "seats_safe dm"
      using safe(2) new by (auto simp: seats_safe_def dm seated_attach intro: le_trans)
    moreover have "sessions_safe dm" by (rule sessions_safe_created [OF safe(1) lim cr dm(1,3)])
    moreover have "sm_high (d_sessions d') = sm_high sm" using dm(1,4) by (auto simp: sm_high_def)
    ultimately show ?thesis
      using dm(1,2,4) new(2) by (auto simp: sessions_safe_spawn seats_safe_def sm_high_def)
  qed
qed

subsection \<open>Locks\<close>

lemma locks_safe_new [simp]: "locks_safe lm_new"
  by (simp add: locks_safe_def) (simp add: lock_state_of_def lm_new_def hm_entry_def session_lock_default_def)

lemma locks_safe_lock: "locks_safe m \<Longrightarrow> locks_safe (fst (lm_lock sid p m))"
  using lm_ok_lock [of m sid p]
  by (auto simp: locks_safe_def lm_lock_state) (auto simp: lm_lock_def split: if_splits)

lemma locks_safe_lock': "lm_lock sid p m = (m', r) \<Longrightarrow> locks_safe m \<Longrightarrow> locks_safe m'"
  using locks_safe_lock [of m sid p] by simp

lemma locks_safe_attempt: "locks_safe m \<Longrightarrow> locks_safe (fst (attempt_unlock a r p now m))"
proof -
  assume safe: "locks_safe m"
  let ?m' = "fst (attempt_unlock a r p now m)"
  have "hm_get (lockout_expiry (lm_timeouts ?m')) sid \<noteq> None" if "lock_state_of ?m' sid = LockLockedOut" for sid
    using that safe
    by (cases "sid = req_session_id r"; cases "lock_state_of m sid = LockLockedOut")
      (auto simp: locks_safe_def attempt_unlock_timeouts attempt_unlock_state start_lockout_def split: if_splits)
  with safe show ?thesis by (simp add: locks_safe_def lm_ok_attempt)
qed

lemma locks_safe_inhibitors:
  "locks_safe m \<Longrightarrow> locks_safe (fst (add_inhibitor what who why mode m))"
  "locks_safe m \<Longrightarrow> locks_safe (fst (release_inhibitor i m))"
  using lm_ok_add_inhibitor [of m what who why mode] lm_ok_release_inhibitor [of m i]
  by (auto simp: locks_safe_def add_inhibitor_def release_inhibitor_def lock_state_of_def split_def)

lemma locks_safe_prepare: "locks_safe m \<Longrightarrow> locks_safe (fst (prepare_sessions ctxs p m reg))"
  by (induction ctxs arbitrary: m reg) (simp_all add: Let_def split_def locks_safe_lock)

lemma locks_safe_suspend: "locks_safe (d_locks d) \<Longrightarrow> locks_safe (d_locks (fst (do_suspend w d)))"
  by (simp add: do_suspend_def power_suspend_cases split_def locks_safe_prepare)

lemma locks_safe_lock_session: "locks_safe (d_locks d) \<Longrightarrow> locks_safe (d_locks (fst (lock_session w peer sid reason d)))"
  by (auto simp: lock_session_def intro: locks_safe_lock' split: prod.split sum.split)

lemma locks_safe_idle_changes:
  "locks_safe (d_locks d) \<Longrightarrow> locks_safe (d_locks (fold (handle_idle_change w p) chs d))"
proof (induction chs arbitrary: d)
  case (Cons ch chs)
  have "locks_safe (d_locks (idle_lock w p seat d))" for seat
    using Cons.prems
    by (auto simp: idle_lock_def intro: locks_safe_lock' split: sum.split option.split prod.split)
  with Cons.prems have "locks_safe (d_locks (handle_idle_change w p ch d))"
    by (simp add: handle_idle_change_def locks_safe_suspend split: idle_stage.split)
  then show ?case by (simp add: Cons.IH)
qed simp

text \<open>The sweep removes deadlines, but clears the lockout of each session it removes one of.\<close>

lemma locks_safe_sweep:
  assumes "locks_safe m" "expired_lockouts (lm_timeouts m) now = (t, sids)"
  shows "locks_safe (fold clear_lockout sids (m\<lparr>lm_timeouts := t\<rparr>))"
proof -
  have ok: "lm_ok m" using assms(1) by (simp add: locks_safe_def)
  have t: "t = (lm_timeouts m)\<lparr>lockout_expiry := fst (drain_expired (lockout_expiry (lm_timeouts m)) now)\<rparr>"
    and sids: "sids = snd (drain_expired (lockout_expiry (lm_timeouts m)) now)"
    using assms(2) by (simp_all add: expired_lockouts_eq)
  have "lm_ok (m\<lparr>lm_timeouts := t\<rparr>)" using ok by (simp add: lm_ok_def t drain_expired_ok)
  moreover have "lock_state_of (m\<lparr>lm_timeouts := t\<rparr>) = lock_state_of m" by (simp add: lock_state_of_def fun_eq_iff)
  moreover have "hm_get (lockout_expiry t) i = (if i \<in> set sids then None else hm_get (lockout_expiry (lm_timeouts m)) i)" for i
    by (simp add: t sids drain_expired_get)
  ultimately show ?thesis
    using assms(1) by (simp add: locks_safe_def lm_ok_clear_lockouts clear_lockouts_state)
qed

lemma on_idle_tick_parts:
  "d_sessions (on_idle_tick w d) = d_sessions (after_idle w d)"
  "d_seats (on_idle_tick w d) = d_seats d"
  "d_idle (on_idle_tick w d) = fst (tick (w_now w) (idle_policy_from (set_idle (d_settings d))) (d_idle d))"
  "d_locks (on_idle_tick w d) =
     fold clear_lockout (snd (expired_lockouts (lm_timeouts (d_locks (after_idle w d))) (w_now w)))
       ((d_locks (after_idle w d))
          \<lparr>lm_timeouts := fst (expired_lockouts (lm_timeouts (d_locks (after_idle w d))) (w_now w))\<rparr>)"
  "d_elevation (on_idle_tick w d) =
     fst (expire_pending (w_now w) (clear_expired_lockouts (w_now w) (d_elevation d)))"
  by (simp_all add: on_idle_tick_def after_idle_def Let_def split_def)

lemma locks_safe_tick: "locks_safe (d_locks d) \<Longrightarrow> locks_safe (d_locks (on_idle_tick w d))"
proof -
  assume "locks_safe (d_locks d)"
  then have "locks_safe (d_locks (after_idle w d))"
    by (simp add: after_idle_def split_def locks_safe_idle_changes)
  then show ?thesis
    unfolding on_idle_tick_parts by (rule locks_safe_sweep) simp
qed

subsection \<open>Elevation\<close>

lemma em_attempt_next_id: "em_next_id (fst (em_attempt i a r p now m)) = em_next_id m"
proof (cases "hm_get (em_pending m) i")
  case None
  then show ?thesis by (simp add: em_attempt_None)
next
  case (Some pe)
  obtain out n where "check a r p (elev_attempts m (pe_session_id pe)) = (out, n)" by fastforce
  from em_attempt_state(6) [where now = now, OF Some refl this refl] show ?thesis .
qed

lemma em_cancel_next_id: "em_next_id (fst (em_cancel i m)) = em_next_id m"
  by (simp add: em_cancel_def split: option.split)

lemma elev_safe_closes: "elev_safe n m \<Longrightarrow> closes X m m' \<Longrightarrow> elev_safe n m'"
  using em_inv_closes by (auto simp: elev_safe_def closes_def)

lemma elev_safe_abandon: "elev_safe n m \<Longrightarrow> elev_safe n (fst (abandon_where P m))"
  by (rule elev_safe_closes [OF _ abandon_where_closes]) (simp_all add: elev_safe_def em_inv_def)

lemma elev_safe_sweeps:
  assumes "elev_safe n m"
  shows "elev_safe n (fst (expire_pending now (clear_expired_lockouts now m)))"
proof -
  have "em_next_id (clear_expired_lockouts now m) = em_next_id m"
    by (simp add: clear_expired_lockouts_def elev_expired_lockouts_eq)
  then have "elev_safe n (clear_expired_lockouts now m)"
    using assms by (simp add: elev_safe_def em_inv_clear_expired)
  moreover from this have "em_inv (clear_expired_lockouts now m)" by (simp add: elev_safe_def)
  ultimately show ?thesis by (intro elev_safe_closes [OF _ expire_pending_closes])
qed

lemma elev_safe_begin:
  assumes "elev_safe n m" "Suc n < 2 ^ 64" "em_begin sid cconn rconn policy apolicy now m = (m', r)"
  shows "elev_safe (Suc n) m'"
proof -
  have lim: "Suc (unat (em_next_id m)) < 2 ^ 64" using assms(1,2) by (simp add: elev_safe_def)
  then have "unat (em_next_id m + 1) = Suc (unat (em_next_id m))" using unat_Suc_word [of "em_next_id m"] by simp
  then have "unat (em_next_id m') \<le> Suc n"
    using em_begin_cases [OF assms(3)] assms(1) by (auto simp: elev_safe_def)
  with em_inv_begin [OF _ lim assms(3)] assms(1) show ?thesis by (simp add: elev_safe_def)
qed

lemma start_elevation_manager:
  "d_elevation (fst (start_elevation w conn peer sid action d)) = d_elevation d
   \<or> (\<exists>cconn. d_elevation (fst (start_elevation w conn peer sid action d)) =
        fst (em_begin sid cconn conn (elevation_policy_from (set_elevation (d_settings d)))
          (elevation_auth_policy (set_elevation (d_settings d))) (w_now w) (d_elevation d)))"
proof (cases "\<exists>u ctx cconn. validate action = Inr u \<and> ep_enabled (elevation_policy_from (set_elevation (d_settings d)))
      \<and> hm_get (sm_sessions (d_sessions d)) sid = Some ctx \<and> user_has_password (w_shadow w) (sess_user_name (ctx_session ctx))
      \<and> ctx_compositor_conn ctx = Some cconn")
  case True
  then obtain ctx cconn where "hm_get (sm_sessions (d_sessions d)) sid = Some ctx" "ctx_compositor_conn ctx = Some cconn"
    "validate action = Inr ()" "ep_enabled (elevation_policy_from (set_elevation (d_settings d)))"
    "user_has_password (w_shadow w) (sess_user_name (ctx_session ctx))" by auto
  then show ?thesis
    by (intro disjI2 exI [of _ cconn])
      (auto simp: start_elevation_def Let_def sm_get_def split: prod.split sum.split session_error.split)
next
  case False
  then show ?thesis
    by (auto simp: start_elevation_def Let_def sm_get_def ok_or_def split: sum.split option.split if_splits)
qed

lemma elev_safe_start:
  assumes "elev_safe n (d_elevation d)" "Suc n < 2 ^ 64"
  shows "elev_safe (Suc n) (d_elevation (fst (start_elevation w conn peer sid action d)))"
proof -
  have "elev_safe (Suc n) (fst (em_begin sid cconn conn policy apolicy (w_now w) (d_elevation d)))" for cconn policy apolicy
    by (rule elev_safe_begin [OF assms]) (rule surjective_pairing)
  moreover have "elev_safe (Suc n) (d_elevation d)" using assms(1) by (simp add: elev_safe_def)
  ultimately show ?thesis using start_elevation_manager [of w conn peer sid action d] by metis
qed

lemma elev_safe_respond:
  assumes "elev_safe n (d_elevation d)"
  shows "elev_safe n (d_elevation (fst (respond_elevation w peer rid response d)))"
proof -
  obtain d' r where re: "respond_elevation w peer rid response d = (d', r)" by fastforce
  have "elev_safe n (d_elevation d')"
  proof (cases rule: respond_elevation_cases [OF re])
    case (1 e)
    with assms show ?thesis by simp
  next
    case (2 pe em res)
    then have "elev_safe n em"
      using assms by (auto simp: elev_safe_def em_inv_cancel em_inv_attempt em_cancel_next_id em_attempt_next_id)
    with 2 show ?thesis by simp
  qed
  with re show ?thesis by simp
qed

lemma elev_safe_terminate:
  "elev_safe n (d_elevation d) \<Longrightarrow> elev_safe n (d_elevation (fst (terminate_session w peer sid d)))"
  by (auto simp: terminate_session_def Let_def abandon_session_def split_def elev_safe_abandon split: sum.split)

subsection \<open>Only a creation moves the session counter\<close>

lemma sm_next_id_modify [simp]: "sm_next_id (d_sessions (d_modify_session sid f d)) = sm_next_id (d_sessions d)"
  by (simp add: d_modify_session_def)

lemma sm_next_id_terminate_all [simp]: "sm_next_id (fst (sm_terminate_all sids m)) = sm_next_id m"
  by (induction sids arbitrary: m) (simp_all add: split_def)

lemma sm_next_id_exit [simp]: "sm_next_id (d_sessions (handle_compositor_exit w pid d)) = sm_next_id (d_sessions d)"
  by (simp add: handle_compositor_exit_def Let_def split: option.split sum.split prod.split restart_decision.split)

lemma sm_next_id_reap [simp]: "sm_next_id (d_sessions (reap_children w ws d)) = sm_next_id (d_sessions d)"
  by (induction w ws d rule: reap_children.induct) simp_all

lemma sm_next_id_show_lock [simp]: "sm_next_id (d_sessions (show_lock sid reason d)) = sm_next_id (d_sessions d)"
  by (simp add: show_lock_def split: sum.split)

lemma sm_next_id_lock_session [simp]:
  "sm_next_id (d_sessions (fst (lock_session w peer sid reason d))) = sm_next_id (d_sessions d)"
  by (simp add: lock_session_def split: sum.split prod.split)

lemma sm_next_id_unlock [simp]:
  "sm_next_id (d_sessions (fst (unlock w peer sid name password d))) = sm_next_id (d_sessions d)"
  by (simp add: unlock_def Let_def split: sum.split prod.split)

lemma sm_next_id_register [simp]:
  "sm_next_id (d_sessions (fst (register_compositor conn sid d))) = sm_next_id (d_sessions d)"
  by (simp add: register_compositor_def Let_def split: sum.split)

lemma sm_next_id_idle_changes [simp]:
  "sm_next_id (d_sessions (fold (handle_idle_change w p) chs d)) = sm_next_id (d_sessions d)"
proof (induction chs arbitrary: d)
  case (Cons ch chs)
  have "sm_next_id (d_sessions (idle_lock w p seat d)) = sm_next_id (d_sessions d)" for seat
    by (simp add: idle_lock_def split: sum.split option.split prod.split)
  then have "sm_next_id (d_sessions (handle_idle_change w p ch d)) = sm_next_id (d_sessions d)"
    by (simp add: handle_idle_change_def split: idle_stage.split)
  then show ?case by (simp add: Cons.IH)
qed simp

lemma sm_next_id_power [simp]:
  "sm_next_id (d_sessions (fst (do_reboot w d))) = sm_next_id (d_sessions d)"
  "sm_next_id (d_sessions (fst (do_poweroff w d))) = sm_next_id (d_sessions d)"
  by (simp_all add: do_reboot_def do_poweroff_def power_reboot_def power_poweroff_def split_def)

lemma do_power_sessions:
  "d_sessions (fst (do_reboot w d)) = d_sessions d
   \<or> (\<exists>sids. d_sessions (fst (do_reboot w d)) = fst (sm_terminate_all sids (d_sessions d)))"
  "d_sessions (fst (do_poweroff w d)) = d_sessions d
   \<or> (\<exists>sids. d_sessions (fst (do_poweroff w d)) = fst (sm_terminate_all sids (d_sessions d)))"
  by (auto simp: do_reboot_def do_poweroff_def power_reboot_def power_poweroff_def split_def)

lemma sessions_safe_power:
  assumes "sessions_safe d"
  shows "sessions_safe (fst (do_reboot w d))" "sessions_safe (fst (do_poweroff w d))"
  using do_power_sessions [of w d] assms
  by (auto simp: sessions_safe_same [of "fst (do_reboot w d)" d] sessions_safe_same [of "fst (do_poweroff w d)" d]
      intro: sessions_safe_terminate_all)

subsection \<open>Every event keeps the invariant\<close>

lemma daemon_invI:
  assumes "daemon_inv n d" "sessions_safe d'" "sm_next_id (d_sessions d') = sm_next_id (d_sessions d)"
    and "locks_safe (d_locks d')" "seats_ok (d_seats d')" "\<And>sid. seated (d_seats d') sid \<Longrightarrow> seated (d_seats d) sid"
    and "elev_safe (Suc n) (d_elevation d')" "detector_ok (d_idle d')"
  shows "daemon_inv (Suc n) d'"
  using assms sm_high_cong [OF assms(3)] by (auto simp: daemon_inv_def seats_safe_def)

lemma daemon_inv_parts:
  assumes "daemon_inv n d"
  shows "sessions_safe d" "locks_safe (d_locks d)" "seats_ok (d_seats d)" "detector_ok (d_idle d)"
    and "elev_safe (Suc n) (d_elevation d)" "elev_safe n (d_elevation d)" "seats_safe d"
  using assms by (auto simp: daemon_inv_def seats_safe_def elev_safe_def)

lemma seated_switch: "seats_ok m \<Longrightarrow> seated (fst (switch_active i sid m)) x \<Longrightarrow> seated m x"
proof -
  assume ok: "seats_ok m" and "seated (fst (switch_active i sid m)) x"
  moreover obtain m' r where sw: "switch_active i sid m = (m', r)" by fastforce
  moreover have "hm_ok (seats m')" using seats_ok_switch [OF ok, of i sid] sw by (simp add: seats_ok_def)
  ultimately obtain j s' where s': "hm_get (seats m') j = Some s'" "x \<in> set (seat_sessions s')"
    by (auto simp: seated_iff)
  from switch_active_cases [OF sw] have "\<exists>s. hm_get (seats m) j = Some s \<and> x \<in> set (seat_sessions s)"
    using s' ok by (auto simp: seat_modify_def seats_ok_def set_seat_switch split: if_splits)
  with ok show ?thesis by (auto simp: seated_iff seats_ok_def)
qed

lemma switch_session_seats:
  "d_seats (fst (switch_session seat sid d)) = fst (switch_active seat sid (d_seats d))"
  by (simp add: switch_session_def Let_def split: prod.split sum.split)

lemma terminate_session_seats:
  "d_seats (fst (terminate_session w peer sid d)) \<in> {d_seats d, detach_session sid (d_seats d)}"
  by (simp add: terminate_session_def Let_def split: prod.split sum.split)

lemma daemon_inv_create:
  assumes "daemon_inv n d" "Suc n < 2 ^ 32 - 1"
  shows "daemon_inv (Suc n) (fst (create_session w peer name seat ty d))"
proof -
  have lim: "Suc (sm_high (d_sessions d)) < 2 ^ 32 - 1" using assms by (simp add: daemon_inv_def)
  note parts = daemon_inv_parts [OF assms(1)]
  from create_session_safe [OF parts(1,7) lim refl, of w peer name seat ty] show ?thesis
    using parts assms(1) by (auto simp: daemon_inv_def)
qed

lemma daemon_inv_dispatch:
  assumes inv: "daemon_inv n d" and lim: "Suc n < 2 ^ 32 - 1"
  shows "daemon_inv (Suc n) (fst (dispatch w conn peer r d))"
proof -
  note parts = daemon_inv_parts [OF inv]
  have big: "Suc n < 2 ^ 64" using lim by simp
  show ?thesis
  proof (cases r)
    case (CreateSession name seat ty)
    then show ?thesis by (simp add: reply_def daemon_inv_create [OF inv lim])
  next
    case (TerminateSession sid)
    show ?thesis
      by (rule daemon_invI [OF inv])
        (use parts terminate_session_seats [of w peer sid d] in
          \<open>auto simp: TerminateSession reply_def sessions_safe_terminate terminate_session_sessions
            elev_safe_terminate seats_ok_detach seated_detach\<close>)
  next
    case (SwitchSession seat sid)
    show ?thesis
      by (rule daemon_invI [OF inv])
        (use parts in \<open>auto simp: SwitchSession reply_def switch_session_seats seats_ok_switch
            sessions_safe_same [of "fst (switch_session seat sid d)" d] dest: seated_switch\<close>)
  next
    case (RequestElevation sid action)
    show ?thesis
      by (rule daemon_invI [OF inv])
        (use parts in \<open>auto simp: RequestElevation elev_safe_start [OF parts(6) big]
            sessions_safe_same [of "fst (start_elevation w conn peer sid action d)" d]\<close>)
  next
    case (RespondElevation rid response)
    show ?thesis
      by (rule daemon_invI [OF inv])
        (use parts in \<open>auto simp: RespondElevation reply_def elev_safe_respond
            sessions_safe_same [of "fst (respond_elevation w peer rid response d)" d]\<close>)
  qed (rule daemon_invI [OF inv];
      use parts in \<open>auto simp: reply_def split_def sessions_safe_register sessions_safe_lock_session
        sessions_safe_unlock sessions_safe_suspend sessions_safe_power locks_safe_lock_session unlock_locks
        locks_safe_attempt locks_safe_suspend locks_safe_inhibitors detector_ok_record
        sessions_safe_inhibitors\<close>)+
qed

lemma daemon_inv_mono: "daemon_inv n d \<Longrightarrow> daemon_inv (Suc n) d"
  by (auto simp: daemon_inv_def elev_safe_def)

lemma daemon_inv_registry [simp]: "daemon_inv n (d\<lparr>d_registry := reg\<rparr>) = daemon_inv n d"
  by (simp add: daemon_inv_def sessions_safe_def seats_safe_def)

lemma daemon_inv_response [simp]: "daemon_inv n (d_send_response c resp d) = daemon_inv n d"
  by (simp add: d_send_response_def)

lemma daemon_inv_ipc:
  assumes inv: "daemon_inv n d" and lim: "Suc n < 2 ^ 32 - 1"
  shows "daemon_inv (Suc n) (handle_ipc w msg d)"
proof -
  note parts = daemon_inv_parts [OF inv]
  show ?thesis
  proof (cases msg)
    case (Connected conn peer)
    then show ?thesis by (simp add: daemon_inv_mono [OF inv])
  next
    case (Command conn peer r)
    then show ?thesis
      using daemon_inv_dispatch [OF inv lim, of w conn peer r] daemon_inv_mono [OF inv]
      by (auto simp: handle_command_def split: sum.split prod.split option.split)
  next
    case (Disconnected conn)
    let ?d = "handle_ipc w (Disconnected conn) d"
    have sess: "d_sessions ?d = sm_map_all (drop_compositor conn) (d_sessions d)"
      and elev: "d_elevation ?d = fst (abandon_connection conn (d_elevation d))"
      and frame: "d_locks ?d = d_locks d" "d_seats ?d = d_seats d" "d_idle ?d = d_idle d"
      by (simp_all add: Let_def split: prod.split)
    have fields: "ctx_session (drop_compositor conn c) = ctx_session c \<and> ctx_user (drop_compositor conn c) = ctx_user c"
      "ctx_state (drop_compositor conn c) = ctx_state c" for c
      by (simp_all add: drop_compositor_def)
    have "sm_inv (d_sessions ?d)"
      unfolding sess by (rule sm_inv_map_all) (use parts(1) fields in \<open>auto simp: sessions_safe_def\<close>)
    then have "sessions_safe ?d"
      using parts(1) by (auto simp: sessions_safe_def sess frame fields simp del: handle_ipc.simps)
    then have "daemon_inv (Suc n) ?d"
      by (rule daemon_invI [OF inv])
        (use parts in \<open>simp_all add: sess elev frame sm_map_all_def abandon_connection_def elev_safe_abandon
          del: handle_ipc.simps\<close>)
    then show ?thesis by (simp add: Disconnected)
  qed
qed

lemma daemon_inv_tick:
  assumes inv: "daemon_inv n d"
  shows "daemon_inv (Suc n) (on_idle_tick w d)"
proof (rule daemon_invI [OF inv])
  note parts = daemon_inv_parts [OF inv]
  show "sm_next_id (d_sessions (on_idle_tick w d)) = sm_next_id (d_sessions d)"
    by (simp add: on_idle_tick_parts after_idle_def split: prod.split)
  show "elev_safe (Suc n) (d_elevation (on_idle_tick w d))"
    using parts(5) by (simp add: on_idle_tick_parts elev_safe_sweeps)
  show "locks_safe (d_locks (on_idle_tick w d))" by (rule locks_safe_tick [OF parts(2)])
qed (use daemon_inv_parts [OF inv] in \<open>simp_all add: sessions_safe_tick on_idle_tick_parts detector_ok_tick\<close>)

lemma daemon_inv_signal:
  assumes inv: "daemon_inv n d"
  shows "daemon_inv (Suc n) (on_signal w ws sig d)"
proof -
  note parts = daemon_inv_parts [OF inv]
  show ?thesis
  proof (cases sig)
    case Terminate
    let ?d = "on_signal w ws Terminate d"
    have eq: "d_sessions ?d = fst (sm_terminate_all (map ctx_id (sm_list (d_sessions d))) (d_sessions d))"
      and frame: "d_locks ?d = d_locks d" "d_seats ?d = d_seats d" "d_idle ?d = d_idle d" "d_elevation ?d = d_elevation d"
      by (simp_all add: graceful_shutdown_def Let_def split_def)
    from parts(1) eq frame(1) have "sessions_safe ?d" by (rule sessions_safe_terminate_all)
    then have "daemon_inv (Suc n) ?d"
      by (rule daemon_invI [OF inv]) (use parts in \<open>simp_all add: eq frame del: on_signal.simps\<close>)
    then show ?thesis by (simp only: Terminate)
  next
    case ReloadConfig
    show ?thesis
      using inv parts unfolding ReloadConfig
      by (auto simp: reload_config_def daemon_inv_def sessions_safe_def seats_safe_def elev_safe_def
          split: sum.split) (simp_all add: set_requester_uid_def)
  next
    case ReapChildren
    have "daemon_inv (Suc n) (reap_children w ws d)"
      by (rule daemon_invI [OF inv]) (use parts in \<open>simp_all add: sessions_safe_reap\<close>)
    then show ?thesis by (simp add: ReapChildren)
  qed
qed

lemma daemon_inv_event:
  assumes "daemon_inv n d" "Suc n < 2 ^ 32 - 1"
  shows "daemon_inv (Suc n) (daemon_event w ev d)"
  using daemon_inv_ipc [OF assms] daemon_inv_tick [OF assms(1)] daemon_inv_signal [OF assms(1)] daemon_inv_mono [OF assms(1)]
  by (cases ev) (auto split: option.split)

subsection \<open>The order of a hash map does not matter\<close>

lemma sessions_safe_reorder:
  assumes "sessions_safe d" "same_sessions (d_sessions d) (d_sessions d')"
    and "\<And>sid. lm_is_locked (d_locks d') sid = lm_is_locked (d_locks d) sid"
  shows "sessions_safe d'"
proof -
  have ok: "hm_ok (sm_sessions (d_sessions d))" and same: "hm_same (sm_sessions (d_sessions d)) (sm_sessions (d_sessions d'))"
    using assms by (simp_all add: sessions_safe_def sm_inv_def same_sessions_def)
  then have "hm_ok (sm_sessions (d_sessions d'))" using hm_same_ok by blast
  moreover have "sm_next_id (d_sessions d') = sm_next_id (d_sessions d)" using assms(2) by (simp add: same_sessions_def)
  ultimately show ?thesis
    using assms(1,3) sm_high_cong [of "d_sessions d'" "d_sessions d"]
    by (simp add: sessions_safe_def sm_inv_def state_safe_def ids_below_def hm_same_get [OF ok same])
qed

lemma locks_same_state:
  assumes "lm_ok m" "same_locks m m'"
  shows "lock_state_of m' = lock_state_of m"
proof -
  have "hm_ok (lm_locks m)" "hm_same (lm_locks m) (lm_locks m')" using assms by (simp_all add: lm_ok_def same_locks_def)
  then show ?thesis by (simp add: fun_eq_iff lock_state_of_def hm_entry_def hm_same_get)
qed

lemma locks_safe_reorder:
  assumes "locks_safe m" "same_locks m m'"
  shows "locks_safe m'"
proof -
  have ok: "lm_ok m" using assms(1) by (simp add: locks_safe_def)
  then have "lm_ok m'" using assms(2) by (auto simp: lm_ok_def same_locks_def intro: iffD2 [OF hm_same_ok])
  moreover have "hm_get (lockout_expiry (lm_timeouts m')) i = hm_get (lockout_expiry (lm_timeouts m)) i" for i
    using ok assms(2) by (intro hm_same_get) (simp_all add: lm_ok_def same_locks_def)
  ultimately show ?thesis using assms locks_same_state [OF ok assms(2)] by (simp add: locks_safe_def)
qed

lemma seats_reorder:
  assumes "seats_ok m" "hm_same (seats m) (seats m')"
  shows "seats_ok m' \<and> (\<forall>sid. seated m' sid = seated m sid)"
proof -
  have ok: "hm_ok (seats m)" using assms(1) by (simp add: seats_ok_def)
  then have ok': "hm_ok (seats m')" using hm_same_ok [OF assms(2)] by simp
  have get: "hm_get (seats m') i = hm_get (seats m) i" for i by (rule hm_same_get [OF ok assms(2)])
  show ?thesis using assms(1) ok' by (simp add: seats_ok_def get seated_iff [OF ok] seated_iff [OF ok'])
qed

lemma elev_safe_reorder:
  assumes "elev_safe n m" "same_elevation m m'"
  shows "elev_safe n m'"
proof -
  have ok: "hm_ok (em_pending m)" "hm_ok (em_session_auth m)" "hm_ok (prompt_expiry (em_timeouts m))"
    "hm_ok (elev_lockout_expiry (em_timeouts m))"
    using assms(1) by (simp_all add: elev_safe_def em_inv_def)
  moreover have same: "hm_same (em_pending m) (em_pending m')" "hm_same (em_session_auth m) (em_session_auth m')"
    "hm_same (prompt_expiry (em_timeouts m)) (prompt_expiry (em_timeouts m'))"
    "hm_same (elev_lockout_expiry (em_timeouts m)) (elev_lockout_expiry (em_timeouts m'))" "em_next_id m' = em_next_id m"
    using assms(2) by (simp_all add: same_elevation_def)
  moreover have "hm_ok (em_pending m')" "hm_ok (em_session_auth m')" "hm_ok (prompt_expiry (em_timeouts m'))"
    "hm_ok (elev_lockout_expiry (em_timeouts m'))"
    using ok same hm_same_ok by blast+
  ultimately show ?thesis
    using assms(1) by (simp add: elev_safe_def em_inv_def ids_below_def
        hm_same_get [OF ok(1) same(1)] hm_same_get [OF ok(2) same(2)] hm_same_get [OF ok(3) same(3)] hm_same_get [OF ok(4) same(4)])
qed

lemma detector_reorder:
  assumes "detector_ok m" "same_idle m m'"
  shows "detector_ok m'"
proof -
  have ok: "hm_ok (last_activity (det_tracker m))" "hm_ok (det_stage m)"
    and same: "hm_same (last_activity (det_tracker m)) (last_activity (det_tracker m'))" "hm_same (det_stage m) (det_stage m')"
    using assms by (simp_all add: detector_ok_def same_idle_def)
  then have "hm_ok (last_activity (det_tracker m'))" "hm_ok (det_stage m')" using hm_same_ok by blast+
  with assms(1) show ?thesis
    by (simp add: detector_ok_def hm_same_get [OF ok(1) same(1)] hm_same_get [OF ok(2) same(2)])
qed

lemma daemon_inv_reorder:
  assumes "daemon_inv n d" "same_daemon d d'"
  shows "daemon_inv n d'"
proof -
  note parts = daemon_inv_parts [OF assms(1)]
  have locks: "same_locks (d_locks d) (d_locks d')" and sess: "same_sessions (d_sessions d) (d_sessions d')"
    using assms(2) by (simp_all add: same_daemon_def)
  have "lm_ok (d_locks d)" using parts(2) by (simp add: locks_safe_def)
  from locks_same_state [OF this locks] have "sessions_safe d'"
    by (intro sessions_safe_reorder [OF parts(1) sess]) (simp add: lm_is_locked_iff)
  moreover have "sm_high (d_sessions d') = sm_high (d_sessions d)"
    using sess by (intro sm_high_cong) (simp add: same_sessions_def)
  moreover have "seats_ok (d_seats d') \<and> (\<forall>sid. seated (d_seats d') sid = seated (d_seats d) sid)"
    using assms(2) by (intro seats_reorder [OF parts(3)]) (simp add: same_daemon_def)
  moreover have "elev_safe n (d_elevation d')" "detector_ok (d_idle d')"
    using assms(2) elev_safe_reorder [OF parts(6)] detector_reorder [OF parts(4)] by (simp_all add: same_daemon_def)
  ultimately show ?thesis
    using assms(1) locks_safe_reorder [OF parts(2) locks] by (simp add: daemon_inv_def seats_safe_def)
qed

subsection \<open>The invariant along runs\<close>

lemma seated_ensure: "seats_ok m \<Longrightarrow> seated (ensure_seat i m) x = seated m x"
  using seats_ok_ensure [of m i]
  by (auto simp: seated_iff seats_ok_def ensure_seat_get split: if_splits)

lemma seated_list: "hm_ok (seats m) \<Longrightarrow> seated m x \<longleftrightarrow> (\<exists>i xs. seat_list m i = Some xs \<and> x \<in> set xs)"
  by (auto simp: seated_iff seat_list_def)

lemma seated_devices:
  assumes "seats_ok m"
  shows "seated (set_devices i devices m) x = seated m x"
proof -
  have "hm_ok (seats (set_devices i devices m))" "hm_ok (seats (ensure_seat i m))"
    using seats_ok_set_devices [OF assms] seats_ok_ensure [OF assms] by (simp_all add: seats_ok_def)
  then have "seated (set_devices i devices m) x = seated (ensure_seat i m) x"
    by (simp add: seated_list seat_list_devices)
  then show ?thesis by (simp add: seated_ensure [OF assms])
qed

lemma not_seated_new [simp]: "\<not> seated seats_new sid"
  by (simp add: seated_def seats_new_def hm_values_def)

lemma daemon_inv_initial: "initial_daemon d \<Longrightarrow> daemon_inv 0 d"
proof -
  assume "initial_daemon d"
  then obtain w os s where d: "d = daemon_startup w os s" by (auto simp: initial_daemon_def)
  have fields: "d_sessions d = sm_new" "d_locks d = lm_new" "d_idle d = detector_new"
    "\<exists>uid. d_elevation d = set_requester_uid uid em_new"
    by (auto simp: d daemon_startup_def daemon_new_def Let_def split: sum.split)
  have "seats_ok (d_seats d)" "\<not> seated (d_seats d) sid" for sid
    by (auto simp: d daemon_startup_def daemon_new_def Let_def seats_ok_ensure seats_ok_set_devices
        seated_ensure seated_devices split: sum.split)
  moreover have "hm_get (sm_sessions sm_new) sid = None" "sm_high sm_new = 0" "em_next_id (set_requester_uid uid em_new) = 0"
    for sid uid by (simp_all add: sm_new_def sm_high_def em_new_def set_requester_uid_def)
  ultimately show ?thesis
    using fields by (auto simp: daemon_inv_def sessions_safe_def seats_safe_def elev_safe_def)
qed

interpretation daemon_runs: bounded_invariant dstep initial_daemon daemon_inv "2 ^ 32 - 2"
proof unfold_locales
  show "initial_daemon s \<Longrightarrow> daemon_inv 0 s" for s by (rule daemon_inv_initial)
  show "daemon_inv n s \<Longrightarrow> n < 2 ^ 32 - 2 \<Longrightarrow> dstep s e t \<Longrightarrow> daemon_inv (Suc n) t" for n s e t
  proof (erule dstepE)
    fix w ev
    assume "daemon_inv n s" "n < 2 ^ 32 - 2" and same: "same_daemon (daemon_event w ev s) t"
    then have "daemon_inv (Suc n) (daemon_event w ev s)" by (intro daemon_inv_event) simp_all
    then show "daemon_inv (Suc n) t" by (rule daemon_inv_reorder [OF _ same])
  qed
qed

end
