(* ===== verification/Daemon_Reachable.thy ===== *)
theory Daemon_Reachable
  imports Daemon_Invariants
begin

section \<open>Runs of the daemon\<close>

text \<open>
  The properties of whole runs: what every reachable state satisfies, that nothing the daemon waits
  for can be waited for forever, that requests and replies balance, and that a termination signal ends the event loop of \<open>run\<close> in \<open>src/main.rs\<close>.
\<close>

subsection \<open>The loop of \<open>run\<close>\<close>

text \<open>
  One call of \<open>event_loop.dispatch\<close> runs the callbacks of all events that are ready, a batch;
  \<open>should_exit\<close> is looked at between two calls only.
\<close>

definition dispatch_batch :: "(world \<times> loop_event) list \<Rightarrow> daemon \<Rightarrow> daemon" where
  "dispatch_batch batch d = fold (\<lambda>(w, ev). daemon_event w ev) batch d"

fun event_loop :: "(world \<times> loop_event) list list \<Rightarrow> daemon \<Rightarrow> daemon" where
  "event_loop [] d = d"
| "event_loop (batch # batches) d =
     (if d_should_exit d then d else event_loop batches (dispatch_batch batch d))"

subsection \<open>Reachable states\<close>

lemma reachable_inv: "reachable_in n d \<Longrightarrow> n \<le> 2 ^ 32 - 2 \<Longrightarrow> daemon_inv n d"
  unfolding reachable_in_def using daemon_runs.run_inv by blast

lemma hm_same_refl [simp]: "hm_same m m"
  by (simp add: hm_same_def)

lemma same_daemon_refl [simp]: "same_daemon d d"
  by (simp add: same_daemon_def same_sessions_def same_locks_def same_idle_def same_elevation_def)

lemma run_fold_events: "run dstep d (map (Pair w) evs) (fold (daemon_event w) evs d)"
proof (induction evs rule: rev_induct)
  case Nil
  then show ?case by (simp add: run_start)
next
  case (snoc ev evs)
  have "dstep (fold (daemon_event w) evs d) (w, ev) (daemon_event w ev (fold (daemon_event w) evs d))"
    by (rule dstep) simp
  from run_step [OF snoc.IH this] show ?case by simp
qed

lemma run_trans: "run step t es u \<Longrightarrow> run step s ds t \<Longrightarrow> run step s (ds @ es) u"
proof (induction rule: run.induct)
  case (run_step t es u e v)
  then have "run step s ((ds @ es) @ [e]) v" by (intro run.run_step) simp_all
  then show ?case by simp
qed simp

lemma reachable_run_events:
  assumes "reachable_in n d" "k = n + length evs"
  shows "reachable_in k (run_events evs d)"
proof -
  from assms(1) obtain d0 ds where "initial_daemon d0" "run dstep d0 ds d" "length ds = n"
    by (auto simp: reachable_in_def)
  moreover have "run dstep d (map (Pair sample_world) evs) (run_events evs d)"
    unfolding run_events_def by (rule run_fold_events)
  ultimately show ?thesis
    unfolding reachable_in_def by (intro exI [of _ d0] exI [of _ "ds @ map (Pair sample_world) evs"])
      (auto intro: run_trans simp: assms(2))
qed

lemma reachable_startup: "reachable_in 0 (daemon_startup w os s)"
  unfolding reachable_in_def initial_daemon_def by (auto intro: run_start)

lemma reachable_samples:
  "reachable_in 5 sample_daemon" "reachable_in 6 locked_daemon" "reachable_in 6 prompted_daemon"
proof -
  show 1: "reachable_in 5 sample_daemon"
    unfolding sample_daemon_def by (rule reachable_run_events [OF reachable_startup]) simp
  show "reachable_in 6 locked_daemon"
    unfolding locked_daemon_def by (rule reachable_run_events [OF 1]) simp
  show "reachable_in 6 prompted_daemon"
    unfolding prompted_daemon_def by (rule reachable_run_events [OF 1]) simp
qed

subsection \<open>The tick ends what is due\<close>

lemma lm_lock_timeouts: "lm_lock sid p m = (m', r) \<Longrightarrow> lm_timeouts m' = lm_timeouts m"
  by (auto dest: lm_lock_cases)

lemma prepare_timeouts: "lm_timeouts (fst (prepare_sessions ctxs p m reg)) = lm_timeouts m"
proof (induction ctxs arbitrary: m reg)
  case (Cons ctx ctxs)
  have "lm_timeouts (fst (lm_lock sid p m)) = lm_timeouts m" for sid using lm_lock_timeouts by (metis prod.collapse)
  with Cons show ?case by (simp add: Let_def split_def)
qed simp

lemma idle_change_timeouts: "lm_timeouts (d_locks (handle_idle_change w p ch d)) = lm_timeouts (d_locks d)"
proof -
  have "lm_timeouts (d_locks (fst (do_suspend w d))) = lm_timeouts (d_locks d)"
    by (simp add: do_suspend_def power_suspend_cases split_def prepare_timeouts)
  moreover have "lm_timeouts (d_locks (idle_lock w p seat d)) = lm_timeouts (d_locks d)" for seat
    by (auto simp: idle_lock_def dest: lm_lock_timeouts split: sum.split option.split prod.split)
  ultimately show ?thesis by (simp add: handle_idle_change_def split: idle_stage.split)
qed

lemma after_idle_timeouts: "lm_timeouts (d_locks (after_idle w d)) = lm_timeouts (d_locks d)"
proof -
  have "lm_timeouts (d_locks (fold (handle_idle_change w p) chs d)) = lm_timeouts (d_locks d)" for p chs d
    by (induction chs arbitrary: d) (simp_all add: idle_change_timeouts)
  then show ?thesis by (simp add: after_idle_def split: prod.split)
qed

lemma tick_ends_lockout:
  assumes "lm_ok (d_locks d)" "hm_get (lockout_expiry (lm_timeouts (d_locks d))) sid = Some t" "t \<le> w_now w"
  shows "lock_state_of (d_locks (on_idle_tick w d)) sid \<noteq> LockLockedOut"
proof -
  have "hm_ok (lockout_expiry (lm_timeouts (d_locks d)))" using assms(1) by (simp add: lm_ok_def)
  then have "sid \<in> set (snd (expired_lockouts (lm_timeouts (d_locks (after_idle w d))) (w_now w)))"
    using assms(2,3) by (simp add: expired_lockouts_eq after_idle_timeouts drain_expired_reports)
  then show ?thesis by (simp add: on_idle_tick_parts clear_lockouts_state)
qed

lemma tick_ends_elevation:
  assumes "em_inv (d_elevation d)"
  shows "hm_get (prompt_expiry (em_timeouts (d_elevation d))) i = Some t \<Longrightarrow> t \<le> w_now w \<Longrightarrow>
      hm_get (em_pending (d_elevation (on_idle_tick w d))) i = None"
    and "hm_get (elev_lockout_expiry (em_timeouts (d_elevation d))) sid = Some t \<Longrightarrow> t \<le> w_now w \<Longrightarrow>
      \<not> elev_locked_out (d_elevation (on_idle_tick w d)) sid"
proof -
  let ?m = "clear_expired_lockouts (w_now w) (d_elevation d)"
  note cl = expire_pending_closes [OF em_inv_clear_expired [OF assms], of "w_now w" "w_now w"]
  have same: "prompt_expiry (em_timeouts ?m) = prompt_expiry (em_timeouts (d_elevation d))"
    by (simp add: clear_expired_lockouts_def elev_expired_lockouts_eq)
  show "hm_get (em_pending (d_elevation (on_idle_tick w d))) i = None"
    if "hm_get (prompt_expiry (em_timeouts (d_elevation d))) i = Some t" "t \<le> w_now w"
    using cl that by (auto simp: on_idle_tick_parts closes_def same)
  have "hm_ok (elev_lockout_expiry (em_timeouts (d_elevation d)))" using assms by (simp add: em_inv_def)
  from clear_expired_lockouts_out [OF this, of "w_now w" sid] cl
  show "\<not> elev_locked_out (d_elevation (on_idle_tick w d)) sid"
    if "hm_get (elev_lockout_expiry (em_timeouts (d_elevation d))) sid = Some t" "t \<le> w_now w"
    using that by (auto simp: on_idle_tick_parts closes_def elev_locked_out_def)
qed

subsection \<open>Shutting down\<close>

lemma exit_is_final: "d_should_exit d \<Longrightarrow> event_loop batches d = d"
  by (cases batches) simp_all

lemma event_keeps_exit: "d_should_exit d \<Longrightarrow> d_should_exit (daemon_event w ev d)"
proof -
  assume ex: "d_should_exit d"
  have "d_should_exit (fst (dispatch w conn peer r d))" for conn peer r
    using ex by (cases r) (simp_all add: reply_def split_def)
  moreover have "d_should_exit (on_signal w ws e d)" for ws e
    using ex by (cases e) (simp_all add: Let_def split_def reload_config_def split: sum.split)
  moreover have "d_should_exit (on_idle_tick w d)"
    using ex by (simp add: on_idle_tick_def Let_def split_def)
  moreover have "d_should_exit (handle_ipc w msg d)" for msg
    using ex calculation(1)
    by (cases msg) (auto simp: handle_command_def Let_def split_def split: sum.split option.split)
  ultimately show ?thesis by (cases ev) (auto simp: ex split: option.split simp del: handle_ipc.simps on_signal.simps)
qed

lemma batch_keeps_exit: "d_should_exit d \<Longrightarrow> d_should_exit (dispatch_batch batch d)"
  unfolding dispatch_batch_def by (induction batch arbitrary: d) (auto simp: event_keeps_exit)

subsection \<open>Balancing requests and replies\<close>

lemma served_reachable:
  assumes "served c d es d'" "daemon_inv n d" "n + length es \<le> 2 ^ 32 - 2"
  shows "daemon_inv (n + length es) d' \<and> registered (d_registry d') c"
  using assms(1,3)
proof (induction rule: served.induct)
  case served_start
  with assms(2) show ?case by simp
next
  case (served_step es t w ev u)
  then have "daemon_inv (n + length es) t" by simp
  from daemon_runs.inv_step [OF this _ served_step.hyps(2)] served_step show ?case by simp
qed

lemma dstep_replies:
  assumes inv: "daemon_inv n d" and lim: "n < 2 ^ 32 - 2" and step: "dstep d (w, ev) u"
    and reg: "registered (d_registry d) c" "registered (d_registry u) c" and new: "\<forall>peer. ev \<noteq> IpcEvent (Connected c peer)"
  shows "replies (d_registry u) c + owed (d_elevation u) c =
    replies (d_registry d) c + owed (d_elevation d) c + (if request_on c ev then 1 else 0)"
proof -
  from step have same: "same_daemon (daemon_event w ev d) u" by (auto elim: dstepE)
  then have regs: "d_registry u = d_registry (daemon_event w ev d)"
    and "hm_same (em_pending (d_elevation (daemon_event w ev d))) (em_pending (d_elevation u))"
    by (simp_all add: same_daemon_def same_elevation_def)
  then have ow: "owed (d_elevation u) c = owed (d_elevation (daemon_event w ev d)) c"
    unfolding owed_def by (intro hm_same_count)
  have em: "em_inv (d_elevation d)" "Suc (unat (em_next_id (d_elevation d))) < 2 ^ 64"
    using inv lim by (simp_all add: daemon_inv_def elev_safe_def)
  from event_replies [OF em reg(1) reg(2) [unfolded regs] new] show ?thesis
    unfolding regs ow by (simp split: loop_event.splits manager_message.splits)
qed

subsection \<open>Properties\<close>

text \<open>
  C2. In every reachable state the session registry, the lock manager and the seats agree. Every
  session is in state \<open>Starting\<close>, \<open>Active\<close> or \<open>Locked\<close> (never \<open>Idle\<close>, \<open>Closing\<close> or \<open>Closed\<close>); one that
  clients see as \<open>Locked\<close> is locked in the lock manager, so that only a password opens it; it is
  filed under its own id, and its owner is the account it was created for. No session is on two
  seats or twice on one.
\<close>

theorem reachable_states_consistent:
  assumes "reachable_in n d" "n \<le> 2 ^ 32 - 2" "hm_get (sm_sessions (d_sessions d)) sid = Some ctx"
  shows "ctx_state ctx \<in> {Starting, Active, Locked}
    \<and> (ctx_state ctx = Locked \<longrightarrow> lm_is_locked (d_locks d) sid)
    \<and> ctx_id ctx = sid \<and> sess_uid (ctx_session ctx) = user_uid (ctx_user ctx)
    \<and> sess_user_name (ctx_session ctx) = user_name (ctx_user ctx)
    \<and> seats_ok (d_seats d)"
proof -
  note parts = daemon_inv_parts [OF reachable_inv [OF assms(1,2)]]
  from parts(1) assms(3) have "state_safe (d_locks d) sid (ctx_state ctx)" "ctx_ok sid ctx"
    by (auto simp: sessions_safe_def sm_inv_def)
  with parts(3) show ?thesis by (simp add: state_safe_def ctx_ok_def)
qed

theorem reachable_states_consistent_witness: "lm_is_locked (d_locks locked_daemon) 1"
proof -
  let ?c = "the (hm_get (sm_sessions (d_sessions locked_daemon)) 1)"
  have 1: "hm_get (sm_sessions (d_sessions locked_daemon)) 1 = Some ?c" by code_simp
  have 2: "ctx_state ?c = Locked" by code_simp
  have "6 \<le> (2 ^ 32 - 2 :: nat)" by simp
  from reachable_states_consistent [OF reachable_samples(2) this 1] 2 show ?thesis by (elim conjE) (erule mp)
qed

text \<open>
  C9. Nothing is waited for forever. In every reachable state each screen-lock lockout, each elevation
  lockout and each open elevation prompt has a deadline, and a tick at that time or later ends the
  lockout or closes the prompt, whatever happens in the rest of that tick.
\<close>

theorem every_wait_has_a_deadline:
  assumes "reachable_in n d" "n \<le> 2 ^ 32 - 2"
  shows "(lock_state_of (d_locks d) sid = LockLockedOut \<longrightarrow>
        (\<exists>t. \<forall>w. t \<le> w_now w \<longrightarrow> lock_state_of (d_locks (daemon_event w TickEvent d)) sid \<noteq> LockLockedOut))
    \<and> (elev_locked_out (d_elevation d) sid \<longrightarrow>
        (\<exists>t. \<forall>w. t \<le> w_now w \<longrightarrow> \<not> elev_locked_out (d_elevation (daemon_event w TickEvent d)) sid))
    \<and> (hm_get (em_pending (d_elevation d)) i \<noteq> None \<longrightarrow>
        (\<exists>t. \<forall>w. t \<le> w_now w \<longrightarrow> hm_get (em_pending (d_elevation (daemon_event w TickEvent d))) i = None))"
proof -
  have inv: "daemon_inv n d" by (rule reachable_inv [OF assms])
  then have ok: "lm_ok (d_locks d)" and em: "em_inv (d_elevation d)"
    by (simp_all add: daemon_inv_def locks_safe_def elev_safe_def)
  have "\<exists>t. hm_get (lockout_expiry (lm_timeouts (d_locks d))) sid = Some t" if "lock_state_of (d_locks d) sid = LockLockedOut"
    using inv that by (auto simp: daemon_inv_def locks_safe_def)
  moreover have "\<exists>t. hm_get (elev_lockout_expiry (em_timeouts (d_elevation d))) sid = Some t" if "elev_locked_out (d_elevation d) sid"
    using em that by (auto simp: em_inv_alt)
  moreover have "\<exists>t. hm_get (prompt_expiry (em_timeouts (d_elevation d))) i = Some t"
    if "hm_get (em_pending (d_elevation d)) i \<noteq> None"
    using em that unfolding em_inv_def by (metis not_None_eq)
  ultimately show ?thesis
    using tick_ends_lockout [OF ok] tick_ends_elevation [OF em] by (metis daemon_event.simps(2))
qed

theorem every_wait_has_a_deadline_witness:
  "\<exists>t. \<forall>w. t \<le> w_now w \<longrightarrow> hm_get (em_pending (d_elevation (daemon_event w TickEvent prompted_daemon))) 1 = None"
proof -
  have 1: "hm_get (em_pending (d_elevation prompted_daemon)) 1 \<noteq> None" by code_simp
  have "6 \<le> (2 ^ 32 - 2 :: nat)" by simp
  from every_wait_has_a_deadline [OF reachable_samples(3) this, of undefined 1] have
    "hm_get (em_pending (d_elevation prompted_daemon)) 1 \<noteq> None \<longrightarrow>
       (\<exists>t. \<forall>w. t \<le> w_now w \<longrightarrow> hm_get (em_pending (d_elevation (daemon_event w TickEvent prompted_daemon))) 1 = None)"
    by (elim conjE)
  from mp [OF this 1] show ?thesis .
qed

text \<open>
  C6. Requests and replies balance. Over any stretch of a run in which a connection stays registered,
  the replies it is sent and the elevation prompts it is still owed an answer for grow by exactly the
  number of requests it made in that stretch, whatever the other connections, the clock, the signals
  and the order of the hash maps do.
\<close>

theorem replies_balance_requests:
  assumes "reachable_in n d" "served c d es d'" "n + length es \<le> 2 ^ 32 - 2"
  shows "replies (d_registry d') c + owed (d_elevation d') c =
    replies (d_registry d) c + owed (d_elevation d) c + length (filter (\<lambda>(w, ev). request_on c ev) es)"
  using assms(2,3)
proof (induction rule: served.induct)
  case served_start
  then show ?case by simp
next
  case (served_step es t w ev u)
  have "daemon_inv n d" using assms(3) served_step.prems by (intro reachable_inv [OF assms(1)]) simp
  with served_reachable [OF served_step.hyps(1) this] served_step.prems
  have t: "daemon_inv (n + length es) t" "registered (d_registry t) c" by simp_all
  have "n + length es < 2 ^ 32 - 2" using served_step.prems by simp
  from dstep_replies [OF t(1) this served_step.hyps(2) t(2) served_step.hyps(3,4)] served_step.IH served_step.prems
  show ?case by simp
qed

theorem replies_balance_requests_witness:
  "let d' = daemon_event sample_world (IpcEvent (Command 2 alice_cred (RespondElevation 1 CancelPrompt))) prompted_daemon
   in replies (d_registry d') 1 + owed (d_elevation d') 1 = replies (d_registry prompted_daemon) 1 + owed (d_elevation prompted_daemon) 1"
proof -
  let ?ev = "IpcEvent (Command 2 alice_cred (RespondElevation 1 CancelPrompt))"
  let ?d' = "daemon_event sample_world ?ev prompted_daemon"
  have "registered (d_registry prompted_daemon) 1" by code_simp
  then have "served 1 prompted_daemon [] prompted_daemon" by (rule served_start)
  moreover have "dstep prompted_daemon (sample_world, ?ev) ?d'" by (rule dstep) simp
  moreover have "registered (d_registry ?d') 1" by code_simp
  ultimately have "served 1 prompted_daemon ([] @ [(sample_world, ?ev)]) ?d'" by (rule served_step) simp
  from replies_balance_requests [OF reachable_samples(3) this] show ?thesis unfolding Let_def by simp
qed

text \<open>
  C20. A termination signal ends the loop, wherever it comes in a batch of events. Once \<open>SIGTERM\<close> or \<open>SIGINT\<close> has been handled, the batch it
  came in is the last one that is processed; handling it ends every session, kills and waits for
  each compositor that was running, and removes the socket if there is one, after announcing the stop to the
  service manager.
\<close>

theorem termination_signal_ends_loop:
  assumes "sm_inv (d_sessions d)" "sig \<in> {SIGTERM, SIGINT}" "\<not> d_should_exit d0"
    and "d = dispatch_batch before d0" "d' = daemon_event w (SignalEvent sig ws) d"
  shows "event_loop ((before @ (w, SignalEvent sig ws) # after) # batches) d0 = dispatch_batch after d'
    \<and> hm_get (sm_sessions (d_sessions d')) sid = None
    \<and> d_trace d' = d_trace d @ SdNotify ''STOPPING=1'' # killed (d_sessions d)
        @ (if w_exists w (d_socket_path d) then [RemoveFile (d_socket_path d)] else [])"
proof -
  have sig: "classify_signal sig = Some Terminate" using assms(2) by auto
  have d': "d' = on_signal w ws Terminate d" using assms(5) sig by simp
  then have "d_should_exit d'" by (simp add: Let_def split_def)
  then have "d_should_exit (dispatch_batch after d')" by (rule batch_keeps_exit)
  then have "event_loop ((before @ (w, SignalEvent sig ws) # after) # batches) d0 = dispatch_batch after d'"
    using assms(3-5) by (simp add: exit_is_final dispatch_batch_def)
  moreover have "d_sessions d' = fst (sm_terminate_all (map ctx_id (sm_list (d_sessions d))) (d_sessions d))"
    by (simp add: d' graceful_shutdown_def Let_def split_def)
  moreover have "map ProcEffect (snd (sm_terminate_all (map ctx_id (sm_list (d_sessions d))) (d_sessions d))) = killed (d_sessions d)"
    using assms(1) by (intro sm_terminate_all_procs) (auto simp: sm_inv_def ctx_ok_def)
  ultimately show ?thesis
    using terminate_every_session [OF assms(1)]
    by (simp add: d' graceful_shutdown_def emit_def Let_def split_def)
qed

theorem termination_signal_ends_loop_witness:
  "hm_get (sm_sessions (d_sessions (daemon_event sample_world (SignalEvent SIGTERM []) sample_daemon))) 1 = None"
proof -
  have "5 \<le> (2 ^ 32 - 2 :: nat)" by simp
  from reachable_inv [OF reachable_samples(1) this] have 1: "sm_inv (d_sessions sample_daemon)"
    by (simp add: daemon_inv_def sessions_safe_def)
  have 2: "SIGTERM \<in> {SIGTERM, SIGINT}" by simp
  have 3: "\<not> d_should_exit sample_daemon" by code_simp
  have 4: "sample_daemon = dispatch_batch [] sample_daemon" by (simp add: dispatch_batch_def)
  from termination_signal_ends_loop [OF 1 2 3 4 refl, of sample_world "[]" "[]" "[]" 1] show ?thesis by (elim conjE)
qed

end
