(* ===== verification/Framing.thy ===== *)
theory Framing
  imports Ipc
begin

unbundle bit_operations_syntax

section \<open>Framing, the blocking client and the connection's reader\<close>

text \<open>
  \<open>src/ipc/protocol.rs\<close>, \<open>src/ipc/client.rs\<close> and the reading loop of \<open>src/ipc/server.rs\<close>. A frame is
  a four-byte little-endian length and that many payload bytes. The payload codec, the bincode
  crate, is a pair of functions; that it decodes what it encoded is the hypothesis
  \<open>codec_ok\<close>. What a socket delivers is a finite sequence of bytes and then an I/O error, of kind
  \<open>UnexpectedEof\<close> when the peer has closed it.
\<close>

subsection \<open>Bytes and streams\<close>

definition to_le_bytes :: "u32 \<Rightarrow> u8 list" where
  "to_le_bytes w = [ucast w, ucast (drop_bit 8 w), ucast (drop_bit 16 w), ucast (drop_bit 24 w)]"

fun from_le_bytes :: "u8 list \<Rightarrow> u32" where
  "from_le_bytes [] = 0"
| "from_le_bytes (b # bs) = (ucast b :: u32) OR push_bit 8 (from_le_bytes bs)"

record stream =
  st_bytes :: "u8 list"
  st_end :: io_error

definition read_exact :: "nat \<Rightarrow> stream \<Rightarrow> stream \<times> (io_error + u8 list)" where
  "read_exact n s =
     (if n \<le> length (st_bytes s) then (s\<lparr>st_bytes := drop n (st_bytes s)\<rparr>, Inr (take n (st_bytes s)))
      else (s\<lparr>st_bytes := []\<rparr>, Inl (st_end s)))"

datatype write_op = WriteAll "u8 list" | Flush

fun written :: "write_op list \<Rightarrow> u8 list" where
  "written [] = []"
| "written (WriteAll bs # ops) = bs @ written ops"
| "written (Flush # ops) = written ops"

record 'm codec =
  serialize :: "'m \<Rightarrow> string + u8 list"
  deserialize :: "u8 list \<Rightarrow> string + 'm"

definition codec_ok :: "'m codec \<Rightarrow> 'm set \<Rightarrow> bool" where
  "codec_ok cd A \<longleftrightarrow> (\<forall>m \<in> A. \<forall>bs. serialize cd m = Inr bs \<longrightarrow> deserialize cd bs = Inr m)"

subsection \<open>Framing\<close>

definition max_message_len :: u32 where
  "max_message_len = 16 * 1024 * 1024"

definition write_message ::
  "'m codec \<Rightarrow> (write_op \<Rightarrow> io_error + unit) \<Rightarrow> 'm \<Rightarrow> write_op list \<times> unit result" where
  "write_message cd answer msg =
     (case serialize cd msg of
        Inl e \<Rightarrow> ([], Inl (from_bincode e))
      | Inr payload \<Rightarrow>
          if length payload \<ge> 2 ^ 32 then ([], Inl (ProtocolError ''message too large to frame''))
          else
            (case perform_all answer
                    [WriteAll (to_le_bytes (of_nat (length payload))), WriteAll payload, Flush] of
               (made, r) \<Rightarrow> (made, map_err IoError r)))"

definition read_message :: "'m codec \<Rightarrow> stream \<Rightarrow> stream \<times> 'm result" where
  "read_message cd s =
     (case read_exact 4 s of
        (s', Inl e) \<Rightarrow> (s', Inl (if io_kind e = UnexpectedEof then DisconnectedError else IoError e))
      | (s', Inr len_buf) \<Rightarrow>
          (let len = from_le_bytes len_buf
           in if len > max_message_len then
                (s', Inl (ProtocolError
                   (''message of '' @ show_word len @ '' bytes exceeds the '' @ show_word max_message_len
                    @ '' byte limit'')))
              else
                (case read_exact (unat len) s' of
                   (s'', Inl e) \<Rightarrow> (s'', Inl (IoError e))
                 | (s'', Inr payload) \<Rightarrow> (s'', map_err from_bincode (deserialize cd payload)))))"

subsection \<open>Loops over a stream\<close>

lemma read_exact_length:
  "read_exact n s = (s', Inr bs) \<Longrightarrow> length (st_bytes s') + n = length (st_bytes s)"
  by (auto simp: read_exact_def split: if_splits)

lemma read_exact_le: "length (st_bytes (fst (read_exact n s))) \<le> length (st_bytes s)"
  by (simp add: read_exact_def)

lemma read_message_shrinks:
  assumes "read_message cd s = (s', Inr m)"
  shows "length (st_bytes s') < length (st_bytes s)"
proof -
  obtain s1 buf where r1: "read_exact 4 s = (s1, Inr buf)"
    using assms by (auto simp: read_message_def split: prod.splits sum.splits)
  obtain s2 p where "read_exact (unat (from_le_bytes buf)) s1 = (s2, Inr p)" "s' = s2"
    using assms r1
    by (auto simp: read_message_def Let_def split: prod.splits sum.splits if_splits)
  with read_exact_length [OF r1] show ?thesis using read_exact_length by fastforce
qed

text \<open>
  The reading half of \<open>handle_connection\<close>: every request becomes a \<open>Command\<close>, and the first error,
  a clean hang-up or a malformed frame alike, ends the loop.
\<close>

function (sequential) read_loop :: "request codec \<Rightarrow> conn_id \<Rightarrow> peer_cred \<Rightarrow> stream \<Rightarrow> manager_message list"
where
  "read_loop cd c peer s =
     (case read_message cd s of
        (s', Inr r) \<Rightarrow> Command c peer r # read_loop cd c peer s'
      | (s', Inl _) \<Rightarrow> [])"
  by pat_completeness auto
termination
  by (relation "measure (\<lambda>(_, _, _, s). length (st_bytes s))") (auto intro: read_message_shrinks [OF sym])

declare read_loop.simps [simp del]

text \<open>\<open>IpcClient::call\<close>: send the request, then skip events until a response or an error arrives.\<close>

function (sequential) await_response :: "message codec \<Rightarrow> stream \<Rightarrow> stream \<times> response result" where
  "await_response cd s =
     (case read_message cd s of
        (s', Inl e) \<Rightarrow> (s', Inl e)
      | (s', Inr (ResponseMsg r)) \<Rightarrow> (s', Inr r)
      | (s', Inr (EventMsg _)) \<Rightarrow> await_response cd s')"
  by pat_completeness auto
termination
  by (relation "measure (\<lambda>(_, s). length (st_bytes s))") (auto intro: read_message_shrinks [OF sym])

declare await_response.simps [simp del]

definition call ::
  "request codec \<Rightarrow> message codec \<Rightarrow> (write_op \<Rightarrow> io_error + unit) \<Rightarrow> stream \<Rightarrow> request
   \<Rightarrow> write_op list \<times> stream \<times> response result" where
  "call rcd mcd answer s r =
     (case write_message rcd answer r of
        (made, Inl e) \<Rightarrow> (made, s, Inl e)
      | (made, Inr _) \<Rightarrow> (made, await_response mcd s))"

definition client_connect :: "string \<Rightarrow> io_error + 'a \<Rightarrow> 'a result" where
  "client_connect socket_path answer =
     map_err (\<lambda>e. IoError \<lparr>io_kind = io_kind e,
                io_text = ''could not connect to '' @ socket_path @ '': '' @ io_text e\<rparr>) answer"

text \<open>The bytes \<open>write_message\<close> puts on the wire for a payload.\<close>

definition frame :: "u8 list \<Rightarrow> u8 list" where
  "frame payload = to_le_bytes (of_nat (length payload)) @ payload"

text \<open>A codec for the examples: a request is one byte, a release of the inhibitor of that number.\<close>

definition byte_codec :: "request codec" where
  "byte_codec =
     \<lparr>serialize = (\<lambda>r. case r of ReleaseInhibit i \<Rightarrow> Inr [ucast i] | _ \<Rightarrow> Inl ''unsupported''),
      deserialize = (\<lambda>bs. case bs of [b] \<Rightarrow> Inr (ReleaseInhibit (ucast b)) | _ \<Rightarrow> Inl ''bad payload'')\<rparr>"

definition eof :: io_error where
  "eof = \<lparr>io_kind = UnexpectedEof, io_text = ''failed to fill whole buffer''\<rparr>"

definition root_peer :: peer_cred where
  "root_peer = \<lparr>peer_uid = 0, peer_gid = 0, peer_pid = 1\<rparr>"

text \<open>The error for a length prefix above the limit.\<close>

definition oversized :: "u32 \<Rightarrow> session_error" where
  "oversized len = ProtocolError (''message of '' @ show_word len @ '' bytes exceeds the '' @ show_word max_message_len
     @ '' byte limit'')"

subsection \<open>Lemmas\<close>

lemma from_to_le_bytes [simp]: "from_le_bytes (to_le_bytes w) = w"
proof (rule bit_word_eqI)
  fix n
  assume "n < LENGTH(32)"
  then consider "n < 8" | "8 \<le> n" "n < 16" | "16 \<le> n" "n < 24" | "24 \<le> n" "n < 32" by force
  then show "bit (from_le_bytes (to_le_bytes w)) n = bit w n"
    by cases (auto simp: to_le_bytes_def bit_simps)
qed

lemma length_to_le_bytes [simp]: "length (to_le_bytes w) = 4"
  by (simp add: to_le_bytes_def)

lemma read_message_frame:
  assumes "length payload \<le> unat max_message_len" "st_bytes s = frame payload @ rest"
  shows "read_message cd s = (s\<lparr>st_bytes := rest\<rparr>, map_err from_bincode (deserialize cd payload))"
proof -
  have bound: "length payload < 2 ^ 32"
    using assms(1) unsigned_less [where 'a = nat, of max_message_len] by simp
  then have un: "unat (of_nat (length payload) :: u32) = length payload"
    by (simp add: take_bit_nat_eq_self unat_of_nat)
  have "\<not> (of_nat (length payload) :: u32) > max_message_len"
    using assms(1) un by (simp add: word_less_nat_alt)
  with assms(2) un show ?thesis
    by (simp add: read_message_def read_exact_def frame_def Let_def)
qed

lemma write_message_frame:
  assumes "serialize cd msg = Inr payload" "length payload < 2 ^ 32" "\<And>x. \<exists>u. answer x = Inr u"
  shows "write_message cd answer msg =
     ([WriteAll (to_le_bytes (of_nat (length payload))), WriteAll payload, Flush], Inr ())"
    and "written (fst (write_message cd answer msg)) = frame payload"
proof -
  have "perform_all answer xs = (xs, Inr ())" for xs
    using assms(3) by (simp add: perform_all_Inr_iff)
  with assms(1,2) show "write_message cd answer msg =
     ([WriteAll (to_le_bytes (of_nat (length payload))), WriteAll payload, Flush], Inr ())"
    by (simp add: write_message_def del: perform_all.simps)
  then show "written (fst (write_message cd answer msg)) = frame payload" by (simp add: frame_def)
qed

lemma read_message_eof:
  "length (st_bytes s) < 4 \<Longrightarrow> read_message cd s =
     (s\<lparr>st_bytes := []\<rparr>, Inl (if io_kind (st_end s) = UnexpectedEof then DisconnectedError else IoError (st_end s)))"
  by (simp add: read_message_def read_exact_def)

lemma read_loop_frames:
  assumes "codec_ok cd (set rs)"
    and "\<And>r. r \<in> set rs \<Longrightarrow> \<exists>p. serialize cd r = Inr p \<and> length p \<le> unat max_message_len"
    and "\<And>x. \<exists>u. answer x = Inr u" "length rest < 4"
    and "st_bytes s = concat (map (\<lambda>r. written (fst (write_message cd answer r))) rs) @ rest"
  shows "read_loop cd c peer s = map (Command c peer) rs"
  using assms(1,2,5)
proof (induction rs arbitrary: s)
  case Nil
  then show ?case using assms(4) by (subst read_loop.simps) (simp add: read_message_eof)
next
  case (Cons r rs)
  from Cons.prems(2) [of r] obtain p where p: "serialize cd r = Inr p" "length p \<le> unat max_message_len"
    by auto
  have "length p < 2 ^ 32" using p(2) unsigned_less [where 'a = nat, of max_message_len] by simp
  from write_message_frame(2) [OF p(1) this assms(3)]
  have "written (fst (write_message cd answer r)) = frame p" .
  with Cons.prems(3) have bytes: "st_bytes s = frame p @
      concat (map (\<lambda>r. written (fst (write_message cd answer r))) rs) @ rest" by simp
  have "deserialize cd p = Inr r" using Cons.prems(1) p(1) by (simp add: codec_ok_def)
  with read_message_frame [OF p(2) bytes, of cd]
  have rd: "read_message cd s =
      (s\<lparr>st_bytes := concat (map (\<lambda>r. written (fst (write_message cd answer r))) rs) @ rest\<rparr>, Inr r)" by simp
  moreover have "read_loop cd c peer
      (s\<lparr>st_bytes := concat (map (\<lambda>r. written (fst (write_message cd answer r))) rs) @ rest\<rparr>) = map (Command c peer) rs"
    using Cons.prems(1,2) by (intro Cons.IH) (auto simp: codec_ok_def)
  ultimately show ?case by (subst read_loop.simps) simp
qed

text \<open>Every four bytes are the prefix of exactly one length.\<close>

lemma to_from_le_bytes:
  assumes "length bs = 4"
  shows "to_le_bytes (from_le_bytes bs) = bs"
proof -
  from assms obtain a b c d where bs: "bs = [a, b, c, d]" by (auto simp: numeral_eq_Suc length_Suc_conv)
  have "\<not> bit (x :: u8) m" if "8 \<le> m" for x m using that by (auto dest: bit_imp_le_length)
  then show ?thesis unfolding bs to_le_bytes_def by (auto intro!: bit_word_eqI simp: bit_simps)
qed

lemma read_message_prefixed:
  assumes "st_bytes s = to_le_bytes len @ rest"
  shows "read_message cd s =
    (if max_message_len < len then (s\<lparr>st_bytes := rest\<rparr>, Inl (oversized len))
     else if length rest < unat len then (s\<lparr>st_bytes := []\<rparr>, Inl (IoError (st_end s)))
     else (s\<lparr>st_bytes := drop (unat len) rest\<rparr>, map_err from_bincode (deserialize cd (take (unat len) rest))))"
  using assms by (simp add: read_message_def read_exact_def oversized_def Let_def)

lemma stream_cases:
  obtains (short) "length (st_bytes s) < 4" | (prefixed) len rest where "st_bytes s = to_le_bytes len @ rest"
proof (cases "length (st_bytes s) < 4")
  case False
  then have "st_bytes s = to_le_bytes (from_le_bytes (take 4 (st_bytes s))) @ drop 4 (st_bytes s)"
    by (simp add: to_from_le_bytes)
  then show thesis by (rule prefixed)
qed (rule short)

lemma to_le_bytes_inject [simp]: "to_le_bytes a = to_le_bytes b \<longleftrightarrow> a = b"
  by (metis from_to_le_bytes)

lemma unat_payload_len: "length p < 2 ^ 32 \<Longrightarrow> unat (of_nat (length p) :: u32) = length p"
  by (simp add: take_bit_nat_eq_self unat_of_nat)

lemma write_message_too_large:
  "serialize cd m = Inr p \<Longrightarrow> 2 ^ 32 \<le> length p \<Longrightarrow>
     write_message cd answer m = ([], Inl (ProtocolError ''message too large to frame''))"
  by (simp add: write_message_def)

text \<open>
  The two ends disagree above 16 MiB: a payload longer than the reader's limit but shorter
  than 4 GiB is framed and written without an error, and every reader rejects that frame.
\<close>

lemma read_message_oversized:
  assumes "unat max_message_len < length p" "length p < 2 ^ 32" "st_bytes s = frame p @ rest"
  shows "read_message cd s = (s\<lparr>st_bytes := p @ rest\<rparr>, Inl (oversized (of_nat (length p))))"
proof -
  have "max_message_len < of_nat (length p)"
    using assms(1) unat_payload_len [OF assms(2)] by (simp add: word_less_nat_alt)
  with assms(3) show ?thesis by (simp add: read_message_prefixed frame_def)
qed

text \<open>A message is read exactly from a frame of at most 16 MiB that decodes.\<close>

lemma read_message_success:
  "read_message cd s = (s', Inr m) \<longleftrightarrow>
     (\<exists>payload rest. st_bytes s = frame payload @ rest \<and> length payload \<le> unat max_message_len
        \<and> deserialize cd payload = Inr m \<and> s' = s\<lparr>st_bytes := rest\<rparr>)"
proof
  assume read: "read_message cd s = (s', Inr m)"
  then obtain len rest where p: "st_bytes s = to_le_bytes len @ rest"
    by (cases rule: stream_cases [of s]) (simp_all add: read_message_eof)
  with read have ok: "len \<le> max_message_len" "unat len \<le> length rest" "deserialize cd (take (unat len) rest) = Inr m"
    "s' = s\<lparr>st_bytes := drop (unat len) rest\<rparr>"
    unfolding read_message_prefixed [OF p] by (auto split: if_splits simp: map_err_def split: sum.splits)
  then have "st_bytes s = frame (take (unat len) rest) @ drop (unat len) rest" "length (take (unat len) rest) \<le> unat max_message_len"
    by (simp_all add: p frame_def word_le_nat_alt)
  with ok(3,4) show "\<exists>payload rest. st_bytes s = frame payload @ rest \<and> length payload \<le> unat max_message_len
      \<and> deserialize cd payload = Inr m \<and> s' = s\<lparr>st_bytes := rest\<rparr>" by blast
next
  assume "\<exists>payload rest. st_bytes s = frame payload @ rest \<and> length payload \<le> unat max_message_len
      \<and> deserialize cd payload = Inr m \<and> s' = s\<lparr>st_bytes := rest\<rparr>"
  then show "read_message cd s = (s', Inr m)" by (auto simp: read_message_frame)
qed

subsection \<open>Properties\<close>

text \<open>
  C22. The wire protocol loses and invents nothing. A message whose payload is at most 16 MiB is written
  whole, and \<open>read_message\<close> on a stream that starts with what was written gives back the message and
  leaves the stream at the first byte after it. A longer payload is still written as long as its
  length fits four bytes, but the reader refuses it at its prefix; one longer than that is refused by the
  writer, with nothing written. The codec is assumed to decode what it encoded, and the writes to succeed.
\<close>

theorem framing_roundtrip:
  assumes "codec_ok cd {m}" "serialize cd m = Inr p" "\<forall>x. \<exists>u. answer x = Inr u"
    and "write_message cd answer m = (ops, result)" "st_bytes s = written ops @ rest"
  shows "if length p \<le> unat max_message_len then result = Inr () \<and> read_message cd s = (s\<lparr>st_bytes := rest\<rparr>, Inr m)
    else if length p < 2 ^ 32 then
      result = Inr () \<and> read_message cd s = (s\<lparr>st_bytes := p @ rest\<rparr>, Inl (oversized (of_nat (length p))))
    else result = Inl (ProtocolError ''message too large to frame'') \<and> ops = []"
proof (cases "length p < 2 ^ 32")
  case True
  have "\<exists>u. answer x = Inr u" for x using assms(3) by blast
  from write_message_frame [OF assms(2) True this] assms(4) have "result = Inr ()" "written ops = frame p" by auto
  moreover have "deserialize cd p = Inr m" using assms(1,2) by (simp add: codec_ok_def)
  ultimately show ?thesis
    using True assms(5) read_message_frame [of p s rest cd] read_message_oversized [of p s rest cd] by simp
next
  case False
  moreover have "unat max_message_len < 2 ^ 32" by (simp add: max_message_len_def)
  ultimately show ?thesis using write_message_too_large [OF assms(2), of answer] assms(4) by simp
qed

theorem framing_roundtrip_witness:
  "read_message byte_codec \<lparr>st_bytes = [1, 0, 0, 0, 7, 1, 0, 0, 0, 9], st_end = eof\<rparr> =
     (\<lparr>st_bytes = [1, 0, 0, 0, 9], st_end = eof\<rparr>, Inr (ReleaseInhibit 7))"
proof -
  let ?ok = "\<lambda>_ :: write_op. Inr () :: io_error + unit" and ?s = "\<lparr>st_bytes = [1, 0, 0, 0, 7, 1, 0, 0, 0, 9 :: u8], st_end = eof\<rparr>"
  have 1: "codec_ok byte_codec {ReleaseInhibit 7}" "serialize byte_codec (ReleaseInhibit 7) = Inr [7]"
    by (simp_all add: codec_ok_def byte_codec_def)
  have 2: "\<forall>x. \<exists>u. ?ok x = Inr u" by simp
  have 3: "st_bytes ?s = written (fst (write_message byte_codec ?ok (ReleaseInhibit 7))) @ [1, 0, 0, 0, 9]" by code_simp
  have 4: "length [7 :: u8] \<le> unat max_message_len" by (simp add: max_message_len_def)
  from framing_roundtrip [OF 1 2 prod.collapse [symmetric] 3] show ?thesis unfolding if_P [OF 4] by simp
qed

text \<open>
  C29. The errors of \<open>read_message\<close>, all of them. It fails exactly when the stream ends within the length
  prefix, which is a hang-up at the end of the stream and an I/O error otherwise; or after a prefix
  above 16 MiB, which is refused before any byte of the payload is read; or when the stream ends
  within the payload, an I/O error even at its end; or when the payload does not decode. In
  every other case the payload is decoded and the stream stands right behind it.
\<close>

theorem read_message_errors:
  "(read_message cd s = (s', Inl e) \<longleftrightarrow>
      length (st_bytes s) < 4 \<and> s' = s\<lparr>st_bytes := []\<rparr>
        \<and> e = (if io_kind (st_end s) = UnexpectedEof then DisconnectedError else IoError (st_end s))
      \<or> (\<exists>len rest. st_bytes s = to_le_bytes len @ rest
           \<and> (max_message_len < len \<and> s' = s\<lparr>st_bytes := rest\<rparr> \<and> e = oversized len
              \<or> len \<le> max_message_len \<and> length rest < unat len \<and> s' = s\<lparr>st_bytes := []\<rparr> \<and> e = IoError (st_end s)
              \<or> len \<le> max_message_len \<and> unat len \<le> length rest \<and> s' = s\<lparr>st_bytes := drop (unat len) rest\<rparr>
                \<and> (\<exists>text. deserialize cd (take (unat len) rest) = Inl text \<and> e = ProtocolError text))))
   \<and> (read_message cd s = (s', Inr m) \<longleftrightarrow>
      (\<exists>payload rest. st_bytes s = frame payload @ rest \<and> length payload \<le> unat max_message_len
         \<and> deserialize cd payload = Inr m \<and> s' = s\<lparr>st_bytes := rest\<rparr>))"
  (is "?fails \<and> ?succeeds")
proof (rule conjI [OF _ read_message_success])
  show ?fails
  proof (cases rule: stream_cases [of s])
    case short
    then have "st_bytes s \<noteq> to_le_bytes len @ rest" for len rest by auto
    with short show ?thesis by (auto simp: read_message_eof)
  next
    case (prefixed len rest)
    then have len: "(\<exists>l r. st_bytes s = to_le_bytes l @ r \<and> P l r) \<longleftrightarrow> P len rest" "\<not> length (st_bytes s) < 4" for P
      by auto
    show ?thesis
      unfolding len(1) read_message_prefixed [OF prefixed] using len(2)
      by (cases "deserialize cd (take (unat len) rest)") (auto simp: from_bincode_def)
  qed
qed

end
