(* ===== verification/Connection.thy ===== *)
theory Connection
  imports Framing
begin

section \<open>The socket and the two threads of a connection\<close>

text \<open>
  \<open>spawn\<close>, \<open>accept_loop\<close> and \<open>handle_connection\<close> of \<open>src/ipc/server.rs\<close>. A connection is served by a
  reader thread, which posts to the daemon's channel, and a writer thread, which drains the
  connection's outbox onto the socket; the daemon runs on a third. Their interleavings are the runs
  of the step relation \<open>conn_step\<close>, in which one event is one turn of one of the three.
\<close>

subsection \<open>Binding the socket\<close>

datatype socket_op =
    RemoveSocket string
  | CreateParent string
  | BindSocket string
  | SetSocketMode string u32
  | SpawnAcceptThread

text \<open>\<open>Path::parent\<close>, for paths without \<open>.\<close> components.\<close>

definition strip_slashes :: "string \<Rightarrow> string" where
  "strip_slashes p = rev (dropWhile (\<lambda>c. c = CHR ''/'') (rev p))"

definition path_parent :: "string \<Rightarrow> string option" where
  "path_parent p =
     (let q = strip_slashes p
      in if q = [] then None
         else let d = rev (dropWhile (\<lambda>c. c \<noteq> CHR ''/'') (rev q))
              in Some (if d \<noteq> [] \<and> strip_slashes d = [] then ''/'' else strip_slashes d))"

definition spawn_ops :: "(string \<Rightarrow> bool) \<Rightarrow> string \<Rightarrow> u32 \<Rightarrow> socket_op list" where
  "spawn_ops exists socket_path mode =
     (if exists socket_path then [RemoveSocket socket_path] else [])
     @ (case path_parent socket_path of None \<Rightarrow> [] | Some parent \<Rightarrow> [CreateParent parent])
     @ [BindSocket socket_path, SetSocketMode socket_path mode, SpawnAcceptThread]"

definition ipc_spawn ::
  "(string \<Rightarrow> bool) \<Rightarrow> (socket_op \<Rightarrow> io_error + unit) \<Rightarrow> string \<Rightarrow> u32 \<Rightarrow> socket_op list \<times> unit result" where
  "ipc_spawn exists answer socket_path mode =
     (case perform_all answer (spawn_ops exists socket_path mode) of (made, r) \<Rightarrow> (made, map_err IoError r))"

text \<open>Every accepted stream gets a connection thread; a failed accept is logged and passed over.\<close>

fun accept_loop :: "(io_error + 'stream) list \<Rightarrow> 'stream list" where
  "accept_loop [] = []"
| "accept_loop (Inr stream # incoming) = stream # accept_loop incoming"
| "accept_loop (Inl _ # incoming) = accept_loop incoming"

text \<open>\<open>NEXT_CONN_ID.fetch_add(1)\<close>.\<close>

definition fetch_conn_id :: "conn_id \<Rightarrow> conn_id \<times> conn_id" where
  "fetch_conn_id next = (next, next + 1)"

subsection \<open>The state of a connection\<close>

datatype reader_phase = Reading | Joining | Finished

text \<open>
  \<open>cn_registry\<close> says whether the daemon still holds, or will hold once it takes the \<open>Connected\<close>
  message, a sender of the outbox. \<open>cn_sent\<close>, \<open>cn_written\<close> and \<open>cn_write_failed\<close> record what was sent
  into the outbox, what was written in full, and that a write failed.
\<close>

record conn =
  cn_id :: conn_id
  cn_peer :: peer_cred
  cn_input :: stream
  cn_phase :: reader_phase
  cn_writer :: bool
  cn_registry :: bool
  cn_loop :: bool
  cn_queue :: "message list"
  cn_sent :: "message list"
  cn_written :: "message list"
  cn_write_failed :: bool
  cn_posted :: "manager_message list"

text \<open>Posting to the daemon's channel fails once the event loop is gone.\<close>

definition post :: "manager_message \<Rightarrow> conn \<Rightarrow> conn" where
  "post m s = (if cn_loop s then s\<lparr>cn_posted := cn_posted s @ [m]\<rparr> else s)"

text \<open>
  The opening of \<open>handle_connection\<close>: a connection whose peer the kernel does not vouch for, or that
  cannot be cloned, or that comes while the daemon is shutting down is dropped without a message.
\<close>

definition connection_start ::
  "conn_id \<Rightarrow> string + peer_cred \<Rightarrow> io_error + unit \<Rightarrow> bool \<Rightarrow> stream \<Rightarrow> conn option" where
  "connection_start c creds clone loop_open input =
     (case peer_credentials creds of
        Inl _ \<Rightarrow> None
      | Inr peer \<Rightarrow>
          (case clone of
             Inl _ \<Rightarrow> None
           | Inr _ \<Rightarrow>
               if \<not> loop_open then None
               else Some
                 \<lparr>cn_id = c, cn_peer = peer, cn_input = input, cn_phase = Reading, cn_writer = True,
                  cn_registry = True, cn_loop = True, cn_queue = [], cn_sent = [], cn_written = [],
                  cn_write_failed = False, cn_posted = [Connected c peer]\<rparr>))"

subsection \<open>Turns of the threads\<close>

text \<open>One round of the reading loop; leaving it drops the reader's own sender.\<close>

definition reader_turn :: "request codec \<Rightarrow> conn \<Rightarrow> conn" where
  "reader_turn cd s =
     (case read_message cd (cn_input s) of
        (inp, Inr r) \<Rightarrow>
          if cn_loop s then post (Command (cn_id s) (cn_peer s) r) (s\<lparr>cn_input := inp\<rparr>)
          else s\<lparr>cn_input := inp, cn_phase := Joining\<rparr>
      | (inp, Inl _) \<Rightarrow> s\<lparr>cn_input := inp, cn_phase := Joining\<rparr>)"

text \<open>One round of the writing loop; the thread ends with the first failed write.\<close>

definition writer_turn :: "message codec \<Rightarrow> (write_op \<Rightarrow> io_error + unit) \<Rightarrow> message \<Rightarrow> message list \<Rightarrow> conn \<Rightarrow> conn" where
  "writer_turn cd answer m rest s =
     (case write_message cd answer m of
        (_, Inr _) \<Rightarrow> s\<lparr>cn_queue := rest, cn_written := cn_written s @ [m]\<rparr>
      | (_, Inl _) \<Rightarrow> s\<lparr>cn_queue := rest, cn_writer := False, cn_write_failed := True\<rparr>)"

text \<open>\<open>Sender::send\<close> from the registry: without a receiver the message is lost.\<close>

definition daemon_send :: "message \<Rightarrow> conn \<Rightarrow> conn" where
  "daemon_send m s =
     s\<lparr>cn_queue := (if cn_writer s then cn_queue s @ [m] else cn_queue s), cn_sent := cn_sent s @ [m]\<rparr>"

datatype conn_event =
    ReaderReads
  | WriterWrites "write_op \<Rightarrow> io_error + unit"
  | WriterEnds
  | ReaderJoins
  | DaemonSends message
  | DaemonDrops
  | LoopEnds

inductive conn_step :: "request codec \<Rightarrow> message codec \<Rightarrow> conn \<Rightarrow> conn_event \<Rightarrow> conn \<Rightarrow> bool" for rcd mcd where
  reads: "cn_phase s = Reading \<Longrightarrow> conn_step rcd mcd s ReaderReads (reader_turn rcd s)"
| writes: "cn_writer s \<Longrightarrow> cn_queue s = m # rest \<Longrightarrow>
     conn_step rcd mcd s (WriterWrites answer) (writer_turn mcd answer m rest s)"
| drained: "cn_writer s \<Longrightarrow> cn_queue s = [] \<Longrightarrow> \<not> cn_registry s \<Longrightarrow> cn_phase s \<noteq> Reading \<Longrightarrow>
     conn_step rcd mcd s WriterEnds (s\<lparr>cn_writer := False\<rparr>)"
| joins: "cn_phase s = Joining \<Longrightarrow> \<not> cn_writer s \<Longrightarrow>
     conn_step rcd mcd s ReaderJoins (post (Disconnected (cn_id s)) (s\<lparr>cn_phase := Finished\<rparr>))"
| sends: "cn_registry s \<Longrightarrow> conn_step rcd mcd s (DaemonSends m) (daemon_send m s)"
| drops: "cn_registry s \<Longrightarrow> conn_step rcd mcd s DaemonDrops (s\<lparr>cn_registry := False\<rparr>)"
| ends: "conn_step rcd mcd s LoopEnds (s\<lparr>cn_loop := False, cn_registry := False\<rparr>)"

inductive_cases conn_stepE: "conn_step rcd mcd s e t"

text \<open>The turns that only the daemon can take.\<close>

fun daemon_side :: "conn_event \<Rightarrow> bool" where
  "daemon_side (DaemonSends m) = True"
| "daemon_side DaemonDrops = True"
| "daemon_side LoopEnds = True"
| "daemon_side _ = False"

text \<open>How many turns the two threads can still take without the daemon.\<close>

definition turns_left :: "conn \<Rightarrow> nat" where
  "turns_left s =
     (case cn_phase s of Reading \<Rightarrow> length (st_bytes (cn_input s)) + 2 | Joining \<Rightarrow> 1 | Finished \<Rightarrow> 0)
     + length (cn_queue s) + (if cn_writer s then 1 else 0)"

text \<open>For the example, where nothing is written.\<close>

definition silent_codec :: "message codec" where
  "silent_codec = \<lparr>serialize = (\<lambda>_. Inl ''unsupported''), deserialize = (\<lambda>_. Inl ''unsupported'')\<rparr>"

subsection \<open>The invariant\<close>

definition posted_ok :: "request codec \<Rightarrow> stream \<Rightarrow> conn \<Rightarrow> bool" where
  "posted_ok cd input s \<longleftrightarrow>
     (\<exists>cmds rest. read_loop cd (cn_id s) (cn_peer s) input = cmds @ rest
        \<and> (cn_phase s = Reading \<longrightarrow> rest = read_loop cd (cn_id s) (cn_peer s) (cn_input s))
        \<and> (cn_phase s \<noteq> Reading \<and> cn_loop s \<longrightarrow> rest = [])
        \<and> (cn_posted s = Connected (cn_id s) (cn_peer s) # cmds
           \<or> cn_phase s = Finished \<and> cn_posted s = Connected (cn_id s) (cn_peer s) # cmds @ [Disconnected (cn_id s)]))"

definition outbox_ok :: "conn \<Rightarrow> bool" where
  "outbox_ok s \<longleftrightarrow>
     (if cn_writer s then cn_sent s = cn_written s @ cn_queue s \<and> \<not> cn_write_failed s
      else prefix (cn_written s) (cn_sent s)
        \<and> (cn_write_failed s \<or> \<not> cn_registry s \<and> cn_written s = cn_sent s))"

definition conn_inv :: "request codec \<Rightarrow> conn_id \<Rightarrow> string + peer_cred \<Rightarrow> stream \<Rightarrow> conn \<Rightarrow> bool" where
  "conn_inv cd c creds input s \<longleftrightarrow>
     cn_id s = c \<and> peer_credentials creds = Inr (cn_peer s) \<and> posted_ok cd input s \<and> outbox_ok s
     \<and> (cn_phase s = Finished \<longrightarrow> \<not> cn_writer s \<and> (cn_loop s \<longrightarrow> last (cn_posted s) = Disconnected c))"

lemma read_loop_Cons:
  "read_message cd s = (s', Inr r) \<Longrightarrow> read_loop cd c peer s = Command c peer r # read_loop cd c peer s'"
  by (subst read_loop.simps) simp

lemma read_loop_Nil:
  "read_message cd s = (s', Inl e) \<Longrightarrow> read_loop cd c peer s = []"
  by (subst read_loop.simps) simp

lemma reader_turn_posted:
  assumes "posted_ok cd input s" "cn_phase s = Reading"
  shows "posted_ok cd input (reader_turn cd s)"
proof (cases "\<exists>inp r. read_message cd (cn_input s) = (inp, Inr r)")
  case True
  then obtain inp r where rd: "read_message cd (cn_input s) = (inp, Inr r)" by blast
  from read_loop_Cons [OF rd, of "cn_id s" "cn_peer s"] assms show ?thesis
    by (auto simp: posted_ok_def reader_turn_def rd post_def)
next
  case False
  then obtain inp e where rd: "read_message cd (cn_input s) = (inp, Inl e)"
    by (metis obj_sumE prod.exhaust)
  from read_loop_Nil [OF rd, of "cn_id s" "cn_peer s"] assms show ?thesis
    by (auto simp: posted_ok_def reader_turn_def rd)
qed

lemma reader_turn_rest [simp]:
  "cn_writer (reader_turn cd s) = cn_writer s" "cn_registry (reader_turn cd s) = cn_registry s"
  "cn_queue (reader_turn cd s) = cn_queue s" "cn_sent (reader_turn cd s) = cn_sent s"
  "cn_written (reader_turn cd s) = cn_written s" "cn_write_failed (reader_turn cd s) = cn_write_failed s"
  "cn_id (reader_turn cd s) = cn_id s" "cn_peer (reader_turn cd s) = cn_peer s"
  "cn_phase s \<noteq> Finished \<Longrightarrow> cn_phase (reader_turn cd s) \<noteq> Finished"
  by (auto simp: reader_turn_def post_def split: prod.splits sum.splits)

lemma writer_turn_rest [simp]:
  "cn_phase (writer_turn cd answer m rest s) = cn_phase s"
  "posted_ok rcd input (writer_turn cd answer m rest s) = posted_ok rcd input s"
  by (auto simp: writer_turn_def posted_ok_def split: prod.splits sum.splits)

lemma conn_inv_step:
  assumes "conn_inv rcd c creds input s" "conn_step rcd mcd s e t"
  shows "conn_inv rcd c creds input t"
  using assms(2)
proof cases
  case reads
  with assms(1) show ?thesis by (simp add: conn_inv_def outbox_ok_def reader_turn_posted)
next
  case (writes m rest answer)
  then have "cn_writer s" "cn_phase s \<noteq> Finished" "outbox_ok s" using assms(1) by (auto simp: conn_inv_def)
  with writes have "outbox_ok t" by (auto simp: outbox_ok_def writer_turn_def split: prod.splits sum.splits)
  moreover have "cn_id t = cn_id s" "cn_peer t = cn_peer s" using writes by (simp_all add: writer_turn_def split: prod.split sum.split)
  ultimately show ?thesis using assms(1) \<open>cn_phase s \<noteq> Finished\<close> writes by (simp add: conn_inv_def)
next
  case joins
  then have "posted_ok rcd input t" using assms(1) by (auto simp: conn_inv_def posted_ok_def post_def)
  with joins assms(1) show ?thesis by (auto simp: conn_inv_def outbox_ok_def post_def)
next
  case drained
  with assms(1) show ?thesis by (auto simp: conn_inv_def posted_ok_def outbox_ok_def)
next
  case (sends m)
  with assms(1) show ?thesis by (auto simp: conn_inv_def posted_ok_def outbox_ok_def daemon_send_def prefix_def)
next
  case drops
  with assms(1) show ?thesis by (auto simp: conn_inv_def posted_ok_def outbox_ok_def)
next
  case ends
  with assms(1) show ?thesis by (auto simp: conn_inv_def posted_ok_def outbox_ok_def)
qed

interpretation conn_runs: step_invariant "conn_step rcd mcd"
  "\<lambda>s. connection_start c creds clone loop_open input = Some s" "conn_inv rcd c creds input"
  for rcd mcd c creds clone loop_open input
proof
  fix s
  assume "connection_start c creds clone loop_open input = Some s"
  then show "conn_inv rcd c creds input s"
    by (auto simp: connection_start_def conn_inv_def posted_ok_def outbox_ok_def split: sum.splits if_splits)
next
  fix s e t
  assume "conn_inv rcd c creds input s" "conn_step rcd mcd s e t"
  then show "conn_inv rcd c creds input t" by (rule conn_inv_step)
qed

subsection \<open>Turns without the daemon\<close>

lemma thread_turn_left:
  assumes "conn_step rcd mcd s e t" "\<not> daemon_side e"
  shows "turns_left t < turns_left s"
  using assms
proof cases
  case reads
  then show ?thesis
    by (auto simp: turns_left_def reader_turn_def post_def dest: read_message_shrinks split: prod.split sum.split)
next
  case (writes m rest answer)
  then show ?thesis by (cases "cn_phase s") (simp_all add: turns_left_def writer_turn_def split: prod.split sum.split)
next
  case drained
  then show ?thesis by (cases "cn_phase s") (simp_all add: turns_left_def)
next
  case joins
  then show ?thesis by (simp add: turns_left_def post_def)
qed simp_all

lemma thread_run_left:
  assumes "run (conn_step rcd mcd) s es t" "\<forall>e \<in> set es. \<not> daemon_side e"
  shows "length es + turns_left t \<le> turns_left s"
  using assms
proof (induction rule: run.induct)
  case (run_step s es t e u)
  then have "length es + turns_left t \<le> turns_left s" "turns_left u < turns_left t" by (auto intro: thread_turn_left)
  then show ?case by simp
qed simp

lemma threads_halted:
  assumes "\<forall>e t. conn_step rcd mcd s e t \<longrightarrow> daemon_side e"
  shows "cn_phase s \<noteq> Reading" "\<not> (cn_writer s \<and> cn_queue s \<noteq> [])"
    "\<not> (cn_writer s \<and> cn_queue s = [] \<and> \<not> cn_registry s \<and> cn_phase s \<noteq> Reading)"
    "\<not> (cn_phase s = Joining \<and> \<not> cn_writer s)"
proof -
  show "cn_phase s \<noteq> Reading" using assms [rule_format, OF reads [of s rcd mcd]] by auto
  show "\<not> (cn_writer s \<and> cn_queue s \<noteq> [])"
    using assms [rule_format, OF writes [of s _ _ rcd mcd]] by (auto simp: neq_Nil_conv)
  show "\<not> (cn_writer s \<and> cn_queue s = [] \<and> \<not> cn_registry s \<and> cn_phase s \<noteq> Reading)"
    using assms [rule_format, OF drained [of s rcd mcd]] by auto
  show "\<not> (cn_phase s = Joining \<and> \<not> cn_writer s)" using assms [rule_format, OF joins [of s rcd mcd]] by auto
qed

subsection \<open>Binding and accepting\<close>

lemma ipc_spawn_ok:
  "ipc_spawn exists answer p mode = (made, Inr ()) \<longleftrightarrow>
     made = spawn_ops exists p mode \<and> (\<forall>x \<in> set made. \<exists>u. answer x = Inr u)"
  using perform_all_Inr_iff [of answer "spawn_ops exists p mode" made]
  by (auto simp: ipc_spawn_def map_err_def split: prod.splits sum.splits)

lemma accept_loop_set: "set (accept_loop incoming) = {s. Inr s \<in> set incoming}"
  by (induction incoming rule: accept_loop.induct) auto

subsection \<open>Properties\<close>

text \<open>
  C23. Under every interleaving of its reader, its writer and the daemon, a connection tells the daemon a
  consistent story: first \<open>Connected\<close> with the identity the kernel vouched for, then the commands the
  peer sent, in order, with none skipped or invented, and \<open>Disconnected\<close> last and at most once. Once the
  reader has stopped, and the daemon is still there, it has posted every command of the stream. What
  reaches the peer is an initial part of what the daemon sent it. \<open>Disconnected\<close> is only posted after a
  write failed or after the daemon itself dropped the outbox, with everything written by then; so when
  a peer just hangs up and nothing is queued for it, neither thread can move again before the daemon
  does, and the daemon does not learn of the hang-up.
\<close>

theorem connection_lifecycle:
  assumes "connection_start c creds clone loop_open input = Some s0" "run (conn_step rcd mcd) s0 es s"
  shows "(\<exists>peer cmds. peer_credentials creds = Inr peer \<and> prefix cmds (read_loop rcd c peer input)
        \<and> (cn_posted s = Connected c peer # cmds \<or> cn_posted s = Connected c peer # cmds @ [Disconnected c])
        \<and> (cn_phase s \<noteq> Reading \<and> cn_loop s \<longrightarrow> cmds = read_loop rcd c peer input))
    \<and> prefix (cn_written s) (cn_sent s)
    \<and> (Disconnected c \<in> set (cn_posted s) \<longrightarrow> cn_write_failed s \<or> \<not> cn_registry s \<and> cn_written s = cn_sent s)
    \<and> (cn_phase s = Joining \<and> cn_registry s \<and> cn_queue s = [] \<and> \<not> cn_write_failed s \<longrightarrow>
        (\<forall>e t. conn_step rcd mcd s e t \<longrightarrow> daemon_side e))"
proof -
  have inv: "conn_inv rcd c creds input s" using conn_runs.always [OF assms(2,1)] .
  have cmds: "Disconnected c \<notin> set (read_loop rcd c (cn_peer s) input)"
    by (induction rcd c "cn_peer s" input rule: read_loop.induct)
       (subst read_loop.simps, auto split: prod.splits sum.splits)
  from inv obtain cmds rest where posted: "peer_credentials creds = Inr (cn_peer s)"
    "read_loop rcd c (cn_peer s) input = cmds @ rest"
    "cn_posted s = Connected c (cn_peer s) # cmds
      \<or> cn_phase s = Finished \<and> cn_posted s = Connected c (cn_peer s) # cmds @ [Disconnected c]"
    "cn_phase s \<noteq> Reading \<and> cn_loop s \<longrightarrow> rest = []"
    by (auto simp: conn_inv_def posted_ok_def)
  have "\<exists>peer cmds. peer_credentials creds = Inr peer \<and> prefix cmds (read_loop rcd c peer input)
        \<and> (cn_posted s = Connected c peer # cmds \<or> cn_posted s = Connected c peer # cmds @ [Disconnected c])
        \<and> (cn_phase s \<noteq> Reading \<and> cn_loop s \<longrightarrow> cmds = read_loop rcd c peer input)"
    using posted by (intro exI [of _ "cn_peer s"] exI [of _ cmds]) auto
  moreover have "cn_phase s = Finished" if "Disconnected c \<in> set (cn_posted s)"
    using posted that cmds by auto
  ultimately show ?thesis
    using inv by (auto simp: conn_inv_def outbox_ok_def split: if_splits elim!: conn_stepE)
qed

theorem connection_lifecycle_witness:
  "\<exists>s. run (conn_step byte_codec silent_codec)
       (the (connection_start 5 (Inr root_peer) (Inr ()) True \<lparr>st_bytes = [1, 0, 0, 0, 7], st_end = eof\<rparr>))
       [ReaderReads, ReaderReads] s
     \<and> cn_posted s = [Connected 5 root_peer, Command 5 root_peer (ReleaseInhibit 7)]
     \<and> (\<forall>e t. conn_step byte_codec silent_codec s e t \<longrightarrow> daemon_side e)"
proof -
  let ?in = "\<lparr>st_bytes = [1, 0, 0, 0, 7], st_end = eof\<rparr>"
  obtain s0 where s0: "connection_start 5 (Inr root_peer) (Inr ()) True ?in = Some s0"
    by (simp add: connection_start_def peer_credentials_def)
  let ?s1 = "reader_turn byte_codec s0"
  let ?s = "reader_turn byte_codec ?s1"
  have s0_eq: "s0 = the (connection_start 5 (Inr root_peer) (Inr ()) True ?in)" using s0 by simp
  have rd: "read_message byte_codec ?in = (?in\<lparr>st_bytes := []\<rparr>, Inr (ReleaseInhibit 7))"
    "read_message byte_codec (?in\<lparr>st_bytes := []\<rparr>) = (?in\<lparr>st_bytes := []\<rparr>, Inl DisconnectedError)"
    by code_simp+
  note run_simps = s0_eq connection_start_def peer_credentials_def reader_turn_def post_def rd
  have ph: "cn_phase s0 = Reading" "cn_phase ?s1 = Reading" by (simp_all add: run_simps)
  have after: "cn_phase ?s = Joining \<and> cn_registry ?s \<and> cn_queue ?s = [] \<and> \<not> cn_write_failed ?s"
    "cn_posted ?s = [Connected 5 root_peer, Command 5 root_peer (ReleaseInhibit 7)]"
    using rd by (simp_all add: run_simps)
  have r1: "run (conn_step byte_codec silent_codec) s0 ([] @ [ReaderReads]) ?s1"
    by (rule run_step, rule run_start, rule reads, rule ph(1))
  have r: "run (conn_step byte_codec silent_codec) s0 (([] @ [ReaderReads]) @ [ReaderReads]) ?s"
    by (rule run_step, rule r1, rule reads, rule ph(2))
  have stuck: "\<forall>e t. conn_step byte_codec silent_codec ?s e t \<longrightarrow> daemon_side e"
    by (rule mp [OF conjunct2 [OF conjunct2 [OF conjunct2 [OF connection_lifecycle [OF s0 r]]]] after(1)])
  from r have r': "run (conn_step byte_codec silent_codec) s0 [ReaderReads, ReaderReads] ?s" by simp
  show ?thesis unfolding s0_eq [symmetric] by (intro exI [of _ ?s] conjI r' after(2) stuck)
qed

text \<open>
  C24. The threads of a connection wind down. From any state, and whatever the peer sends, they take at most
  \<open>turns_left\<close> turns before they need the daemon; once they have stopped and the daemon has dropped
  its sender, both threads have ended, everything sent is written unless a write failed, and if the
  daemon is still running it has been told: \<open>Disconnected\<close> is the last message posted. While it keeps
  the sender, the reader waits for the writer, unless a write failed.
\<close>

theorem connection_threads_finish:
  assumes "connection_start c creds clone loop_open input = Some s0" "run (conn_step rcd mcd) s0 es s"
  shows "(\<forall>fs t. run (conn_step rcd mcd) s fs t \<and> (\<forall>e \<in> set fs. \<not> daemon_side e) \<longrightarrow> length fs \<le> turns_left s)
    \<and> ((\<forall>e t. conn_step rcd mcd s e t \<longrightarrow> daemon_side e) \<longrightarrow>
        (if cn_registry s \<and> \<not> cn_write_failed s then cn_phase s = Joining \<and> cn_writer s \<and> cn_written s = cn_sent s
         else cn_phase s = Finished \<and> \<not> cn_writer s \<and> (cn_write_failed s \<or> cn_written s = cn_sent s)
           \<and> (cn_loop s \<longrightarrow> last (cn_posted s) = Disconnected c)))"
proof (intro conjI allI impI; (elim conjE)?)
  fix fs t assume "run (conn_step rcd mcd) s fs t" "\<forall>e \<in> set fs. \<not> daemon_side e"
  from thread_run_left [OF this] show "length fs \<le> turns_left s" by simp
next
  assume halt: "\<forall>e t. conn_step rcd mcd s e t \<longrightarrow> daemon_side e"
  note halted = threads_halted [OF halt]
  have inv: "conn_inv rcd c creds input s" using conn_runs.always [OF assms(2,1)] .
  then have out: "outbox_ok s" and fin: "cn_phase s = Finished \<longrightarrow> \<not> cn_writer s \<and> (cn_loop s \<longrightarrow> last (cn_posted s) = Disconnected c)"
    by (simp_all add: conn_inv_def)
  show "if cn_registry s \<and> \<not> cn_write_failed s then cn_phase s = Joining \<and> cn_writer s \<and> cn_written s = cn_sent s
      else cn_phase s = Finished \<and> \<not> cn_writer s \<and> (cn_write_failed s \<or> cn_written s = cn_sent s)
        \<and> (cn_loop s \<longrightarrow> last (cn_posted s) = Disconnected c)"
    using halted out fin by (cases "cn_phase s"; cases "cn_writer s") (auto simp: outbox_ok_def)
qed

theorem connection_threads_finish_witness:
  "\<not> (\<exists>fs t. run (conn_step byte_codec silent_codec)
       (the (connection_start 5 (Inr root_peer) (Inr ()) True \<lparr>st_bytes = [1, 0, 0, 0, 7], st_end = eof\<rparr>)) fs t
     \<and> list_all (\<lambda>e. \<not> daemon_side e) fs \<and> 8 < length fs)"
proof -
  let ?in = "\<lparr>st_bytes = [1, 0, 0, 0, 7], st_end = eof\<rparr>"
  let ?s = "the (connection_start 5 (Inr root_peer) (Inr ()) True ?in)"
  have 1: "connection_start 5 (Inr root_peer) (Inr ()) True ?in = Some ?s"
    by (simp add: connection_start_def peer_credentials_def)
  have "turns_left ?s = 8" by (simp add: connection_start_def peer_credentials_def turns_left_def)
  with conjunct1 [OF connection_threads_finish [OF 1 run_start, where rcd = byte_codec and mcd = silent_codec]] show ?thesis
    by (auto simp: list_all_iff)
qed

end
