(* ===== verification/Startup.thy ===== *)
theory Startup
  imports Daemon_Reachable Connection
begin

section \<open>Starting the daemon\<close>

text \<open>
  \<open>main\<close> and \<open>run\<close> of \<open>src/main.rs\<close>: the configuration is loaded, logging set up, the daemon's state built, the socket
  bound, the four event sources registered and the service manager told that the daemon is ready; then
  the loop dispatches batches of events until \<open>should_exit\<close>. Every step up to the loop can fail, and
  so can a dispatch. What calloop, the sockets and the configuration files answer is in a \<open>boot\<close>.
\<close>

subsection \<open>The environment of a start\<close>

record boot =
  bt_argument :: "string option"
  bt_config :: config_os
  bt_rust_log :: "string + string"
  bt_world :: world
  bt_udev :: udev
  bt_new_loop :: "string + unit"
  bt_socket_exists :: "string \<Rightarrow> bool"
  bt_socket :: "socket_op \<Rightarrow> io_error + unit"
  bt_ipc_source :: "string + unit"
  bt_timer_source :: "string + unit"
  bt_signals :: "io_error + unit"
  bt_signal_source :: "string + unit"

datatype boot_step = InitLogging log_setup | SocketStep socket_op | NotifyReady

definition protocol_err :: "string \<Rightarrow> string + unit \<Rightarrow> unit result" where
  "protocol_err what answer = map_err (\<lambda>e. ProtocolError (what @ '': '' @ e)) answer"

definition and_then :: "unit result \<Rightarrow> unit result \<Rightarrow> unit result" where
  "and_then r r' = (case r of Inl e \<Rightarrow> Inl e | Inr _ \<Rightarrow> r')"

text \<open>The registrations after the socket is bound, in order: requests, the one-second timer, signals.\<close>

definition register_sources :: "boot \<Rightarrow> unit result" where
  "register_sources b =
     and_then (protocol_err ''failed to register IPC channel'' (bt_ipc_source b))
    (and_then (protocol_err ''failed to register idle timer'' (bt_timer_source b))
    (and_then (map_err IoError (bt_signals b))
       (protocol_err ''failed to register signal source'' (bt_signal_source b))))"

subsection \<open>The loop\<close>

text \<open>
  \<open>None\<close>: every dispatch so far has returned and the loop goes on. A dispatch runs a batch of callbacks or
  fails.
\<close>

fun serve :: "(string + (world \<times> loop_event) list) list \<Rightarrow> daemon \<Rightarrow> daemon \<times> unit result option" where
  "serve [] d = (d, if d_should_exit d then Some (Inr ()) else None)"
| "serve (answer # answers) d =
     (if d_should_exit d then (d, Some (Inr ()))
      else (case answer of
              Inl e \<Rightarrow> (d, Some (Inl (ProtocolError (''event loop error: '' @ e))))
            | Inr batch \<Rightarrow> serve answers (dispatch_batch batch d)))"

subsection \<open>The program\<close>

record boot_result =
  br_steps :: "boot_step list"
  br_daemon :: "daemon option"
  br_result :: "unit result option"

definition daemon_run :: "boot \<Rightarrow> (string + (world \<times> loop_event) list) list \<Rightarrow> boot_result" where
  "daemon_run b answers =
     (case load (bt_config b) (bt_argument b) of
        Inl e \<Rightarrow> \<lparr>br_steps = [], br_daemon = None, br_result = Some (Inl e)\<rparr>
      | Inr s \<Rightarrow>
          (let logging = InitLogging (log_init (bt_rust_log b) (set_logging s));
               d = daemon_startup (bt_world b) (bt_udev b) s
           in (case protocol_err ''failed to create event loop'' (bt_new_loop b) of
                 Inl e \<Rightarrow> \<lparr>br_steps = [logging], br_daemon = Some d, br_result = Some (Inl e)\<rparr>
               | Inr _ \<Rightarrow>
                   (case ipc_spawn (bt_socket_exists b) (bt_socket b) (d_socket_path d) (ipc_socket_mode (set_ipc s)) of
                      (made, Inl e) \<Rightarrow>
                        \<lparr>br_steps = logging # map SocketStep made, br_daemon = Some d, br_result = Some (Inl e)\<rparr>
                    | (made, Inr _) \<Rightarrow>
                        (case register_sources b of
                           Inl e \<Rightarrow> \<lparr>br_steps = logging # map SocketStep made, br_daemon = Some d, br_result = Some (Inl e)\<rparr>
                         | Inr _ \<Rightarrow>
                             (case serve answers d of
                                (d', r) \<Rightarrow> \<lparr>br_steps = logging # map SocketStep made @ [NotifyReady],
                                            br_daemon = Some d', br_result = r\<rparr>))))))"

text \<open>What the process prints on standard error and its exit status, once it has ended.\<close>

definition daemon_main :: "boot_result \<Rightarrow> (string option \<times> nat) option" where
  "daemon_main r =
     (case br_result r of
        None \<Rightarrow> None
      | Some (Inr _) \<Rightarrow> Some (None, 0)
      | Some (Inl e) \<Rightarrow> Some (Some (''mitos-session: fatal: '' @ error_text e), 1))"

subsection \<open>Specification\<close>

text \<open>The conditions under which the daemon may call itself ready with the settings \<open>s\<close>.\<close>

definition boots_with :: "boot \<Rightarrow> settings \<Rightarrow> bool" where
  "boots_with b s \<longleftrightarrow>
     load (bt_config b) (bt_argument b) = Inr s
     \<and> (\<forall>x \<in> set (spawn_ops (bt_socket_exists b) (ipc_socket_path (set_ipc s)) (ipc_socket_mode (set_ipc s))).
          bt_socket b x = Inr ())
     \<and> list_all (\<lambda>r. r = Inr ()) [bt_new_loop b, bt_ipc_source b, bt_timer_source b, bt_signal_source b]
     \<and> bt_signals b = Inr ()"

text \<open>A start where everything works and no configuration file exists.\<close>

definition sample_boot :: boot where
  "sample_boot =
     \<lparr>bt_argument = None,
      bt_config = \<lparr>env_config_path = None, path_exists = (\<lambda>_. False), read_file = (\<lambda>_. Inr []),
        toml_from_str = (\<lambda>_. Inl [])\<rparr>,
      bt_rust_log = Inl ''environment variable not found'', bt_world = sample_world, bt_udev = sample_udev, bt_new_loop = Inr (), bt_socket_exists = (\<lambda>_. True),
      bt_socket = (\<lambda>_. Inr ()), bt_ipc_source = Inr (), bt_timer_source = Inr (), bt_signals = Inr (),
      bt_signal_source = Inr ()\<rparr>"

subsection \<open>Lemmas\<close>

lemma serve_event_loop: "fst (serve (map Inr batches) d) = event_loop batches d"
  by (induction batches arbitrary: d) auto

lemma serve_ends_iff:
  "snd (serve (map Inr batches) d) = (if d_should_exit (event_loop batches d) then Some (Inr ()) else None)"
  by (induction batches arbitrary: d) auto

lemma unit_Inr_iff: "(\<exists>u. r = Inr u) \<longleftrightarrow> r = Inr ()"
  by auto

lemma map_err_ok: "map_err f r = Inr () \<longleftrightarrow> r = Inr ()"
  by (cases r) (simp_all add: map_err_def)

lemma register_sources_ok:
  "register_sources b = Inr () \<longleftrightarrow>
     bt_ipc_source b = Inr () \<and> bt_timer_source b = Inr () \<and> bt_signals b = Inr () \<and> bt_signal_source b = Inr ()"
  by (auto simp: register_sources_def and_then_def protocol_err_def map_err_ok split: sum.splits)

lemma startup_socket_path: "d_socket_path (daemon_startup w os s) = ipc_socket_path (set_ipc s)"
  by (simp add: daemon_startup_def daemon_new_def Let_def split: sum.split)

lemma spawn_ok_iff:
  "snd (ipc_spawn ex answer p m) = Inr () \<longleftrightarrow> (\<forall>x \<in> set (spawn_ops ex p m). answer x = Inr ())"
  "snd (ipc_spawn ex answer p m) = Inr () \<Longrightarrow> fst (ipc_spawn ex answer p m) = spawn_ops ex p m"
proof -
  have "snd (ipc_spawn ex answer p m) = Inr () \<longleftrightarrow> fst (ipc_spawn ex answer p m) = spawn_ops ex p m
      \<and> (\<forall>x \<in> set (fst (ipc_spawn ex answer p m)). answer x = Inr ())"
    using ipc_spawn_ok [of ex answer p m "fst (ipc_spawn ex answer p m)"]
    unfolding unit_Inr_iff prod_eq_iff fst_conv snd_conv by blast
  moreover have "snd (ipc_spawn ex answer p m) = Inr ()" if "\<forall>x \<in> set (spawn_ops ex p m). answer x = Inr ()"
    using that ipc_spawn_ok [of ex answer p m "spawn_ops ex p m"] by (metis snd_conv unit_Inr_iff)
  ultimately show "snd (ipc_spawn ex answer p m) = Inr () \<longleftrightarrow> (\<forall>x \<in> set (spawn_ops ex p m). answer x = Inr ())"
    and "snd (ipc_spawn ex answer p m) = Inr () \<Longrightarrow> fst (ipc_spawn ex answer p m) = spawn_ops ex p m"
    by metis+
qed

lemma boots_with_unique: "boots_with b s \<Longrightarrow> boots_with b s' \<Longrightarrow> s' = s"
  by (simp add: boots_with_def)

lemma daemon_run_boots:
  assumes "boots_with b s"
  shows "daemon_run b answers =
     (let (d, r) = serve answers (daemon_startup (bt_world b) (bt_udev b) s)
      in \<lparr>br_steps = InitLogging (log_init (bt_rust_log b) (set_logging s)) # map SocketStep (spawn_ops (bt_socket_exists b) (ipc_socket_path (set_ipc s))
            (ipc_socket_mode (set_ipc s))) @ [NotifyReady], br_daemon = Some d, br_result = r\<rparr>)"
proof -
  let ?sp = "ipc_spawn (bt_socket_exists b) (bt_socket b) (ipc_socket_path (set_ipc s)) (ipc_socket_mode (set_ipc s))"
  have "snd ?sp = Inr ()" "register_sources b = Inr ()"
    using assms by (simp_all add: boots_with_def spawn_ok_iff(1) register_sources_ok)
  moreover from this have "?sp = (spawn_ops (bt_socket_exists b) (ipc_socket_path (set_ipc s)) (ipc_socket_mode (set_ipc s)), Inr ())"
    using spawn_ok_iff(2) by (metis prod.collapse)
  ultimately show ?thesis
    using assms by (simp add: boots_with_def daemon_run_def startup_socket_path protocol_err_def Let_def split: prod.split)
qed

lemma daemon_run_fails:
  assumes "\<not> (\<exists>s. boots_with b s)"
  shows "NotifyReady \<notin> set (br_steps (daemon_run b answers))"
    and "\<exists>e. br_result (daemon_run b answers) = Some (Inl e)"
    and "br_daemon (daemon_run b answers) = (case load (bt_config b) (bt_argument b) of
      Inl _ \<Rightarrow> None | Inr s \<Rightarrow> Some (daemon_startup (bt_world b) (bt_udev b) s))"
proof -
  have fails: "snd (ipc_spawn (bt_socket_exists b) (bt_socket b) (ipc_socket_path (set_ipc s)) (ipc_socket_mode (set_ipc s))) \<noteq> Inr ()
      \<or> bt_new_loop b \<noteq> Inr () \<or> register_sources b \<noteq> Inr ()"
    if "load (bt_config b) (bt_argument b) = Inr s" for s
    using assms that by (auto simp: boots_with_def spawn_ok_iff(1) register_sources_ok)
  show "NotifyReady \<notin> set (br_steps (daemon_run b answers))"
    and "\<exists>e. br_result (daemon_run b answers) = Some (Inl e)"
    and "br_daemon (daemon_run b answers) = (case load (bt_config b) (bt_argument b) of
      Inl _ \<Rightarrow> None | Inr s \<Rightarrow> Some (daemon_startup (bt_world b) (bt_udev b) s))"
    using fails
    by (auto simp: daemon_run_def startup_socket_path protocol_err_def map_err_def Let_def split: sum.splits prod.splits)
qed

subsection \<open>Properties\<close>

text \<open>
  C26. The daemon announces itself ready exactly when it can serve: the configuration loads, every
  step of binding the socket works, the last of them setting the configured mode and starting the
  accepting thread, and all event sources are registered; the announcement comes after all of these,
  and logging is set up first.
  If anything fails before, the process handles no event at all and exits with status 1 and a message.
  Otherwise its state is what the event loop makes of the start state, and it exits, with status 0,
  exactly when some batch of events has asked for it.
\<close>

theorem startup_ready_iff_serving:
  shows "(NotifyReady \<in> set (br_steps (daemon_run b answers)) \<longleftrightarrow> (\<exists>s. boots_with b s))
    \<and> (\<not> (\<exists>s. boots_with b s) \<longrightarrow> (\<exists>text. daemon_main (daemon_run b answers) = Some (Some text, 1))
        \<and> br_daemon (daemon_run b answers) = (case load (bt_config b) (bt_argument b) of
            Inl _ \<Rightarrow> None | Inr s \<Rightarrow> Some (daemon_startup (bt_world b) (bt_udev b) s)))
    \<and> (\<forall>s. boots_with b s \<longrightarrow> br_steps (daemon_run b answers) =
          InitLogging (log_init (bt_rust_log b) (set_logging s))
          # map SocketStep (spawn_ops (bt_socket_exists b) (ipc_socket_path (set_ipc s)) (ipc_socket_mode (set_ipc s))) @ [NotifyReady])
    \<and> (\<forall>s batches. boots_with b s \<and> answers = map Inr batches \<longrightarrow>
          (let d = event_loop batches (daemon_startup (bt_world b) (bt_udev b) s)
           in br_daemon (daemon_run b answers) = Some d
            \<and> daemon_main (daemon_run b answers) = (if d_should_exit d then Some (None, 0) else None)))"
proof (cases "\<exists>s. boots_with b s")
  case True
  then obtain s where s: "boots_with b s" by blast
  have loop: "br_daemon (daemon_run b (map Inr batches)) = Some (event_loop batches (daemon_startup (bt_world b) (bt_udev b) s))"
    "br_result (daemon_run b (map Inr batches)) =
      (if d_should_exit (event_loop batches (daemon_startup (bt_world b) (bt_udev b) s)) then Some (Inr ()) else None)" for batches
    by (simp_all add: daemon_run_boots [OF s] serve_event_loop serve_ends_iff split_def Let_def)
  have steps: "br_steps (daemon_run b answers) =
      InitLogging (log_init (bt_rust_log b) (set_logging s))
      # map SocketStep (spawn_ops (bt_socket_exists b) (ipc_socket_path (set_ipc s)) (ipc_socket_mode (set_ipc s))) @ [NotifyReady]"
    by (simp add: daemon_run_boots [OF s] split_def Let_def)
  have "NotifyReady \<in> set (br_steps (daemon_run b answers))" unfolding steps by simp
  moreover have "daemon_main (daemon_run b (map Inr batches)) =
      (if d_should_exit (event_loop batches (daemon_startup (bt_world b) (bt_udev b) s)) then Some (None, 0) else None)" for batches
    by (simp add: daemon_main_def loop)
  ultimately show ?thesis
    using True boots_with_unique [OF s] steps loop(1) by (simp only: Let_def) blast
next
  case False
  with daemon_run_fails [OF False, of answers] show ?thesis by (auto simp: daemon_main_def)
qed

theorem startup_ready_iff_serving_witness:
  "NotifyReady \<in> set (br_steps (daemon_run sample_boot []))
   \<and> daemon_main (daemon_run (sample_boot\<lparr>bt_new_loop := Inl ''EMFILE''\<rparr>) []) \<noteq> None"
proof -
  have "load (bt_config sample_boot) (bt_argument sample_boot) = Inr default_settings"
    by (simp add: sample_boot_def load_def)
  then have "boots_with sample_boot default_settings" by (simp add: boots_with_def sample_boot_def)
  then have 1: "NotifyReady \<in> set (br_steps (daemon_run sample_boot []))"
    using conjunct1 [OF startup_ready_iff_serving [of sample_boot "[]"]] by blast
  have "\<not> (\<exists>s. boots_with (sample_boot\<lparr>bt_new_loop := Inl ''EMFILE''\<rparr>) s)" by (simp add: boots_with_def)
  then have "daemon_main (daemon_run (sample_boot\<lparr>bt_new_loop := Inl ''EMFILE''\<rparr>) []) \<noteq> None"
    using conjunct1 [OF conjunct2 [OF startup_ready_iff_serving [of "sample_boot\<lparr>bt_new_loop := Inl ''EMFILE''\<rparr>" "[]"]]]
    by auto
  with 1 show ?thesis by blast
qed

end
