(* ===== verification/Sessionctl.thy ===== *)
theory Sessionctl
  imports Framing
begin

section \<open>The command-line client\<close>

text \<open>
  \<open>bin/mitos-sessionctl.rs\<close> from the parsed command line on: the socket path, the request each command
  stands for, the password prompt, the answer printed and the exit status. The command-line parser is
  generated by the clap crate; its result, a \<open>cli\<close>, is where the model starts. What the process does
  is a list of \<open>ctl_effect\<close>s, oldest first.
\<close>

subsection \<open>Commands\<close>

datatype risk_arg = RiskElevated | RiskCritical

fun from_risk_arg :: "risk_arg \<Rightarrow> elevation_risk" where
  "from_risk_arg RiskElevated = Elevated"
| "from_risk_arg RiskCritical = Critical"

datatype inhibit_what_arg = WhatIdle | WhatLock | WhatSuspend | WhatShutdown

fun from_inhibit_what_arg :: "inhibit_what_arg \<Rightarrow> inhibit_what" where
  "from_inhibit_what_arg WhatIdle = InhibitIdle"
| "from_inhibit_what_arg WhatLock = InhibitLock"
| "from_inhibit_what_arg WhatSuspend = InhibitSuspend"
| "from_inhibit_what_arg WhatShutdown = InhibitShutdown"

datatype inhibit_mode_arg = ModeBlock | ModeDelay

fun from_inhibit_mode_arg :: "inhibit_mode_arg \<Rightarrow> inhibit_mode" where
  "from_inhibit_mode_arg ModeBlock = BlockMode"
| "from_inhibit_mode_arg ModeDelay = DelayMode"

datatype ctl_command =
    CmdListSessions
  | CmdStatus session_id
  | CmdCreateSession string "string option" "string option"
  | CmdTerminate session_id
  | CmdLock session_id
  | CmdUnlock session_id string
  | CmdActivity string
  | CmdSwitch string session_id
  | CmdInhibit inhibit_what_arg string string inhibit_mode_arg
  | CmdReleaseInhibit u64
  | CmdListInhibitors
  | CmdSuspend
  | CmdReboot
  | CmdPoweroff
  | CmdRequestElevation session_id string string risk_arg string
  | CmdRespondElevation request_id bool

record cli =
  cli_socket :: "string option"
  cli_command :: ctl_command

subsection \<open>The outside world\<close>

text \<open>
  The configuration files, the socket, standard input and standard output. \<open>ctl_write\<close> answers the
  writes to the socket, and \<open>ctl_read_line\<close> is what one \<open>read_line\<close> delivers, the line end included.
\<close>

record ctl_os =
  ctl_config :: config_os
  ctl_connect :: "string \<Rightarrow> io_error + stream"
  ctl_write :: "write_op \<Rightarrow> io_error + unit"
  ctl_flush_stdout :: "io_error + unit"
  ctl_read_line :: "io_error + string"

datatype ctl_effect =
    Connect string
  | PromptPassword
  | SendOp write_op
  | PrintLine string
  | PrintError string

subsection \<open>From a command to a request\<close>

definition trim_line_end :: "string \<Rightarrow> string" where
  "trim_line_end s = rev (dropWhile (\<lambda>c. c = newline \<or> c = carriage_return) (rev s))"

definition read_password :: "ctl_os \<Rightarrow> string result" where
  "read_password os =
     (case ctl_flush_stdout os of
        Inl e \<Rightarrow> Inl (IoError e)
      | Inr _ \<Rightarrow> (case ctl_read_line os of Inl e \<Rightarrow> Inl (IoError e) | Inr line \<Rightarrow> Inr (trim_line_end line)))"

text \<open>A command that asks for the password first, and the request made of the answer.\<close>

definition with_password :: "ctl_os \<Rightarrow> (string \<Rightarrow> request) \<Rightarrow> ctl_effect list \<times> request result" where
  "with_password os mk = ([PromptPassword], case read_password os of Inl e \<Rightarrow> Inl e | Inr pw \<Rightarrow> Inr (mk pw))"

fun command_request :: "ctl_os \<Rightarrow> ctl_command \<Rightarrow> ctl_effect list \<times> request result" where
  "command_request os CmdListSessions = ([], Inr ListSessions)"
| "command_request os (CmdStatus i) = ([], Inr (SessionStatus i))"
| "command_request os (CmdCreateSession u seat st) = ([], Inr (CreateSession u seat st))"
| "command_request os (CmdTerminate i) = ([], Inr (TerminateSession i))"
| "command_request os (CmdLock i) = ([], Inr (LockSession i))"
| "command_request os (CmdUnlock i u) = with_password os (Unlock i u)"
| "command_request os (CmdActivity seat) = ([], Inr (ReportActivity seat))"
| "command_request os (CmdSwitch seat i) = ([], Inr (SwitchSession seat i))"
| "command_request os (CmdInhibit what who why md) =
     ([], Inr (Inhibit (from_inhibit_what_arg what) who why (from_inhibit_mode_arg md)))"
| "command_request os (CmdReleaseInhibit i) = ([], Inr (ReleaseInhibit i))"
| "command_request os CmdListInhibitors = ([], Inr ListInhibitors)"
| "command_request os CmdSuspend = ([], Inr Suspend)"
| "command_request os CmdReboot = ([], Inr Reboot)"
| "command_request os CmdPoweroff = ([], Inr PowerOff)"
| "command_request os (CmdRequestElevation i app descr rsk dur) =
     ([], Inr (RequestElevation i
        \<lparr>requesting_app = app, description = descr, risk = from_risk_arg rsk, duration_label = dur\<rparr>))"
| "command_request os (CmdRespondElevation i cancel) =
     (if cancel then ([], Inr (RespondElevation i CancelPrompt))
      else with_password os (\<lambda>pw. RespondElevation i (Password pw)))"

subsection \<open>Printing the response\<close>

fun session_type_debug :: "session_type \<Rightarrow> string" where
  "session_type_debug Wayland = ''Wayland''"
| "session_type_debug X11 = ''X11''"
| "session_type_debug Tty = ''Tty''"

fun inhibit_what_debug :: "inhibit_what \<Rightarrow> string" where
  "inhibit_what_debug InhibitIdle = ''Idle''"
| "inhibit_what_debug InhibitLock = ''Lock''"
| "inhibit_what_debug InhibitSuspend = ''Suspend''"
| "inhibit_what_debug InhibitShutdown = ''Shutdown''"

fun inhibit_mode_debug :: "inhibit_mode \<Rightarrow> string" where
  "inhibit_mode_debug BlockMode = ''Block''"
| "inhibit_mode_debug DelayMode = ''Delay''"

abbreviation tab :: string where "tab \<equiv> [CHR 0x09]"

definition session_line :: "session_info \<Rightarrow> string" where
  "session_line s =
     show_word (si_id s) @ tab @ si_user_name s @ tab @ ''seat='' @ si_seat_id s @ tab
     @ session_type_debug (si_session_type s) @ tab @ si_state s @ (if si_locked s then '' [locked]'' else [])"

definition session_lines :: "session_info \<Rightarrow> string list" where
  "session_lines s =
     [''id:      '' @ show_word (si_id s),
      ''user:    '' @ si_user_name s @ '' (uid '' @ show_word (si_uid s) @ '')'',
      ''seat:    '' @ si_seat_id s,
      ''type:    '' @ session_type_debug (si_session_type s),
      ''state:   '' @ si_state s @ (if si_locked s then '' (locked)'' else [])]"

definition inhibitor_line :: "inhibitor_info \<Rightarrow> string" where
  "inhibitor_line i =
     show_word (ii_id i) @ tab @ inhibit_what_debug (ii_what i) @ tab @ ii_who i @ tab
     @ inhibit_mode_debug (ii_mode i) @ tab @ ii_why i"

fun print_response :: "response \<Rightarrow> ctl_effect list" where
  "print_response ROk = [PrintLine ''ok'']"
| "print_response (RSessions ss) =
     (if ss = [] then [PrintLine ''no active sessions''] else []) @ map (\<lambda>s. PrintLine (session_line s)) ss"
| "print_response (RSession s) = map PrintLine (session_lines s)"
| "print_response (RAuthResult outcome) = [PrintLine (outcome_debug outcome)]"
| "print_response (RInhibitGranted i) = [PrintLine (''inhibitor '' @ show_word i @ '' granted'')]"
| "print_response (RInhibitors is) =
     (if is = [] then [PrintLine ''no active inhibitors''] else []) @ map (\<lambda>i. PrintLine (inhibitor_line i)) is"
| "print_response (RError e) = [PrintError (''error: '' @ e)]"

subsection \<open>The program\<close>

definition ctl_socket_path :: "ctl_os \<Rightarrow> cli \<Rightarrow> string result" where
  "ctl_socket_path os c =
     (case cli_socket c of
        Some path \<Rightarrow> Inr path
      | None \<Rightarrow> (case load (ctl_config os) None of Inl e \<Rightarrow> Inl e | Inr s \<Rightarrow> Inr (ipc_socket_path (set_ipc s))))"

definition ctl_run :: "request codec \<Rightarrow> message codec \<Rightarrow> ctl_os \<Rightarrow> cli \<Rightarrow> ctl_effect list \<times> unit result" where
  "ctl_run rcd mcd os c =
     (case ctl_socket_path os c of
        Inl e \<Rightarrow> ([], Inl e)
      | Inr path \<Rightarrow>
          (case client_connect path (ctl_connect os path) of
             Inl e \<Rightarrow> ([Connect path], Inl e)
           | Inr s \<Rightarrow>
               (case command_request os (cli_command c) of
                  (asked, Inl e) \<Rightarrow> (Connect path # asked, Inl e)
                | (asked, Inr r) \<Rightarrow>
                    (case call rcd mcd (ctl_write os) s r of
                       (made, _, Inl e) \<Rightarrow> (Connect path # asked @ map SendOp made, Inl e)
                     | (made, _, Inr resp) \<Rightarrow>
                         (Connect path # asked @ map SendOp made @ print_response resp, Inr ())))))"

datatype exit_code = ExitSuccess | ExitFailure

definition ctl_main :: "request codec \<Rightarrow> message codec \<Rightarrow> ctl_os \<Rightarrow> cli \<Rightarrow> ctl_effect list \<times> exit_code" where
  "ctl_main rcd mcd os c =
     (case ctl_run rcd mcd os c of
        (made, Inr _) \<Rightarrow> (made, ExitSuccess)
      | (made, Inl e) \<Rightarrow> (made @ [PrintError (''mitos-sessionctl: '' @ error_text e)], ExitFailure))"

text \<open>What a list of messages looks like on the wire, one frame after the other.\<close>

definition wire :: "'m codec \<Rightarrow> (write_op \<Rightarrow> io_error + unit) \<Rightarrow> 'm list \<Rightarrow> u8 list" where
  "wire cd answer ms = concat (map (\<lambda>m. written (fst (write_message cd answer m))) ms)"

text \<open>Every message is encoded to a payload within the limit, and decoded to itself.\<close>

definition carries :: "'m codec \<Rightarrow> 'm set \<Rightarrow> bool" where
  "carries cd A \<longleftrightarrow> (\<forall>m \<in> A. case serialize cd m of Inl _ \<Rightarrow> False
     | Inr p \<Rightarrow> length p \<le> unat max_message_len \<and> deserialize cd p = Inr m)"

text \<open>For the example: a daemon that sends an event and then refuses the request.\<close>

definition sample_message_codec :: "message codec" where
  "sample_message_codec =
     \<lparr>serialize = (\<lambda>m. case m of ResponseMsg (RError _) \<Rightarrow> Inr [1] | _ \<Rightarrow> Inr [0]),
      deserialize = (\<lambda>bs. case bs of [b] \<Rightarrow> Inr (if b = 1 then ResponseMsg (RError ''no'') else EventMsg PrepareForSleep)
                              | _ \<Rightarrow> Inl ''bad payload'')\<rparr>"

definition sample_ctl :: ctl_os where
  "sample_ctl =
     \<lparr>ctl_config = \<lparr>env_config_path = None, path_exists = (\<lambda>_. False), read_file = (\<lambda>_. Inr []),
        toml_from_str = (\<lambda>_. Inl [])\<rparr>,
      ctl_connect = (\<lambda>_. Inr \<lparr>st_bytes = [1, 0, 0, 0, 0, 1, 0, 0, 0, 1], st_end = eof\<rparr>),
      ctl_write = (\<lambda>_. Inr ()), ctl_flush_stdout = Inr (), ctl_read_line = Inr []\<rparr>"

subsection \<open>Lemmas\<close>

lemma carriesE:
  assumes "carries cd A" "m \<in> A"
  obtains p where "serialize cd m = Inr p" "length p \<le> unat max_message_len" "length p < 2 ^ 32" "deserialize cd p = Inr m"
proof -
  obtain p where "serialize cd m = Inr p" "length p \<le> unat max_message_len" "deserialize cd p = Inr m"
    using assms by (cases "serialize cd m") (auto simp: carries_def)
  then show thesis using that unsigned_less [where 'a = nat, of max_message_len] by simp
qed

lemma read_wire:
  assumes "carries cd A" "m \<in> A" "\<And>x. \<exists>u. answer x = Inr u" "st_bytes s = wire cd answer (m # ms) @ rest"
  shows "read_message cd s = (s\<lparr>st_bytes := wire cd answer ms @ rest\<rparr>, Inr m)"
proof -
  from assms(1,2) obtain p where p: "serialize cd m = Inr p" "length p \<le> unat max_message_len" "length p < 2 ^ 32"
    "deserialize cd p = Inr m" by (rule carriesE)
  have "st_bytes s = frame p @ wire cd answer ms @ rest"
    using assms(4) write_message_frame(2) [OF p(1,3) assms(3)] by (simp add: wire_def)
  from read_message_frame [OF p(2) this, of cd] p(4) show ?thesis by simp
qed

lemma await_response_skips_events:
  assumes "carries mcd (set (map EventMsg es @ [ResponseMsg resp]))" "\<And>x. \<exists>u. answer x = Inr u"
    and "st_bytes s = wire mcd answer (map EventMsg es @ [ResponseMsg resp]) @ rest"
  shows "await_response mcd s = (s\<lparr>st_bytes := rest\<rparr>, Inr resp)"
  using assms(1,3)
proof (induction es arbitrary: s)
  case Nil
  then have "read_message mcd s = (s\<lparr>st_bytes := wire mcd answer [] @ rest\<rparr>, Inr (ResponseMsg resp))"
    by (intro read_wire [OF _ _ assms(2)]) auto
  then show ?case by (subst await_response.simps) (simp add: wire_def)
next
  case (Cons e es)
  let ?s' = "s\<lparr>st_bytes := wire mcd answer (map EventMsg es @ [ResponseMsg resp]) @ rest\<rparr>"
  have "read_message mcd s = (?s', Inr (EventMsg e))"
    using Cons.prems by (intro read_wire [OF _ _ assms(2)]) auto
  moreover have "await_response mcd ?s' = (?s'\<lparr>st_bytes := rest\<rparr>, Inr resp)"
    using Cons.prems(1) by (intro Cons.IH) (auto simp: carries_def)
  ultimately show ?case by (subst await_response.simps) simp
qed

lemma conversions_inject [simp]:
  "from_risk_arg x = from_risk_arg x' \<longleftrightarrow> x = x'"
  "from_inhibit_what_arg w = from_inhibit_what_arg w' \<longleftrightarrow> w = w'"
  "from_inhibit_mode_arg m = from_inhibit_mode_arg m' \<longleftrightarrow> m = m'"
proof -
  show "from_risk_arg x = from_risk_arg x' \<longleftrightarrow> x = x'" by (cases x; cases x'; simp)
  show "from_inhibit_what_arg w = from_inhibit_what_arg w' \<longleftrightarrow> w = w'" by (cases w; cases w'; simp)
  show "from_inhibit_mode_arg m = from_inhibit_mode_arg m' \<longleftrightarrow> m = m'" by (cases m; cases m'; simp)
qed

lemma command_request_inject:
  assumes "command_request os c = (asked, Inr r)" "command_request os c' = (asked', Inr r)"
  shows "c = c'"
  using assms
  by (cases c; cases c') (auto simp: with_password_def split: sum.splits if_splits)

lemma trim_line_end_newline:
  "pw = [] \<or> last pw \<notin> {newline, carriage_return} \<Longrightarrow> trim_line_end (pw @ [newline]) = pw"
  by (cases pw rule: rev_cases) (auto simp: trim_line_end_def)

text \<open>Nothing is sent before the socket is open and the request complete.\<close>

lemma ctl_run_failures:
  assumes "ctl_run rcd mcd os c = (made, Inl e)"
  shows "(\<exists>op. SendOp op \<in> set made) \<longrightarrow>
     (\<exists>path s asked r. ctl_socket_path os c = Inr path \<and> ctl_connect os path = Inr s
        \<and> command_request os (cli_command c) = (asked, Inr r))"
  using assms
  by (cases "cli_command c")
     (auto simp: ctl_run_def client_connect_def map_err_def with_password_def split: sum.splits prod.splits if_splits)

subsection \<open>Properties\<close>

text \<open>
  C28. The client is end to end faithful. When the socket opens, the password (if the command needs one)
  is read and the writes go through, the process writes one frame, from which the daemon's reading loop
  takes exactly the command's request, and no other command of the client stands for that request; it
  then passes over every event that arrives first, prints the first response and exits with status
  success, whatever the response says, an error response included. The codec is assumed to decode what
  it encoded within the size limit.
\<close>

theorem sessionctl_end_to_end:
  assumes "ctl_socket_path os c = Inr path" "ctl_connect os path = Inr s" "\<forall>x. \<exists>u. ctl_write os x = Inr u"
    and "command_request os (cli_command c) = (asked, Inr r)" "carries rcd {r}"
    and "carries mcd (set (map EventMsg es @ [ResponseMsg resp]))"
    and "st_bytes s = wire mcd (ctl_write os) (map EventMsg es @ [ResponseMsg resp]) @ rest"
    and "st_bytes t = wire rcd (ctl_write os) [r]"
  shows "ctl_main rcd mcd os c =
      (Connect path # asked @ map SendOp (fst (write_message rcd (ctl_write os) r)) @ print_response resp, ExitSuccess)
    \<and> read_loop rcd conn peer t = [Command conn peer r]
    \<and> (\<forall>c' asked'. command_request os c' = (asked', Inr r) \<longrightarrow> c' = cli_command c)"
proof -
  have ok: "\<exists>u. ctl_write os x = Inr u" for x using assms(3) by blast
  from assms(5) obtain p where p: "serialize rcd r = Inr p" "length p \<le> unat max_message_len" "length p < 2 ^ 32"
    "deserialize rcd p = Inr r" by (rule carriesE) simp
  obtain made where sent: "write_message rcd (ctl_write os) r = (made, Inr ())"
    using write_message_frame(1) [where answer = "ctl_write os", OF p(1,3) ok] by blast
  have "await_response mcd s = (s\<lparr>st_bytes := rest\<rparr>, Inr resp)"
    using assms(6) ok assms(7) by (rule await_response_skips_events)
  with assms(1,2,4) sent have "ctl_main rcd mcd os c =
      (Connect path # asked @ map SendOp (fst (write_message rcd (ctl_write os) r)) @ print_response resp, ExitSuccess)"
    by (simp add: ctl_main_def ctl_run_def client_connect_def call_def)
  moreover have "read_loop rcd conn peer t = map (Command conn peer) [r]"
  proof (rule read_loop_frames [where answer = "ctl_write os" and rest = "[]"])
    show "codec_ok rcd (set [r])" using p by (auto simp: codec_ok_def)
    show "\<exists>p. serialize rcd r' = Inr p \<and> length p \<le> unat max_message_len" if "r' \<in> set [r]" for r'
      using that p by auto
    show "\<exists>u. ctl_write os x = Inr u" for x by (rule ok)
  qed (use assms(8) in \<open>simp_all add: wire_def\<close>)
  moreover have "c' = cli_command c" if "command_request os c' = (asked', Inr r)" for c' asked'
    by (rule command_request_inject [OF that assms(4)])
  ultimately show ?thesis by simp
qed

theorem sessionctl_end_to_end_witness:
  "snd (ctl_main byte_codec sample_message_codec sample_ctl \<lparr>cli_socket = None, cli_command = CmdReleaseInhibit 7\<rparr>) = ExitSuccess
   \<and> PrintError ''error: no'' \<in> set (fst (ctl_main byte_codec sample_message_codec sample_ctl
        \<lparr>cli_socket = None, cli_command = CmdReleaseInhibit 7\<rparr>))"
proof -
  let ?c = "\<lparr>cli_socket = None, cli_command = CmdReleaseInhibit 7\<rparr>"
  have 1: "ctl_socket_path sample_ctl ?c = Inr ''/run/mitos-session/session.sock''" by code_simp
  have 2: "ctl_connect sample_ctl ''/run/mitos-session/session.sock'' =
      Inr \<lparr>st_bytes = [1, 0, 0, 0, 0, 1, 0, 0, 0, 1], st_end = eof\<rparr>" by (simp add: sample_ctl_def)
  have 3: "\<forall>x. \<exists>u. ctl_write sample_ctl x = Inr u" by (simp add: sample_ctl_def)
  have 4: "command_request sample_ctl (cli_command ?c) = ([], Inr (ReleaseInhibit 7))" by simp
  have 5: "carries byte_codec {ReleaseInhibit 7}" by code_simp
  have 6: "carries sample_message_codec (set (map EventMsg [PrepareForSleep] @ [ResponseMsg (RError ''no'')]))"
    by code_simp
  have 7: "st_bytes \<lparr>st_bytes = [1, 0, 0, 0, 0, 1, 0, 0, 0, 1], st_end = eof\<rparr> =
      wire sample_message_codec (ctl_write sample_ctl) (map EventMsg [PrepareForSleep] @ [ResponseMsg (RError ''no'')]) @ []"
    by code_simp
  have 8: "st_bytes \<lparr>st_bytes = wire byte_codec (ctl_write sample_ctl) [ReleaseInhibit 7], st_end = eof\<rparr> =
      wire byte_codec (ctl_write sample_ctl) [ReleaseInhibit 7]" by simp
  from conjunct1 [OF sessionctl_end_to_end [OF 1 2 3 4 5 6 7 8]] show ?thesis by simp
qed

end
