(* ===== verification/Runtime_Dir.thy ===== *)
theory Runtime_Dir
  imports Errors
begin

unbundle bit_operations_syntax

section \<open>The hardened runtime directory\<close>

text \<open>
  \<open>src/session/runtime.rs\<close>: the module that prepares \<open>/run/user/<uid>\<close> through an \<open>O_NOFOLLOW\<close>
  descriptor and scrubs what an unclean exit left there. It is written but not yet declared in
  \<open>src/session/mod.rs\<close>.

  The file system is a parameter, \<open>rt_os\<close>: every answer may depend on all the calls made so far, so
  it covers other processes that change the directory between two calls. A function of the module is
  an \<open>'a rt\<close>: it extends the list of calls made, oldest first, and returns a value or an error.
\<close>

subsection \<open>System calls\<close>

type_synonym fd = nat

datatype rt_call =
    PathExists string
  | CreateDirAll string
  | SymlinkMetadata string
  | SetPermissions string u32
  | CreateDir string
  | OpenDirNofollow string
  | Fstat fd
  | Fchown fd u32 u32
  | Fchmod fd u32
  | RemoveDirAll string
  | RemoveFile string

record rt_meta =
  rm_is_dir :: bool
  rm_is_symlink :: bool
  rm_uid :: u32
  rm_gid :: u32
  rm_mode :: u32

datatype open_error = Eloop | OpenIo io_error

record rt_os =
  os_exists :: "rt_call list \<Rightarrow> string \<Rightarrow> bool"
  os_change :: "rt_call list \<Rightarrow> rt_call \<Rightarrow> io_error + unit"
  os_open :: "rt_call list \<Rightarrow> string \<Rightarrow> open_error + fd"
  os_meta :: "rt_call list \<Rightarrow> rt_call \<Rightarrow> io_error + rt_meta"

text \<open>The octal modes of the source.\<close>

abbreviation mode_0700 :: u32 where "mode_0700 \<equiv> 0x1C0"
abbreviation mode_0755 :: u32 where "mode_0755 \<equiv> 0x1ED"
abbreviation mode_0777 :: u32 where "mode_0777 \<equiv> 0x1FF"

text \<open>Every \<open>bail!\<close> and every \<open>context\<close> of the module.\<close>

datatype rt_error =
    InvalidName string
  | CreateBaseFailed io_error
  | InspectBaseFailed io_error
  | BaseIsSymlink string
  | BaseNotDirectory string
  | BasePermissionsFailed io_error
  | CreateFailed io_error
  | OpenRefusedSymlink string
  | OpenFailed io_error
  | FstatFailed io_error
  | NotDirectory string
  | FchownFailed io_error
  | FchmodFailed io_error
  | RestatFailed io_error
  | WrongUid string u32
  | WrongGid string u32
  | WrongMode string u32

subsection \<open>Sequencing\<close>

type_synonym 'a rt = "rt_call list \<Rightarrow> (rt_error + 'a) \<times> rt_call list"

definition rt_return :: "'a \<Rightarrow> 'a rt" where
  "rt_return x tr = (Inr x, tr)"

definition rt_fail :: "rt_error \<Rightarrow> 'a rt" where
  "rt_fail e tr = (Inl e, tr)"

text \<open>The \<open>?\<close> operator.\<close>

definition rt_bind :: "'a rt \<Rightarrow> ('a \<Rightarrow> 'b rt) \<Rightarrow> 'b rt" where
  "rt_bind m k tr = (case m tr of (Inl e, tr') \<Rightarrow> (Inl e, tr') | (Inr x, tr') \<Rightarrow> k x tr')"

definition rt_require :: "bool \<Rightarrow> rt_error \<Rightarrow> unit rt" where
  "rt_require b e = (if b then rt_return () else rt_fail e)"

definition rt_change :: "rt_os \<Rightarrow> rt_call \<Rightarrow> (io_error \<Rightarrow> unit rt) \<Rightarrow> unit rt" where
  "rt_change os c handle tr =
     (case os_change os tr c of Inl e \<Rightarrow> handle e (tr @ [c]) | Inr _ \<Rightarrow> (Inr (), tr @ [c]))"

definition rt_stat :: "rt_os \<Rightarrow> rt_call \<Rightarrow> (io_error \<Rightarrow> rt_error) \<Rightarrow> rt_meta rt" where
  "rt_stat os c wrap tr =
     (case os_meta os tr c of Inl e \<Rightarrow> (Inl (wrap e), tr @ [c]) | Inr m \<Rightarrow> (Inr m, tr @ [c]))"

subsection \<open>Preparing the directory\<close>

definition create_missing_base :: "rt_os \<Rightarrow> string \<Rightarrow> unit rt" where
  "create_missing_base os base tr =
     (let tr' = tr @ [PathExists base]
      in if os_exists os tr base then (Inr (), tr')
         else rt_change os (CreateDirAll base) (\<lambda>e. rt_fail (CreateBaseFailed e)) tr')"

definition prepare_base :: "rt_os \<Rightarrow> string \<Rightarrow> unit rt" where
  "prepare_base os base =
     rt_bind (create_missing_base os base) (\<lambda>_.
     rt_bind (rt_stat os (SymlinkMetadata base) InspectBaseFailed) (\<lambda>meta.
     rt_bind (rt_require (\<not> rm_is_symlink meta) (BaseIsSymlink base)) (\<lambda>_.
     rt_bind (rt_require (rm_is_dir meta) (BaseNotDirectory base)) (\<lambda>_.
     rt_change os (SetPermissions base mode_0755) (\<lambda>e. rt_fail (BasePermissionsFailed e))))))"

definition create_runtime_dir :: "rt_os \<Rightarrow> string \<Rightarrow> unit rt" where
  "create_runtime_dir os dir =
     rt_change os (CreateDir dir)
       (\<lambda>e. if io_kind e = AlreadyExists then rt_return () else rt_fail (CreateFailed e))"

definition open_runtime_dir :: "rt_os \<Rightarrow> string \<Rightarrow> fd rt" where
  "open_runtime_dir os dir tr =
     (case os_open os tr dir of
        Inl Eloop \<Rightarrow> (Inl (OpenRefusedSymlink dir), tr @ [OpenDirNofollow dir])
      | Inl (OpenIo e) \<Rightarrow> (Inl (OpenFailed e), tr @ [OpenDirNofollow dir])
      | Inr d \<Rightarrow> (Inr d, tr @ [OpenDirNofollow dir]))"

definition check_runtime_meta :: "string \<Rightarrow> u32 \<Rightarrow> u32 \<Rightarrow> rt_meta \<Rightarrow> unit rt" where
  "check_runtime_meta dir uid gid meta =
     rt_bind (rt_require (rm_uid meta = uid) (WrongUid dir (rm_uid meta))) (\<lambda>_.
     rt_bind (rt_require (rm_gid meta = gid) (WrongGid dir (rm_gid meta))) (\<lambda>_.
     rt_require (rm_mode meta AND mode_0777 = mode_0700) (WrongMode dir (rm_mode meta AND mode_0777))))"

definition secure_open_dir :: "rt_os \<Rightarrow> string \<Rightarrow> u32 \<Rightarrow> u32 \<Rightarrow> fd \<Rightarrow> string rt" where
  "secure_open_dir os dir uid gid d =
     rt_bind (rt_stat os (Fstat d) FstatFailed) (\<lambda>meta.
     rt_bind (rt_require (rm_is_dir meta) (NotDirectory dir)) (\<lambda>_.
     rt_bind (rt_change os (Fchown d uid gid) (\<lambda>e. rt_fail (FchownFailed e))) (\<lambda>_.
     rt_bind (rt_change os (Fchmod d mode_0700) (\<lambda>e. rt_fail (FchmodFailed e))) (\<lambda>_.
     rt_bind (rt_stat os (Fstat d) RestatFailed) (\<lambda>meta'.
     rt_bind (check_runtime_meta dir uid gid meta') (\<lambda>_.
     rt_return dir))))))"

definition runtime_name_ok :: "string \<Rightarrow> bool" where
  "runtime_name_ok name \<longleftrightarrow> name \<noteq> [] \<and> name \<noteq> ''.'' \<and> name \<noteq> ''..'' \<and> CHR ''/'' \<notin> set name"

definition ensure_named_runtime_dir :: "rt_os \<Rightarrow> string \<Rightarrow> string \<Rightarrow> u32 \<Rightarrow> u32 \<Rightarrow> string rt" where
  "ensure_named_runtime_dir os base name uid gid =
     rt_bind (rt_require (runtime_name_ok name) (InvalidName name)) (\<lambda>_.
     rt_bind (prepare_base os base) (\<lambda>_.
     (let runtime_dir = path_join base name in
     rt_bind (create_runtime_dir os runtime_dir) (\<lambda>_.
     rt_bind (open_runtime_dir os runtime_dir) (\<lambda>d.
     secure_open_dir os runtime_dir uid gid d)))))"

definition ensure_user_runtime_dir_in :: "rt_os \<Rightarrow> string \<Rightarrow> u32 \<Rightarrow> u32 \<Rightarrow> string rt" where
  "ensure_user_runtime_dir_in os base uid gid = ensure_named_runtime_dir os base (show_word uid) uid gid"

definition ensure_user_runtime_dir :: "rt_os \<Rightarrow> u32 \<Rightarrow> u32 \<Rightarrow> string rt" where
  "ensure_user_runtime_dir os uid gid = ensure_user_runtime_dir_in os ''/run/user'' uid gid"

subsection \<open>Scrubbing\<close>

definition stale_sockets :: "string list" where
  "stale_sockets = [''wayland-0'', ''wayland-0.lock'', ''X0'', ''X0-lock'', ''mitos-session.sock'']"

text \<open>\<open>if p.exists() { remove(p).ok(); }\<close>: whatever the removal answers is ignored.\<close>

definition scrub :: "rt_os \<Rightarrow> (string \<Rightarrow> rt_call) \<Rightarrow> string \<Rightarrow> rt_call list \<Rightarrow> rt_call list" where
  "scrub os remove p tr =
     (let tr' = tr @ [PathExists p] in if os_exists os tr p then tr' @ [remove p] else tr')"

definition scrub_session_artifacts :: "rt_os \<Rightarrow> string \<Rightarrow> unit rt" where
  "scrub_session_artifacts os runtime_dir tr =
     (Inr (), foldl (\<lambda>tr sock. scrub os RemoveFile (path_join runtime_dir sock) tr)
        (scrub os RemoveDirAll (path_join runtime_dir ''mitos-session'') tr) stale_sockets)"

subsection \<open>Specification\<close>

text \<open>
  The calls of a successful preparation, in order: the base is inspected and closed for writing, then
  the directory is made, opened without following links, and handed over through the descriptor alone.
\<close>

definition base_calls :: "rt_os \<Rightarrow> string \<Rightarrow> rt_call list" where
  "base_calls os base =
     PathExists base # (if os_exists os [] base then [] else [CreateDirAll base])
     @ [SymlinkMetadata base, SetPermissions base mode_0755]"

definition handover_calls :: "fd \<Rightarrow> u32 \<Rightarrow> u32 \<Rightarrow> rt_call list" where
  "handover_calls d uid gid = [Fstat d, Fchown d uid gid, Fchmod d mode_0700, Fstat d]"

definition secure_calls :: "rt_os \<Rightarrow> string \<Rightarrow> string \<Rightarrow> u32 \<Rightarrow> u32 \<Rightarrow> fd \<Rightarrow> rt_call list" where
  "secure_calls os base name uid gid d =
     base_calls os base @ [CreateDir (path_join base name), OpenDirNofollow (path_join base name)]
     @ handover_calls d uid gid"

text \<open>A well-behaved system for the example: nothing exists yet, and a stat reports what was set.\<close>

definition kind_os :: rt_os where
  "kind_os =
     \<lparr>os_exists = (\<lambda>tr p. CreateDirAll p \<in> set tr), os_change = (\<lambda>tr c. Inr ()), os_open = (\<lambda>tr p. Inr 7),
      os_meta = (\<lambda>tr c. Inr \<lparr>rm_is_dir = True, rm_is_symlink = False,
        rm_uid = (if Fchown 7 1000 100 \<in> set tr then 1000 else 0),
        rm_gid = (if Fchown 7 1000 100 \<in> set tr then 100 else 0),
        rm_mode = (if Fchmod 7 mode_0700 \<in> set tr then 0x41C0 else 0x41ED)\<rparr>)\<rparr>"

subsection \<open>Lemmas\<close>

lemmas rt_defs = rt_bind_def rt_return_def rt_fail_def rt_require_def rt_change_def rt_stat_def

lemma dec_digits_are_digits: "set (dec_digits n) \<subseteq> {c. is_digit c}"
proof (induction n rule: dec_digits.induct)
  case (1 n)
  have "is_digit (char_of (48 + k))" if "k < 10" for k :: nat
    using that by (simp add: is_digit_def)
  with 1 show ?case by (subst dec_digits.simps) auto
qed

lemma dec_digits_not_Nil [simp]: "dec_digits n \<noteq> []"
  by (subst dec_digits.simps) simp

lemma user_runtime_name_ok: "runtime_name_ok (show_word u)"
  using dec_digits_are_digits [of "unat u"]
  by (auto simp: runtime_name_ok_def show_word_def is_digit_def)

lemma prepare_base_calls:
  assumes "prepare_base os base [] = (r, tr)"
  shows "prefix tr (base_calls os base)" "r = Inr u \<Longrightarrow> tr = base_calls os base"
  using assms
  by (auto simp: prepare_base_def create_missing_base_def base_calls_def rt_defs Let_def
      split: sum.splits if_splits prod.splits)

lemma secure_open_dir_calls:
  assumes "secure_open_dir os dir uid gid d tr = (r, tr')"
  shows "\<exists>made. tr' = tr @ made \<and> prefix made (handover_calls d uid gid)"
    and "r = Inr p \<Longrightarrow> p = dir \<and> tr' = tr @ handover_calls d uid gid
      \<and> (\<exists>m. os_meta os (tr @ [Fstat d, Fchown d uid gid, Fchmod d mode_0700]) (Fstat d) = Inr m
           \<and> rm_uid m = uid \<and> rm_gid m = gid \<and> rm_mode m AND mode_0777 = mode_0700)"
  using assms
  by (auto simp: secure_open_dir_def check_runtime_meta_def handover_calls_def rt_defs
      split: sum.splits if_splits prod.splits)

lemma create_runtime_dir_calls:
  "create_runtime_dir os dir tr = (r, tr') \<Longrightarrow> tr' = tr @ [CreateDir dir]"
  by (auto simp: create_runtime_dir_def rt_defs split: sum.splits if_splits)

lemma open_runtime_dir_calls:
  "open_runtime_dir os dir tr = (r, tr') \<Longrightarrow>
     tr' = tr @ [OpenDirNofollow dir] \<and> (\<forall>d. r = Inr d \<longrightarrow> os_open os tr dir = Inr d)"
  by (auto simp: open_runtime_dir_def split: sum.splits open_error.splits)

lemma scrub_calls: "set (scrub os remove p tr) \<subseteq> set tr \<union> {PathExists p, remove p}"
  by (auto simp: scrub_def Let_def)

lemma scrub_fold_calls:
  "set (foldl (\<lambda>tr sock. scrub os RemoveFile (path_join dir sock) tr) tr socks) \<subseteq>
     set tr \<union> PathExists ` path_join dir ` set socks \<union> RemoveFile ` path_join dir ` set socks"
proof (induction socks arbitrary: tr)
  case (Cons s socks)
  from Cons [of "scrub os RemoveFile (path_join dir s) tr"] scrub_calls [of os RemoveFile "path_join dir s" tr]
  show ?case unfolding foldl.simps list.set(2) image_insert by blast
qed simp

text \<open>Scrubbing never fails and touches the six known names under the directory, nothing else.\<close>

lemma scrub_session_artifacts_calls:
  "fst (scrub_session_artifacts os dir []) = Inr ()"
  "set (snd (scrub_session_artifacts os dir [])) \<subseteq> PathExists ` path_join dir ` set (''mitos-session'' # stale_sockets)
    \<union> {RemoveDirAll (path_join dir ''mitos-session'')} \<union> RemoveFile ` path_join dir ` set stale_sockets"
proof -
  show "fst (scrub_session_artifacts os dir []) = Inr ()" by (simp add: scrub_session_artifacts_def)
  show "set (snd (scrub_session_artifacts os dir [])) \<subseteq> PathExists ` path_join dir ` set (''mitos-session'' # stale_sockets)
    \<union> {RemoveDirAll (path_join dir ''mitos-session'')} \<union> RemoveFile ` path_join dir ` set stale_sockets"
    unfolding scrub_session_artifacts_def snd_conv
    using scrub_calls [of os RemoveDirAll "path_join dir ''mitos-session''" "[]"]
      scrub_fold_calls [of os dir "scrub os RemoveDirAll (path_join dir ''mitos-session'') []" stale_sockets]
    unfolding list.set(1) list.set(2) image_insert by blast
qed

text \<open>A run of the whole function is a run of the four phases, each continuing the calls of the one before.\<close>

lemma ensure_named_cases:
  assumes "ensure_named_runtime_dir os base name uid gid [] = (r, tr)"
  obtains (invalid) "\<not> runtime_name_ok name" "r = Inl (InvalidName name)" "tr = []"
    | (base) e where "runtime_name_ok name" "prepare_base os base [] = (Inl e, tr)" "r = Inl e"
    | (create) e where "runtime_name_ok name" "r = Inl e" "tr = base_calls os base @ [CreateDir (path_join base name)]"
    | (op) e where "runtime_name_ok name" "r = Inl e"
        "tr = base_calls os base @ [CreateDir (path_join base name), OpenDirNofollow (path_join base name)]"
    | (secure) d where "runtime_name_ok name"
        "os_open os (base_calls os base @ [CreateDir (path_join base name)]) (path_join base name) = Inr d"
        "secure_open_dir os (path_join base name) uid gid d
           (base_calls os base @ [CreateDir (path_join base name), OpenDirNofollow (path_join base name)]) = (r, tr)"
proof (cases "runtime_name_ok name")
  case False
  then show ?thesis using assms by (intro invalid) (auto simp: ensure_named_runtime_dir_def rt_defs)
next
  case ok: True
  obtain r1 tr1 where p: "prepare_base os base [] = (r1, tr1)" by fastforce
  show ?thesis
  proof (cases r1)
    case (Inl e)
    then show ?thesis using assms ok p
      by (intro base [of e]) (auto simp: ensure_named_runtime_dir_def rt_bind_def rt_require_def rt_return_def)
  next
    case (Inr u)
    let ?dir = "path_join base name"
    have tr1: "tr1 = base_calls os base" using prepare_base_calls(2) [OF p] Inr by simp
    obtain r2 tr2 where c: "create_runtime_dir os ?dir tr1 = (r2, tr2)" by fastforce
    obtain r3 tr3 where o3: "open_runtime_dir os ?dir tr2 = (r3, tr3)" by fastforce
    have run: "(r, tr) = (case r2 of Inl e \<Rightarrow> (Inl e, tr2) | Inr _ \<Rightarrow>
        (case r3 of Inl e \<Rightarrow> (Inl e, tr3) | Inr d \<Rightarrow> secure_open_dir os ?dir uid gid d tr3))"
      using assms ok p Inr c o3
      by (auto simp: ensure_named_runtime_dir_def rt_bind_def rt_require_def rt_return_def Let_def split: sum.splits)
    note calls = create_runtime_dir_calls [OF c] open_runtime_dir_calls [OF o3] tr1
    show ?thesis
    proof (cases r2)
      case (Inl e)
      then show ?thesis using run calls ok by (intro create [of e]) auto
    next
      case r2: (Inr _)
      show ?thesis
      proof (cases r3)
        case (Inl e)
        then show ?thesis using run calls ok r2 by (intro op [of e]) auto
      next
        case (Inr d)
        then show ?thesis using run calls ok r2 by (intro secure [of d]) auto
      qed
    qed
  qed
qed

subsection \<open>Properties\<close>

text \<open>
  C27. Preparing the runtime directory is safe whatever the file system answers, including when other
  processes swap the path between two calls. The calls made are always an initial part of one fixed
  sequence, so ownership and mode of the directory only ever change through the descriptor that the
  no-follow open returned, after the base was found to be a real directory and closed for writing; a name
  with a slash, or a dot name, makes no call at all. When it succeeds the whole sequence was made, the
  result is the directory under the base, and the last stat, through that same descriptor and after
  both changes, reported the requested user and group and mode 0700. The name of a user's directory is
  never refused.
\<close>

theorem runtime_dir_is_secured:
  assumes "ensure_named_runtime_dir os base name uid gid [] = (r, calls)"
  shows "(\<exists>d. prefix calls (secure_calls os base name uid gid d))
    \<and> (\<not> runtime_name_ok name \<longrightarrow> calls = [] \<and> r = Inl (InvalidName name))
    \<and> (\<forall>p. r = Inr p \<longrightarrow> p = path_join base name
         \<and> (\<exists>d m. os_open os (base_calls os base @ [CreateDir p]) p = Inr d
              \<and> calls = secure_calls os base name uid gid d
              \<and> os_meta os (butlast calls) (Fstat d) = Inr m
              \<and> rm_uid m = uid \<and> rm_gid m = gid \<and> rm_mode m AND mode_0777 = mode_0700))
    \<and> runtime_name_ok (show_word uid)"
  using assms
proof (cases rule: ensure_named_cases)
  case (base e)
  from prepare_base_calls(1) [OF base(2)] have "prefix calls (secure_calls os base name uid gid d)" for d
    by (simp add: secure_calls_def prefix_prefix)
  with base show ?thesis by (auto simp: user_runtime_name_ok)
next
  case (secure d)
  note made = secure_open_dir_calls [OF secure(3)]
  have "prefix calls (secure_calls os base name uid gid d)" using made(1) by (auto simp: secure_calls_def)
  then show ?thesis using made(2) secure(1,2)
    by (auto simp: user_runtime_name_ok secure_calls_def handover_calls_def butlast_append)
qed (auto simp: user_runtime_name_ok secure_calls_def)

theorem runtime_dir_is_secured_witness:
  "ensure_user_runtime_dir kind_os 1000 100 [] =
     (Inr ''/run/user/1000'', secure_calls kind_os ''/run/user'' ''1000'' 1000 100 7)
   \<and> (\<exists>d. prefix (secure_calls kind_os ''/run/user'' ''1000'' 1000 100 7)
        (secure_calls kind_os ''/run/user'' ''1000'' 1000 100 d))"
proof -
  have run: "ensure_named_runtime_dir kind_os ''/run/user'' ''1000'' 1000 100 [] =
      (Inr ''/run/user/1000'', secure_calls kind_os ''/run/user'' ''1000'' 1000 100 7)" by code_simp
  have "show_word (1000 :: u32) = ''1000''" by code_simp
  with run runtime_dir_is_secured [OF run] show ?thesis
    by (simp add: ensure_user_runtime_dir_def ensure_user_runtime_dir_in_def)
qed

end
