(* ===== verification/Autostart.thy ===== *)
theory Autostart
  imports Launcher
begin

section \<open>XDG autostart\<close>

text \<open>
  \<open>src/launcher/autostart.rs\<close>: finding, parsing, filtering and launching \<open>.desktop\<close> files. The file is
  not listed in \<open>launcher/mod.rs\<close>, so it is not part of the compiled crate, and it reads a field
  \<open>groups\<close> that \<open>User\<close> does not have: the groups of a user are a parameter here. The file system and
  \<open>Command::spawn\<close> are the record \<open>autostart_os\<close> of their answers.
\<close>

subsection \<open>Desktop entries\<close>

record autostart_entry =
  ae_name :: string
  ae_exec :: string
  ae_hidden :: bool
  ae_only_show_in :: "string list"
  ae_not_show_in :: "string list"

fun split_once :: "char \<Rightarrow> string \<Rightarrow> (string \<times> string) option" where
  "split_once c [] = None"
| "split_once c (x # xs) =
     (if x = c then Some ([], xs)
      else (case split_once c xs of None \<Rightarrow> None | Some (a, b) \<Rightarrow> Some (x # a, b)))"

definition ascii_lower :: "char \<Rightarrow> char" where
  "ascii_lower c =
     (let n = (of_char c :: nat) in if 65 \<le> n \<and> n \<le> 90 then char_of (n + 32) else c)"

definition eq_ignore_ascii_case :: "string \<Rightarrow> string \<Rightarrow> bool" where
  "eq_ignore_ascii_case a b \<longleftrightarrow> map ascii_lower a = map ascii_lower b"

definition show_list :: "string \<Rightarrow> string list" where
  "show_list v = filter (\<lambda>s. s \<noteq> []) (map trim (split_on (CHR '';'') v))"

definition desktop_key :: "string \<Rightarrow> string \<Rightarrow> autostart_entry \<Rightarrow> autostart_entry" where
  "desktop_key k v e =
     (if k = ''Name'' then e\<lparr>ae_name := trim v\<rparr>
      else if k = ''Exec'' then e\<lparr>ae_exec := trim v\<rparr>
      else if k = ''Hidden'' then e\<lparr>ae_hidden := eq_ignore_ascii_case (trim v) ''true''\<rparr>
      else if k = ''OnlyShowIn'' then e\<lparr>ae_only_show_in := show_list v\<rparr>
      else if k = ''NotShowIn'' then e\<lparr>ae_not_show_in := show_list v\<rparr>
      else e)"

fun desktop_lines :: "bool \<Rightarrow> string list \<Rightarrow> autostart_entry \<Rightarrow> autostart_entry" where
  "desktop_lines in_entry [] e = e"
| "desktop_lines in_entry (raw # rest) e =
     (let line = trim raw
      in if line = ''[Desktop Entry]'' then desktop_lines True rest e
         else if prefix ''['' line then desktop_lines False rest e
         else if \<not> in_entry \<or> line = [] \<or> prefix ''#'' line then desktop_lines in_entry rest e
         else (case split_once (CHR ''='') line of
                 Some (k, v) \<Rightarrow> desktop_lines in_entry rest (desktop_key (trim k) v e)
               | None \<Rightarrow> desktop_lines in_entry rest e))"

definition parse_desktop_file :: "string option \<Rightarrow> autostart_entry option" where
  "parse_desktop_file content =
     (case content of
        None \<Rightarrow> None
      | Some text \<Rightarrow>
          (let e = desktop_lines False (str_lines text)
                     \<lparr>ae_name = [], ae_exec = [], ae_hidden = False, ae_only_show_in = [],
                      ae_not_show_in = []\<rparr>
           in if ae_exec e = [] then None else Some e))"

text \<open>The test of the filter of \<open>launch_autostart_apps\<close>, and the command line it makes of an entry.\<close>

definition names_mitos :: "string list \<Rightarrow> bool" where
  "names_mitos ss = list_ex (\<lambda>s. s = ''MITOS'' \<or> s = ''X-MITOS'') ss"

text \<open>\<open>replace\<close> of a two-character field code by nothing.\<close>

fun strip_code :: "char \<Rightarrow> string \<Rightarrow> string" where
  "strip_code c (a # b # rest) =
     (if a = CHR ''%'' \<and> b = c then strip_code c rest else a # strip_code c (b # rest))"
| "strip_code c s = s"

definition strip_codes :: "string \<Rightarrow> string" where
  "strip_codes s = fold strip_code ''fFuUick'' s"

text \<open>
  \<open>Path::extension\<close> of a file name: what follows the last dot, unless there is no dot or nothing
  before it.
\<close>

definition path_extension :: "string \<Rightarrow> string option" where
  "path_extension name =
     (if CHR ''.'' \<in> set name then
        (let ext = rev (takeWhile (\<lambda>c. c \<noteq> CHR ''.'') (rev name));
             stem = rev (tl (dropWhile (\<lambda>c. c \<noteq> CHR ''.'') (rev name)))
         in if stem = [] then None else Some ext)
      else None)"

subsection \<open>Launching\<close>

datatype autostart_cred_op = AsSetsid | AsSetgroups "u32 list" | AsSetresgid u32 | AsSetresuid u32

text \<open>
  What is asked of the kernel here: the program and its arguments, variables that are added to the
  environment the daemon itself has, and the calls before \<open>exec\<close>.
\<close>

record autostart_call =
  ac_program :: string
  ac_args :: "string list"
  ac_added_env :: environment
  ac_pre_exec :: "autostart_cred_op list"

record autostart_os =
  as_exists :: "string \<Rightarrow> bool"
  as_read_dir :: "string \<Rightarrow> io_error + (io_error + string) list"
  as_read :: "string \<Rightarrow> string option"
  as_spawn :: "autostart_call \<Rightarrow> io_error + u32"
  as_groups :: "user \<Rightarrow> u32 list"

definition parse_dir :: "autostart_os \<Rightarrow> string \<Rightarrow> autostart_entry list" where
  "parse_dir os dir =
     (case as_read_dir os dir of
        Inl _ \<Rightarrow> []
      | Inr listing \<Rightarrow>
          List.map_filter
            (\<lambda>item. case item of
               Inl _ \<Rightarrow> None
             | Inr name \<Rightarrow>
                 if path_extension name = Some ''desktop''
                 then parse_desktop_file (as_read os (path_join dir name)) else None) listing)"

definition parse_autostart_dirs :: "autostart_os \<Rightarrow> user \<Rightarrow> autostart_entry list" where
  "parse_autostart_dirs os u =
     (let system_dir = ''/etc/xdg/autostart'';
          user_dir = path_join (path_join (user_home u) ''.config'') ''autostart''
      in (if as_exists os system_dir then parse_dir os system_dir else [])
         @ (if as_exists os user_dir then parse_dir os user_dir else []))"

definition spawn_autostart_app ::
  "autostart_os \<Rightarrow> user \<Rightarrow> environment \<Rightarrow> string \<Rightarrow> string list \<Rightarrow> autostart_call \<times> u32 result" where
  "spawn_autostart_app os u env bin args =
     (let call = \<lparr>ac_program = bin, ac_args = args, ac_added_env = env,
                  ac_pre_exec = [AsSetsid, AsSetgroups (as_groups os u), AsSetresgid (user_gid u), AsSetresuid (user_uid u)]\<rparr>
      in (call, map_err IoError (as_spawn os call)))"

text \<open>
  The loop of \<open>launch_autostart_apps\<close>. For every program it tries to start it logs the name of the entry with
  the outcome, a warning with the error or a notice, and goes on: the log is the list of names, calls and
  outcomes.
\<close>

fun launch_entries ::
  "autostart_os \<Rightarrow> user \<Rightarrow> environment \<Rightarrow> autostart_entry list \<Rightarrow> (string \<times> autostart_call \<times> u32 result) list" where
  "launch_entries os u env [] = []"
| "launch_entries os u env (e # es) =
     (if ae_hidden e then launch_entries os u env es
      else if ae_only_show_in e \<noteq> [] \<and> \<not> names_mitos (ae_only_show_in e) then launch_entries os u env es
      else if names_mitos (ae_not_show_in e) then launch_entries os u env es
      else (case split_whitespace (strip_codes (ae_exec e)) of
              [] \<Rightarrow> launch_entries os u env es
            | bin # args \<Rightarrow>
                (case spawn_autostart_app os u env bin args of
                   (call, Inl err) \<Rightarrow> (ae_name e, call, Inl err) # launch_entries os u env es
                 | (call, Inr child) \<Rightarrow> (ae_name e, call, Inr child) # launch_entries os u env es)))"

definition launch_autostart_apps ::
  "autostart_os \<Rightarrow> user \<Rightarrow> environment \<Rightarrow> (string \<times> autostart_call \<times> u32 result) list" where
  "launch_autostart_apps os u env = launch_entries os u env (parse_autostart_dirs os u)"

subsection \<open>Specification\<close>

text \<open>The entries meant for this desktop.\<close>

definition autostart_wanted :: "autostart_entry \<Rightarrow> bool" where
  "autostart_wanted e \<longleftrightarrow> \<not> ae_hidden e
     \<and> (if ae_only_show_in e = [] then True else set (ae_only_show_in e) \<inter> {''MITOS'', ''X-MITOS''} \<noteq> {})
     \<and> set (ae_not_show_in e) \<inter> {''MITOS'', ''X-MITOS''} = {}"

text \<open>
  A command line as the desktop-entry specification has it: words, set apart by single blanks, each a field
  code or without a percent sign. The field codes are those of the source, and only the other words are
  arguments.
\<close>

fun command_line :: "string list \<Rightarrow> string" where
  "command_line [] = []"
| "command_line [w] = w"
| "command_line (w # ws) = w @ CHR '' '' # command_line ws"

definition is_field_code :: "string \<Rightarrow> bool" where
  "is_field_code w \<longleftrightarrow> w \<in> {''%f'', ''%F'', ''%u'', ''%U'', ''%i'', ''%c'', ''%k''}"

definition command_word :: "string \<Rightarrow> bool" where
  "command_word w \<longleftrightarrow> is_field_code w \<or> w \<noteq> [] \<and> CHR ''%'' \<notin> set w \<and> list_all (\<lambda>c. \<not> is_ws c) w"

text \<open>Blanking out one field code in a command line, and the words for which that is all its removal does.\<close>

definition blanked :: "char \<Rightarrow> string \<Rightarrow> string" where
  "blanked c w = (if w = [CHR ''%'', c] then [] else w)"

definition code_or_free :: "string \<Rightarrow> bool" where
  "code_or_free w \<longleftrightarrow> CHR ''%'' \<notin> set w \<or> (\<exists>x. x \<noteq> CHR ''%'' \<and> w = [CHR ''%'', x])"

text \<open>What is logged for an entry with the given words: its name, the launch that was tried, the outcome.\<close>

definition launch_of ::
  "autostart_os \<Rightarrow> user \<Rightarrow> environment \<Rightarrow> autostart_entry \<Rightarrow> string list \<Rightarrow> string \<times> autostart_call \<times> u32 result" where
  "launch_of os u env e ws =
     (let arguments = filter (\<lambda>w. \<not> is_field_code w) ws;
          call = \<lparr>ac_program = hd arguments, ac_args = tl arguments, ac_added_env = env,
                  ac_pre_exec = [AsSetsid, AsSetgroups (as_groups os u), AsSetresgid (user_gid u), AsSetresuid (user_uid u)]\<rparr>
      in (ae_name e, call, map_err IoError (as_spawn os call)))"

text \<open>The text of a desktop file for an entry, and the entries such a text can represent.\<close>

definition desktop_text :: "autostart_entry \<Rightarrow> string" where
  "desktop_text e =
     ''[Desktop Entry]'' @ newline # ''Name='' @ ae_name e @ newline # ''Exec='' @ ae_exec e @ newline #
     ''Hidden='' @ (if ae_hidden e then ''true'' else ''false'') @ newline #
     ''OnlyShowIn='' @ concat (map (\<lambda>s. s @ '';'') (ae_only_show_in e)) @ newline #
     ''NotShowIn='' @ concat (map (\<lambda>s. s @ '';'') (ae_not_show_in e)) @ newline # []"

definition plain_text :: "string \<Rightarrow> bool" where
  "plain_text s \<longleftrightarrow> newline \<notin> set s \<and> (s = [] \<or> \<not> is_ws (hd s) \<and> \<not> is_ws (last s))"

definition plain_entry :: "autostart_entry \<Rightarrow> bool" where
  "plain_entry e \<longleftrightarrow> plain_text (ae_name e) \<and> plain_text (ae_exec e) \<and> ae_exec e \<noteq> []
     \<and> list_all (\<lambda>s. plain_text s \<and> s \<noteq> [] \<and> CHR '';'' \<notin> set s) (ae_only_show_in e @ ae_not_show_in e)"

text \<open>
  A directory with one \<open>.desktop\<close> file for each of the given entries, in this order, each with its name
  before the dot, the entry and the words of its command.
\<close>

definition offers :: "autostart_os \<Rightarrow> string \<Rightarrow> (string \<times> autostart_entry \<times> string list) list \<Rightarrow> bool" where
  "offers os dir files \<longleftrightarrow> as_exists os dir
     \<and> as_read_dir os dir = Inr (map (\<lambda>(stem, _). Inr (stem @ ''.desktop'')) files)
     \<and> list_all (\<lambda>(stem, e, ws). stem \<noteq> [] \<and> as_read os (path_join dir (stem @ ''.desktop'')) = Some (desktop_text e)
          \<and> plain_entry e \<and> ae_exec e = command_line ws \<and> list_all command_word ws) files"

definition sample_entry :: autostart_entry where
  "sample_entry =
     \<lparr>ae_name = ''Clock'', ae_exec = ''clock --seat %U'', ae_hidden = False, ae_only_show_in = [''MITOS''],
      ae_not_show_in = []\<rparr>"

text \<open>Both directories hold the one entry, and no program can be started.\<close>

definition eacces :: io_error where
  "eacces = \<lparr>io_kind = OtherKind, io_text = ''Permission denied''\<rparr>"

definition sample_autostart_os :: autostart_os where
  "sample_autostart_os =
     \<lparr>as_exists = (\<lambda>_. True), as_read_dir = (\<lambda>_. Inr [Inr ''clock.desktop'']), as_read = (\<lambda>_. Some (desktop_text sample_entry)),
      as_spawn = (\<lambda>_. Inl eacces), as_groups = (\<lambda>_. [1000])\<rparr>"

subsection \<open>Lemmas\<close>

lemma trim_plain: "plain_text s \<Longrightarrow> trim s = s"
proof -
  assume "plain_text s"
  then have "dropWhile is_ws s = s" "dropWhile is_ws (rev s) = rev s"
    by (auto simp: plain_text_def dropWhile_eq_self_iff hd_rev)
  then show ?thesis by (simp add: trim_def)
qed

lemma split_once_first: "c \<notin> set k \<Longrightarrow> split_once c (k @ c # v) = Some (k, v)"
  by (induction k) auto

lemma plain_key:
  assumes "k \<noteq> []" "\<not> is_ws (hd k)" "newline \<notin> set k" "plain_text v"
  shows "plain_text (k @ CHR ''='' # v)"
  using assms by (auto simp: plain_text_def is_ws_def newline_def)

lemma strip_cr_plain: "plain_text s \<Longrightarrow> strip_cr s = s"
  by (auto simp: plain_text_def strip_cr_def is_ws_def carriage_return_def)

lemma desktop_lines_key:
  assumes "plain_text v" "CHR ''='' \<notin> set k" "k \<noteq> []" "plain_text k" "hd k \<noteq> CHR ''[''" "hd k \<noteq> CHR ''#''"
  shows "desktop_lines True ((k @ CHR ''='' # v) # rest) e = desktop_lines True rest (desktop_key k v e)"
proof -
  have "plain_text (k @ CHR ''='' # v)" using assms by (intro plain_key) (auto simp: plain_text_def)
  then have trim: "trim (k @ CHR ''='' # v) = k @ CHR ''='' # v" "trim k = k" using assms by (simp_all add: trim_plain)
  have "k @ CHR ''='' # v \<noteq> ''[Desktop Entry]''" "\<not> prefix ''['' (k @ CHR ''='' # v)" "\<not> prefix ''#'' (k @ CHR ''='' # v)"
    using assms by (cases k; auto)+
  then show ?thesis
    unfolding desktop_lines.simps Let_def trim split_once_first [OF assms(2)] by simp (simp add: trim)
qed

lemma plain_show_list:
  assumes "list_all (\<lambda>s. plain_text s \<and> s \<noteq> [] \<and> CHR '';'' \<notin> set s) xs"
  shows "plain_text (concat (map (\<lambda>s. s @ '';'') xs)) \<and> show_list (concat (map (\<lambda>s. s @ '';'') xs)) = xs"
  using assms
proof (induction xs)
  case Nil
  then show ?case by (simp add: plain_text_def show_list_def trim_def)
next
  case (Cons x xs)
  then have "split_on (CHR '';'') (concat (map (\<lambda>s. s @ '';'') (x # xs))) =
      x # split_on (CHR '';'') (concat (map (\<lambda>s. s @ '';'') xs))"
    by (simp add: split_on_append)
  with Cons show ?case
    by (auto simp: show_list_def trim_plain plain_text_def is_ws_def newline_def hd_append)
qed

lemma strip_code_free: "CHR ''%'' \<notin> set w \<Longrightarrow> strip_code c (w @ rest) = w @ strip_code c rest"
proof (induction w)
  case (Cons a w)
  then show ?case by (cases "w @ rest") auto
qed simp

lemma strip_code_word:
  assumes "code_or_free w" "c \<noteq> CHR ''%''"
  shows "strip_code c (w @ rest) = blanked c w @ strip_code c rest"
proof (cases "CHR ''%'' \<in> set w")
  case False
  moreover from this have "blanked c w = w" by (auto simp: blanked_def)
  ultimately show ?thesis by (simp add: strip_code_free)
next
  case True
  with assms(1) obtain x where x: "x \<noteq> CHR ''%''" "w = [CHR ''%'', x]" by (auto simp: code_or_free_def)
  have "strip_code c (x # rest) = x # strip_code c rest" using strip_code_free [of "[x]" c rest] x(1) by simp
  then show ?thesis by (simp add: x(2) blanked_def)
qed

lemma strip_code_command_line:
  "list_all code_or_free ws \<Longrightarrow> c \<noteq> CHR ''%'' \<Longrightarrow> strip_code c (command_line ws) = command_line (map (blanked c) ws)"
proof (induction ws rule: command_line.induct)
  case (2 w)
  then show ?case using strip_code_word [of w c "[]"] by simp
next
  case (3 w v vs)
  have "strip_code c (CHR '' '' # rest) = CHR '' '' # strip_code c rest" for rest
    using strip_code_free [of "'' ''" c rest] by simp
  with 3 show ?case by (simp add: strip_code_word)
qed simp

lemma code_or_free_blanked: "code_or_free w \<Longrightarrow> code_or_free (blanked c w)"
  by (auto simp: code_or_free_def blanked_def)

lemma strip_codes_command_line:
  assumes "list_all code_or_free ws" "CHR ''%'' \<notin> set cs"
  shows "fold strip_code cs (command_line ws) = command_line (map (fold blanked cs) ws)"
  using assms
proof (induction cs arbitrary: ws)
  case (Cons c cs)
  have "list_all code_or_free (map (blanked c) ws)" using Cons.prems(1) by (simp add: list_all_iff code_or_free_blanked)
  moreover have "c \<noteq> CHR ''%''" "CHR ''%'' \<notin> set cs" using Cons.prems(2) by auto
  ultimately show ?case using Cons.IH Cons.prems(1) by (simp add: strip_code_command_line comp_def)
qed simp

lemma ws_words_free: "list_all (\<lambda>c. \<not> is_ws c) w \<Longrightarrow> ws_words acc (w @ rest) = ws_words (acc @ w) rest"
  by (induction w arbitrary: acc) simp_all

lemma split_command_line:
  "list_all (list_all (\<lambda>c. \<not> is_ws c)) ws \<Longrightarrow> split_whitespace (command_line ws) = filter (\<lambda>w. w \<noteq> []) ws"
proof (induction ws rule: command_line.induct)
  case (2 w)
  then show ?case using ws_words_free [of w "[]" "[]"] by (simp add: split_whitespace_def)
next
  case (3 w v vs)
  have "is_ws (CHR '' '')" by (simp add: is_ws_def)
  with 3 show ?case by (simp add: split_whitespace_def ws_words_free)
qed (simp add: split_whitespace_def)

text \<open>The words left of a command line are those that are no field codes.\<close>

lemma blanked_codes:
  assumes "command_word w"
  shows "fold blanked ''fFuUick'' w = (if is_field_code w then [] else w)" "code_or_free w"
proof -
  have "fold blanked ''fFuUick'' w = (if is_field_code w then [] else w) \<and> code_or_free w"
  proof (cases "is_field_code w")
    case True
    then show ?thesis unfolding is_field_code_def insert_iff
      by (elim disjE) (simp_all add: blanked_def code_or_free_def)
  next
    case False
    with assms have "CHR ''%'' \<notin> set w" by (simp add: command_word_def)
    moreover from this have "blanked c w = w" for c by (auto simp: blanked_def)
    ultimately show ?thesis using False by (simp add: code_or_free_def)
  qed
  then show "fold blanked ''fFuUick'' w = (if is_field_code w then [] else w)" "code_or_free w" by blast+
qed

lemma launched_words:
  assumes "list_all command_word ws"
  shows "split_whitespace (strip_codes (command_line ws)) = filter (\<lambda>w. \<not> is_field_code w) ws"
proof -
  let ?left = "\<lambda>w. if is_field_code w then [] else w"
  have w: "list_all code_or_free ws" using assms by (simp add: list_all_iff blanked_codes(2))
  have percent: "CHR ''%'' \<notin> set ''fFuUick''" by simp
  have "map (fold blanked ''fFuUick'') ws = map ?left ws"
    using assms by (intro map_cong refl blanked_codes(1)) (simp add: list_all_iff)
  then have "strip_codes (command_line ws) = command_line (map ?left ws)"
    unfolding strip_codes_def strip_codes_command_line [OF w percent] by (rule arg_cong)
  moreover have "list_all (list_all (\<lambda>c. \<not> is_ws c)) (map ?left ws)"
    using assms by (induction ws) (auto simp: command_word_def)
  moreover have "filter (\<lambda>w. w \<noteq> []) (map ?left ws) = filter (\<lambda>w. \<not> is_field_code w) ws"
    using assms by (induction ws) (auto simp: command_word_def)
  ultimately show ?thesis by (simp add: split_command_line)
qed

lemma names_mitos_iff: "names_mitos ss \<longleftrightarrow> set ss \<inter> {''MITOS'', ''X-MITOS''} \<noteq> {}"
  by (auto simp: names_mitos_def list_ex_iff)

lemma autostart_wanted_iff:
  "autostart_wanted e \<longleftrightarrow> \<not> ae_hidden e \<and> (ae_only_show_in e = [] \<or> names_mitos (ae_only_show_in e))
     \<and> \<not> names_mitos (ae_not_show_in e)"
  unfolding autostart_wanted_def names_mitos_iff by simp

lemma desktop_extension: "stem \<noteq> [] \<Longrightarrow> path_extension (stem @ ''.desktop'') = Some ''desktop''"
  by (simp add: path_extension_def Let_def)

lemma parse_desktop_text:
  assumes "plain_entry e"
  shows "parse_desktop_file (Some (desktop_text e)) = Some e"
proof -
  let ?hide = "if ae_hidden e then ''true'' else ''false''"
  let ?only = "concat (map (\<lambda>s. s @ '';'') (ae_only_show_in e))"
  let ?not = "concat (map (\<lambda>s. s @ '';'') (ae_not_show_in e))"
  have plain: "plain_text (ae_name e)" "plain_text (ae_exec e)" "plain_text ?hide" "plain_text ?only" "plain_text ?not"
    using assms plain_show_list [of "ae_only_show_in e"] plain_show_list [of "ae_not_show_in e"]
    by (auto simp: plain_entry_def) (auto simp: plain_text_def is_ws_def newline_def)
  have keys: "plain_text ''Name''" "plain_text ''Exec''" "plain_text ''Hidden''" "plain_text ''OnlyShowIn''"
    "plain_text ''NotShowIn''"
    by (simp_all add: plain_text_def is_ws_def newline_def)
  define l0 l1 l2 l3 l4 l5 where "l0 = ''[Desktop Entry]''" and "l1 = ''Name'' @ CHR ''='' # ae_name e" and "l2 = ''Exec'' @ CHR ''='' # ae_exec e"
    and "l3 = ''Hidden'' @ CHR ''='' # ?hide" and "l4 = ''OnlyShowIn'' @ CHR ''='' # ?only"
    and "l5 = ''NotShowIn'' @ CHR ''='' # ?not"
  note ls = l1_def l2_def l3_def l4_def l5_def
  have "plain_text l1" "plain_text l2" "plain_text l3" "plain_text l4" "plain_text l5"
    unfolding ls by (rule plain_key; simp add: plain is_ws_def newline_def)+
  moreover have "plain_text l0" by (simp add: l0_def plain_text_def is_ws_def newline_def)
  moreover have "str_lines (l @ newline # rest) = l # str_lines rest" if "plain_text l" for l rest
    using that by (simp add: str_lines_line strip_cr_plain plain_text_def)
  moreover have "desktop_text e = l0 @ newline # l1 @ newline # l2 @ newline # l3 @ newline # l4 @ newline # l5 @ newline # []"
    by (simp add: desktop_text_def l0_def ls)
  ultimately have lines: "str_lines (desktop_text e) = [l0, l1, l2, l3, l4, l5]" by simp
  have head: "desktop_lines False (l0 # rest) e0 = desktop_lines True rest e0" for rest e0
    by (simp add: l0_def trim_def is_ws_def)
  have step: "desktop_lines True (l1 # rest) e0 = desktop_lines True rest (desktop_key ''Name'' (ae_name e) e0)"
    "desktop_lines True (l2 # rest) e0 = desktop_lines True rest (desktop_key ''Exec'' (ae_exec e) e0)"
    "desktop_lines True (l3 # rest) e0 = desktop_lines True rest (desktop_key ''Hidden'' ?hide e0)"
    "desktop_lines True (l4 # rest) e0 = desktop_lines True rest (desktop_key ''OnlyShowIn'' ?only e0)"
    "desktop_lines True (l5 # rest) e0 = desktop_lines True rest (desktop_key ''NotShowIn'' ?not e0)" for rest e0
    unfolding ls by (rule desktop_lines_key; simp add: plain keys)+
  have "desktop_lines False (str_lines (desktop_text e)) e0 = desktop_key ''NotShowIn'' ?not
      (desktop_key ''OnlyShowIn'' ?only (desktop_key ''Hidden'' ?hide (desktop_key ''Exec'' (ae_exec e)
        (desktop_key ''Name'' (ae_name e) e0))))" for e0
    unfolding lines head step by simp
  then show ?thesis
    using assms plain plain_show_list [of "ae_only_show_in e"] plain_show_list [of "ae_not_show_in e"]
    by (simp add: parse_desktop_file_def desktop_key_def Let_def trim_plain plain_entry_def eq_ignore_ascii_case_def ascii_lower_def)
qed

lemma offers_parsed:
  assumes "offers os dir files"
  shows "parse_dir os dir = map (fst \<circ> snd) files"
proof -
  have "List.map_filter (\<lambda>item. case item of Inl _ \<Rightarrow> None | Inr name \<Rightarrow>
      if path_extension name = Some ''desktop'' then parse_desktop_file (as_read os (path_join dir name)) else None)
      (map (\<lambda>(stem, _). Inr (stem @ ''.desktop'')) fs) = map (fst \<circ> snd) fs" if "set fs \<subseteq> set files" for fs
    using that assms
    by (induction fs) (auto simp: offers_def list_all_iff desktop_extension parse_desktop_text List.map_filter_simps)
  from this [OF order_refl] assms show ?thesis unfolding parse_dir_def offers_def by (elim conjE) (simp only: sum.case)
qed

lemma launch_log:
  assumes "list_all (\<lambda>(stem, e, ws). ae_exec e = command_line ws \<and> list_all command_word ws) es"
  shows "launch_entries os u env (map (fst \<circ> snd) es) =
    map (\<lambda>(stem, e, ws). launch_of os u env e ws)
      (filter (\<lambda>(stem, e, ws). autostart_wanted e \<and> list_ex (\<lambda>w. \<not> is_field_code w) ws) es)"
  using assms
proof (induction es)
  case (Cons x es)
  obtain stem e ws where x: "x = (stem, e, ws)" by (cases x)
  let ?args = "filter (\<lambda>w. \<not> is_field_code w) ws"
  have words: "split_whitespace (strip_codes (ae_exec e)) = ?args"
    using Cons.prems by (simp add: x launched_words)
  have some: "list_ex (\<lambda>w. \<not> is_field_code w) ws \<longleftrightarrow> ?args \<noteq> []"
    by (auto simp: list_ex_iff filter_empty_conv)
  have "launch_entries os u env (e # map (fst \<circ> snd) es) =
      (if autostart_wanted e \<and> ?args \<noteq> [] then [launch_of os u env e ws] else []) @ launch_entries os u env (map (fst \<circ> snd) es)"
    by (cases ?args)
       (simp_all add: words autostart_wanted_iff launch_of_def spawn_autostart_app_def Let_def split: sum.split)
  with Cons some show ?case by (simp add: x comp_def del: launch_entries.simps(2))
qed simp

subsection \<open>Properties\<close>

text \<open>
  C36. The desktop-entry parser reads back what an entry is written as: a file with the five keys in
  a \<open>[Desktop Entry]\<close> section yields exactly the entry, for every entry whose texts have no line
  break, no white space at either end, and whose lists have no empty item and no semicolon.
\<close>

theorem desktop_entry_roundtrip:
  assumes "plain_entry e"
  shows "parse_desktop_file (Some (desktop_text e)) = Some e"
  using assms by (rule parse_desktop_text)

theorem desktop_entry_roundtrip_witness: "parse_desktop_file (Some (desktop_text sample_entry)) = Some sample_entry"
proof -
  have "plain_entry sample_entry" by code_simp
  then show ?thesis by (rule desktop_entry_roundtrip)
qed

text \<open>
  C35. Autostart launches exactly the entries that want to be launched. Let the system directory and
  the user's own hold desktop files whose commands are words set apart by blanks, field codes
  among them. Then the entries of the system directory are launched before those of the user's, each directory in its
  order: every entry that is not hidden, names this desktop if it names any, does not exclude it,
  and has a word that is no field code; its words without the field codes are the program and its arguments.
  Every launch is tried and logged with its outcome, whatever became of those before it. The
  program starts a session of its own and gives up the daemon's groups, group and user for those of the
  session's user, in that order; the session's environment is added to the daemon's own.
\<close>

theorem autostart_launches_wanted_entries:
  assumes "offers os ''/etc/xdg/autostart'' system"
    and "offers os (path_join (path_join (user_home u) ''.config'') ''autostart'') own"
  shows "launch_autostart_apps os u env =
    map (\<lambda>(stem, e, ws). launch_of os u env e ws)
      (filter (\<lambda>(stem, e, ws). autostart_wanted e \<and> list_ex (\<lambda>w. \<not> is_field_code w) ws) (system @ own))"
proof -
  have "as_exists os ''/etc/xdg/autostart''" "as_exists os (path_join (path_join (user_home u) ''.config'') ''autostart'')"
    using assms by (simp_all add: offers_def)
  then have "parse_autostart_dirs os u = map (fst \<circ> snd) (system @ own)"
    by (simp add: parse_autostart_dirs_def offers_parsed [OF assms(1)] offers_parsed [OF assms(2)] Let_def)
  moreover have "list_all (\<lambda>(stem, e, ws). ae_exec e = command_line ws \<and> list_all command_word ws) (system @ own)"
    using assms by (auto simp: offers_def list_all_iff)
  ultimately show ?thesis unfolding launch_autostart_apps_def by (simp only: launch_log)
qed

theorem autostart_launches_wanted_entries_witness:
  "map (\<lambda>(name, call, result). (ac_program call # ac_args call, result)) (launch_autostart_apps sample_autostart_os alice []) =
     [([''clock'', ''--seat''], Inl (IoError eacces)), ([''clock'', ''--seat''], Inl (IoError eacces))]"
proof -
  let ?files = "[(''clock'', sample_entry, [''clock'', ''--seat'', ''%U''])]"
  have 1: "offers sample_autostart_os ''/etc/xdg/autostart'' ?files" by code_simp
  have 2: "offers sample_autostart_os (path_join (path_join (user_home alice) ''.config'') ''autostart'') ?files" by code_simp
  show ?thesis unfolding autostart_launches_wanted_entries [OF 1 2] by code_simp
qed

end
