(* ===== verification/Daemon_Outboxes.thy ===== *)
theory Daemon_Outboxes
  imports Daemon_Reachable
begin

section \<open>How outboxes and owed prompts change\<close>

text \<open>
  What any event of the loop can do to the registry and to the prompts a connection is owed an answer
  for: messages are only ever appended, a connection is registered by its own \<open>Connected\<close> message alone,
  and only its own requests make the daemon owe it an answer.
\<close>

definition grows :: "conn_registry \<Rightarrow> conn_registry \<Rightarrow> bool" where
  "grows reg reg' \<longleftrightarrow> (\<forall>c. registered reg' c \<longrightarrow> registered reg c \<and> prefix (sent_to reg c) (sent_to reg' c))"

lemma grows_refl [simp]: "grows reg reg"
  by (simp add: grows_def)

lemma grows_trans: "grows a b \<Longrightarrow> grows b c \<Longrightarrow> grows a c"
  by (auto simp: grows_def intro: prefix_order.trans)

lemma grows_event [simp]: "grows reg (send_event c e reg)"
  by (simp add: grows_def sent_to_event)

lemma grows_response [simp]: "grows reg (send_response c r reg)"
  by (simp add: grows_def sent_to_response)

lemma grows_unregister [simp]: "grows reg (unregister c reg)"
  by (auto simp: grows_def sent_to_def unregister_def registered_def split: option.splits if_splits)

lemma grows_sends:
  "grows reg reg' \<Longrightarrow> grows reg (send_event c e reg')"
  "grows reg reg' \<Longrightarrow> grows reg (send_response c r reg')"
  by (auto intro: grows_trans)

interpretation grows: event_preorder grows
  by unfold_locales (auto intro: grows_trans)

subsection \<open>Appending\<close>

lemma grows_abandoned: "grows (d_registry d) (d_registry (notify_all_abandoned w reason as d))"
proof -
  have "grows (d_registry d) (d_registry (notify_elevation_abandoned w reason a d))" for a d
    by (simp add: notify_elevation_abandoned_def d_send_response_def d_send_event_def grows_sends)
  then show ?thesis
    unfolding notify_all_abandoned_def by (induction as arbitrary: d) (auto intro: grows_trans)
qed

lemma grows_abandoned_after:
  "grows reg (d_registry d) \<Longrightarrow> grows reg (d_registry (notify_all_abandoned w reason as d))"
  by (rule grows_trans [OF _ grows_abandoned])

lemma grows_terminate: "grows (d_registry d) (d_registry (fst (terminate_session w peer sid d)))"
  by (simp add: terminate_session_def Let_def grows_abandoned_after split: prod.split sum.split)

lemma grows_finish: "grows (d_registry d) (d_registry (finish_response w peer rid res d))"
  by (simp add: finish_response_def d_send_event_def d_send_response_def Let_def grows_sends)

lemma grows_respond: "grows (d_registry d) (d_registry (fst (respond_elevation w peer rid response d)))"
proof -
  obtain d' r where re: "respond_elevation w peer rid response d = (d', r)" by fastforce
  then show ?thesis
  proof (cases rule: respond_elevation_cases)
    case (answered pe em res)
    then show ?thesis using grows_finish [of "d\<lparr>d_elevation := em\<rparr>" w peer rid res] re by simp
  qed (use re in simp)
qed

lemma grows_dispatch: "grows (d_registry d) (d_registry (fst (dispatch w conn peer r d)))"
  by (cases r) (simp_all add: reply_def split_def grows_terminate grows_respond grows.register grows.switch
      grows.lock grows.unlock grows.start_elevation grows.suspend)

lemma grows_command: "grows (d_registry d) (d_registry (handle_command w conn peer r d))"
  using grows_dispatch [of d w conn peer r]
  by (auto simp: handle_command_def d_send_response_def split: sum.split prod.split option.split
      intro: grows_trans)

lemma grows_exit: "grows (d_registry d) (d_registry (handle_compositor_exit w pid d))"
  by (auto simp: handle_compositor_exit_def Let_def split: option.split sum.split prod.split restart_decision.split)

lemma grows_reap: "grows (d_registry d) (d_registry (reap_children w ws d))"
  by (induction w ws d rule: reap_children.induct) (auto intro: grows_trans [OF grows_exit])

lemma grows_tick: "grows (d_registry d) (d_registry (on_idle_tick w d))"
proof -
  have "grows (d_registry d) (d_registry (fold (handle_idle_change w p) chs (d\<lparr>d_idle := det\<rparr>)))" for p chs det
    using grows.idle_changes [of "d\<lparr>d_idle := det\<rparr>"] by simp
  then show ?thesis
    by (simp add: on_idle_tick_def Let_def grows_abandoned_after split: prod.split)
qed

lemma grows_signal: "grows (d_registry d) (d_registry (on_signal w ws e d))"
  by (cases e) (simp_all add: Let_def reload_config_def grows_reap split: prod.split sum.split)

text \<open>Every event but a \<open>Connected\<close> message.\<close>

lemma event_grows:
  assumes "\<And>conn peer. ev \<noteq> IpcEvent (Connected conn peer)"
  shows "grows (d_registry d) (d_registry (daemon_event w ev d))"
proof (cases ev)
  case (IpcEvent msg)
  then show ?thesis
    using assms grows_command by (cases msg) (simp_all add: Let_def grows_abandoned_after split: prod.split)
qed (use grows_tick grows_signal in \<open>simp_all split: option.split\<close>)

subsection \<open>Owed answers\<close>

lemma owed_dispatch:
  assumes "em_inv (d_elevation d)" "Suc (unat (em_next_id (d_elevation d))) < 2 ^ 64"
  shows "owed (d_elevation (fst (dispatch w conn peer r d))) c \<le> owed (d_elevation d) c + (if c = conn then 1 else 0)"
proof (cases r)
  case (TerminateSession sid)
  have "hm_ok (em_pending (d_elevation d))" using assms(1) by (simp add: em_inv_def)
  from terminate_session_registry(2) [OF this refl, of w peer sid c] TerminateSession show ?thesis
    by (auto simp: reply_def)
next
  case (RequestElevation sid action)
  then show ?thesis using start_elevation_owed [OF assms] by simp
next
  case (RespondElevation rid resp)
  obtain d' r' where re: "respond_elevation w peer rid resp d = (d', r')" by fastforce
  from re have "owed (d_elevation d') c \<le> owed (d_elevation d) c"
  proof (cases rule: respond_elevation_cases)
    case (answered pe em res)
    then show ?thesis by (simp add: owed_def hm_count_remove_le)
  qed simp
  with re RespondElevation show ?thesis by (simp add: reply_def)
qed (simp_all add: reply_def split_def)

lemma clear_expired_pending: "em_pending (clear_expired_lockouts now m) = em_pending m"
  by (simp add: clear_expired_lockouts_def elev_expired_lockouts_eq)

lemma owed_event:
  assumes "em_inv (d_elevation d)" "Suc (unat (em_next_id (d_elevation d))) < 2 ^ 64"
  shows "owed (d_elevation (daemon_event w ev d)) c \<le> owed (d_elevation d) c + (if request_on c ev then 1 else 0)"
proof -
  have ok: "hm_ok (em_pending (d_elevation d))" using assms(1) by (simp add: em_inv_def)
  show ?thesis
  proof (cases ev)
    case (IpcEvent msg)
    show ?thesis
    proof (cases msg)
      case (Command conn peer r)
      with IpcEvent owed_dispatch [OF assms, of w conn peer r c] show ?thesis
        by (auto simp: handle_command_def split: sum.split prod.splits option.split)
    next
      case (Disconnected conn)
      with IpcEvent owed_abandon [OF ok, of "\<lambda>p. pe_compositor_conn p = conn \<or> pe_requester_conn p = conn" c]
      show ?thesis by (auto simp: abandon_connection_def Let_def split: prod.split)
    qed (use IpcEvent in simp)
  next
    case TickEvent
    then show ?thesis
      using owed_expire [of "clear_expired_lockouts (w_now w) (d_elevation d)" "w_now w" c] ok
      by (simp add: on_idle_tick_parts owed_def clear_expired_pending)
  next
    case (SignalEvent sig ws)
    have "owed (d_elevation (on_signal w ws e d)) c = owed (d_elevation d) c" for e
      by (cases e) (simp_all add: Let_def reload_config_def set_requester_uid_def owed_def split: prod.split sum.split)
    with SignalEvent show ?thesis by (simp split: option.split)
  qed
qed

lemma dstep_owed:
  assumes "daemon_inv n d" "n < 2 ^ 32 - 2" "dstep d (w, ev) u"
  shows "owed (d_elevation u) c \<le> owed (d_elevation d) c + (if request_on c ev then 1 else 0)"
proof -
  from assms(3) have "hm_same (em_pending (d_elevation (daemon_event w ev d))) (em_pending (d_elevation u))"
    by (auto simp: same_daemon_def same_elevation_def elim!: dstepE)
  then have "owed (d_elevation u) c = owed (d_elevation (daemon_event w ev d)) c"
    unfolding owed_def by (intro hm_same_count)
  moreover have "em_inv (d_elevation d)" "Suc (unat (em_next_id (d_elevation d))) < 2 ^ 64"
    using assms(1,2) by (simp_all add: daemon_inv_def elev_safe_def)
  ultimately show ?thesis using owed_event by simp
qed

lemma dstep_grows:
  assumes "dstep d (w, ev) u" "\<And>conn peer. ev \<noteq> IpcEvent (Connected conn peer)"
  shows "grows (d_registry d) (d_registry u)"
  using assms event_grows [OF assms(2), of d w] by (auto simp: same_daemon_def elim!: dstepE)

end
