(* ===== verification/System.thy ===== *)
theory System
  imports Daemon_Outboxes Connection
begin

section \<open>The daemon and its connections together\<close>

text \<open>
  The whole program while it serves: the accepting thread and \<open>handle_connection\<close> of
  \<open>src/ipc/server.rs\<close>, one copy of \<open>Connection\<close>'s threads per socket, the channel they post to, and the
  event loop of \<open>src/main.rs\<close> that takes messages off it. A step is one turn of one thread; the order is
  arbitrary. What the daemon's registry sends goes into the outbox of the connection it belongs to.

  The daemon registers a connection when it takes its \<open>Connected\<close> message, and drops the sender
  when it unregisters it. No callback both sends to a connection and unregisters it, so the messages a
  callback sends are what it adds to the registry's list.
\<close>

subsection \<open>State\<close>

fun msg_conn :: "manager_message \<Rightarrow> conn_id" where
  "msg_conn (Connected c peer) = c"
| "msg_conn (Command c peer r) = c"
| "msg_conn (Disconnected c) = c"

fun is_command :: "manager_message \<Rightarrow> bool" where
  "is_command (Command c peer r) = True"
| "is_command _ = False"

text \<open>
  \<open>sy_accepted\<close> keeps, for every socket accepted so far, what the kernel says of its peer, whether the
  stream can be cloned, and the bytes the peer sends. \<open>sy_handled\<close> is the history of the messages
  the daemon has taken off the channel \<open>sy_inbox\<close>.
\<close>

record system =
  sy_daemon :: daemon
  sy_inbox :: "manager_message list"
  sy_next :: conn_id
  sy_accepted :: "conn_id \<Rightarrow> ((string + peer_cred) \<times> (io_error + unit) \<times> stream) option"
  sy_conns :: "conn_id \<Rightarrow> conn option"
  sy_handled :: "manager_message list"

definition system_init :: "daemon \<Rightarrow> system" where
  "system_init d = \<lparr>sy_daemon = d, sy_inbox = [], sy_next = 1, sy_accepted = Map.empty,
     sy_conns = Map.empty, sy_handled = []\<rparr>"

definition system_start :: "system \<Rightarrow> bool" where
  "system_start s \<longleftrightarrow> (\<exists>d. initial_daemon d \<and> s = system_init d)"

subsection \<open>Steps\<close>

text \<open>
  \<open>Accept\<close> is a stream that is accepted and whose thread has taken its id; \<open>Open\<close> is the rest of the opening
  of \<open>handle_connection\<close>, up to the \<open>Connected\<close> message, and is never possible for a stream it turns away.
\<close>

text \<open>What a callback that took the registry from \<open>old\<close> to \<open>new\<close> did to the outbox of a connection.\<close>

definition deliver :: "conn_registry \<Rightarrow> conn_registry \<Rightarrow> conn_id \<Rightarrow> conn \<Rightarrow> conn" where
  "deliver old new c s =
     (if registered old c then
        if registered new c then fold daemon_send (drop (length (sent_to old c)) (sent_to new c)) s
        else s\<lparr>cn_registry := False\<rparr>
      else s)"

definition daemon_turn :: "daemon \<Rightarrow> system \<Rightarrow> system" where
  "daemon_turn d' s =
     s\<lparr>sy_daemon := d',
       sy_conns := (\<lambda>c. map_option (deliver (d_registry (sy_daemon s)) (d_registry d') c) (sy_conns s c))\<rparr>"

datatype system_event =
    Accept "string + peer_cred" "io_error + unit" stream
  | Open conn_id
  | ThreadTurn conn_id conn_event
  | Handle world
  | Elapse world loop_event

inductive system_step :: "request codec \<Rightarrow> message codec \<Rightarrow> system \<Rightarrow> system_event \<Rightarrow> system \<Rightarrow> bool"
  for rcd mcd where
  accept: "fetch_conn_id (sy_next s) = (c, n) \<Longrightarrow>
     system_step rcd mcd s (Accept creds clone input)
       (s\<lparr>sy_next := n, sy_accepted := (sy_accepted s)(c \<mapsto> (creds, clone, input))\<rparr>)"
| opens: "sy_accepted s c = Some (creds, clone, input) \<Longrightarrow> sy_conns s c = None \<Longrightarrow>
     connection_start c creds clone True input = Some cn \<Longrightarrow>
     system_step rcd mcd s (Open c)
       (s\<lparr>sy_conns := (sy_conns s)(c \<mapsto> cn), sy_inbox := sy_inbox s @ cn_posted cn\<rparr>)"
| turns: "sy_conns s c = Some cn \<Longrightarrow> \<not> daemon_side e \<Longrightarrow> conn_step rcd mcd cn e cn' \<Longrightarrow>
     system_step rcd mcd s (ThreadTurn c e)
       (s\<lparr>sy_conns := (sy_conns s)(c \<mapsto> cn'), sy_inbox := sy_inbox s @ drop (length (cn_posted cn)) (cn_posted cn')\<rparr>)"
| handles: "sy_inbox s = m # rest \<Longrightarrow> dstep (sy_daemon s) (w, IpcEvent m) d' \<Longrightarrow>
     system_step rcd mcd s (Handle w)
       ((daemon_turn d' s)\<lparr>sy_inbox := rest, sy_handled := sy_handled s @ [m]\<rparr>)"
| elapses: "(\<And>m. ev \<noteq> IpcEvent m) \<Longrightarrow> dstep (sy_daemon s) (w, ev) d' \<Longrightarrow>
     system_step rcd mcd s (Elapse w ev) (daemon_turn d' s)"

inductive_cases system_stepE: "system_step rcd mcd s e s'"

subsection \<open>An executable schedule\<close>

text \<open>
  The step as a function, for a schedule given in advance: \<open>None\<close> where the thread cannot move. The hash
  maps keep their order.
\<close>

fun thread_exec :: "request codec \<Rightarrow> message codec \<Rightarrow> conn_event \<Rightarrow> conn \<Rightarrow> conn option" where
  "thread_exec rcd mcd ReaderReads s = (if cn_phase s = Reading then Some (reader_turn rcd s) else None)"
| "thread_exec rcd mcd (WriterWrites answer) s =
     (if cn_writer s then (case cn_queue s of [] \<Rightarrow> None | m # rest \<Rightarrow> Some (writer_turn mcd answer m rest s)) else None)"
| "thread_exec rcd mcd WriterEnds s =
     (if cn_writer s \<and> cn_queue s = [] \<and> \<not> cn_registry s \<and> cn_phase s \<noteq> Reading then Some (s\<lparr>cn_writer := False\<rparr>) else None)"
| "thread_exec rcd mcd ReaderJoins s =
     (if cn_phase s = Joining \<and> \<not> cn_writer s then Some (post (Disconnected (cn_id s)) (s\<lparr>cn_phase := Finished\<rparr>)) else None)"
| "thread_exec rcd mcd _ s = None"

fun system_exec :: "request codec \<Rightarrow> message codec \<Rightarrow> system_event \<Rightarrow> system \<Rightarrow> system option" where
  "system_exec rcd mcd (Accept creds clone input) s =
     (case fetch_conn_id (sy_next s) of
        (c, n) \<Rightarrow> Some (s\<lparr>sy_next := n, sy_accepted := (sy_accepted s)(c \<mapsto> (creds, clone, input))\<rparr>))"
| "system_exec rcd mcd (Open c) s =
     (case sy_conns s c of
        Some _ \<Rightarrow> None
      | None \<Rightarrow>
          (case sy_accepted s c of
             None \<Rightarrow> None
           | Some (creds, clone, input) \<Rightarrow>
               map_option (\<lambda>cn. s\<lparr>sy_conns := (sy_conns s)(c \<mapsto> cn), sy_inbox := sy_inbox s @ cn_posted cn\<rparr>)
                 (connection_start c creds clone True input)))"
| "system_exec rcd mcd (ThreadTurn c e) s =
     (case sy_conns s c of
        None \<Rightarrow> None
      | Some cn \<Rightarrow>
          map_option (\<lambda>cn'. s\<lparr>sy_conns := (sy_conns s)(c \<mapsto> cn'),
              sy_inbox := sy_inbox s @ drop (length (cn_posted cn)) (cn_posted cn')\<rparr>) (thread_exec rcd mcd e cn))"
| "system_exec rcd mcd (Handle w) s =
     (case sy_inbox s of
        [] \<Rightarrow> None
      | m # rest \<Rightarrow> Some ((daemon_turn (daemon_event w (IpcEvent m) (sy_daemon s)) s)
                     \<lparr>sy_inbox := rest, sy_handled := sy_handled s @ [m]\<rparr>))"
| "system_exec rcd mcd (Elapse w ev) s = None"

fun exec_all :: "request codec \<Rightarrow> message codec \<Rightarrow> system_event list \<Rightarrow> system \<Rightarrow> system option" where
  "exec_all rcd mcd [] s = Some s"
| "exec_all rcd mcd (e # es) s = (case system_exec rcd mcd e s of None \<Rightarrow> None | Some t \<Rightarrow> exec_all rcd mcd es t)"

text \<open>
  Two schedules: root creates a session for alice, whose compositor registers, locks and unlocks; and one
  request that is read, handled and answered.
\<close>

definition script_codec :: "request codec" where
  "script_codec =
     \<lparr>serialize = (\<lambda>_. Inl ''unsupported''),
      deserialize = (\<lambda>bs. if bs = [0] then Inr (CreateSession ''alice'' None None)
        else if bs = [1] then Inr (RegisterCompositor 1)
        else if bs = [2] then Inr (LockSession 1)
        else if bs = [3] then Inr (Unlock 1 ''alice'' ''hunter2'') else Inl ''bad payload'')\<rparr>"

definition blank_codec :: "message codec" where
  "blank_codec = \<lparr>serialize = (\<lambda>_. Inr []), deserialize = (\<lambda>_. Inl ''unsupported'')\<rparr>"

definition script_start :: system where
  "script_start = system_init (daemon_startup sample_world sample_udev default_settings)"

definition unlock_script :: "system_event list" where
  "unlock_script =
     [Accept (Inr root_cred) (Inr ()) \<lparr>st_bytes = [1, 0, 0, 0, 0], st_end = eof\<rparr>,
      Accept (Inr alice_cred) (Inr ()) \<lparr>st_bytes = [1, 0, 0, 0, 1, 1, 0, 0, 0, 2, 1, 0, 0, 0, 3], st_end = eof\<rparr>,
      Accept (Inr mallory_cred) (Inr ()) \<lparr>st_bytes = [], st_end = eof\<rparr>,
      Open 1, Open 2, Open 3, ThreadTurn 1 ReaderReads, ThreadTurn 2 ReaderReads, ThreadTurn 2 ReaderReads,
      ThreadTurn 2 ReaderReads]"

definition answer_script :: "system_event list" where
  "answer_script =
     [Accept (Inr root_cred) (Inr ()) \<lparr>st_bytes = [1, 0, 0, 0, 2], st_end = eof\<rparr>, Open 1, ThreadTurn 1 ReaderReads,
      ThreadTurn 1 ReaderReads, Handle sample_world, Handle sample_world, ThreadTurn 1 (WriterWrites (\<lambda>_. Inr ()))]"

subsection \<open>The invariant\<close>

abbreviation reg_of :: "system \<Rightarrow> conn_registry" where
  "reg_of s \<equiv> d_registry (sy_daemon s)"

definition handled_on :: "system \<Rightarrow> conn_id \<Rightarrow> manager_message list" where
  "handled_on s c = filter (\<lambda>m. msg_conn m = c) (sy_handled s)"

definition commands_on :: "system \<Rightarrow> conn_id \<Rightarrow> nat" where
  "commands_on s c = length (filter is_command (handled_on s c))"

text \<open>The channel is first in, first out: what a connection posted is what was handled and what waits.\<close>

definition channel_ok :: "system \<Rightarrow> conn_id \<Rightarrow> bool" where
  "channel_ok s c \<longleftrightarrow>
     handled_on s c @ filter (\<lambda>m. msg_conn m = c) (sy_inbox s) =
       (case sy_conns s c of None \<Rightarrow> [] | Some cn \<Rightarrow> cn_posted cn)"

definition threads_ok :: "request codec \<Rightarrow> system \<Rightarrow> conn_id \<Rightarrow> bool" where
  "threads_ok rcd s c \<longleftrightarrow>
     (\<forall>cn. sy_conns s c = Some cn \<longrightarrow>
        (\<exists>creds clone input. sy_accepted s c = Some (creds, clone, input) \<and> conn_inv rcd c creds input cn \<and> cn_loop cn)
        \<and> length (filter is_response (cn_sent cn)) \<le> commands_on s c)"

text \<open>Before its \<open>Connected\<close> message is handled the daemon knows nothing of a connection.\<close>

definition outbox_linked :: "system \<Rightarrow> conn_id \<Rightarrow> bool" where
  "outbox_linked s c \<longleftrightarrow>
     (if handled_on s c = [] then
        \<not> registered (reg_of s) c \<and> owed (d_elevation (sy_daemon s)) c = 0
        \<and> (\<forall>cn. sy_conns s c = Some cn \<longrightarrow> cn_registry cn \<and> cn_sent cn = [])
      else
        (\<forall>cn. sy_conns s c = Some cn \<longrightarrow> cn_registry cn = registered (reg_of s) c)
        \<and> (registered (reg_of s) c \<longrightarrow>
             (\<forall>cn. sy_conns s c = Some cn \<longrightarrow> cn_sent cn = sent_to (reg_of s) c)
             \<and> replies (reg_of s) c + owed (d_elevation (sy_daemon s)) c = commands_on s c))"

definition ids_ok :: "nat \<Rightarrow> system \<Rightarrow> bool" where
  "ids_ok n s \<longleftrightarrow> 0 < unat (sy_next s) \<and> unat (sy_next s) \<le> Suc n
     \<and> (\<forall>c. sy_accepted s c \<noteq> None \<longrightarrow> unat c < unat (sy_next s))
     \<and> (\<forall>c. sy_conns s c \<noteq> None \<longrightarrow> sy_accepted s c \<noteq> None)"

definition system_inv :: "request codec \<Rightarrow> nat \<Rightarrow> system \<Rightarrow> bool" where
  "system_inv rcd n s \<longleftrightarrow>
     ids_ok n s \<and> (\<exists>k \<le> n. reachable_in k (sy_daemon s))
     \<and> (\<forall>c. channel_ok s c \<and> threads_ok rcd s c \<and> outbox_linked s c)"

text \<open>The messages a turn takes off the channel.\<close>

fun taken :: "loop_event \<Rightarrow> manager_message list" where
  "taken (IpcEvent m) = [m]"
| "taken _ = []"

definition after_turn :: "loop_event \<Rightarrow> manager_message list \<Rightarrow> daemon \<Rightarrow> system \<Rightarrow> system" where
  "after_turn ev rest d' s = (daemon_turn d' s)\<lparr>sy_inbox := rest, sy_handled := sy_handled s @ taken ev\<rparr>"

subsection \<open>Connections\<close>

lemma daemon_send_keeps [simp]:
  "cn_posted (daemon_send m s) = cn_posted s" "cn_registry (daemon_send m s) = cn_registry s"
  "cn_loop (daemon_send m s) = cn_loop s" "cn_sent (daemon_send m s) = cn_sent s @ [m]"
  by (simp_all add: daemon_send_def)

lemma daemon_sends_keep [simp]:
  "cn_posted (fold daemon_send ms s) = cn_posted s" "cn_registry (fold daemon_send ms s) = cn_registry s"
  "cn_loop (fold daemon_send ms s) = cn_loop s" "cn_sent (fold daemon_send ms s) = cn_sent s @ ms"
  by (induction ms arbitrary: s) simp_all

lemma deliver_keeps [simp]:
  "cn_posted (deliver old new c s) = cn_posted s" "cn_loop (deliver old new c s) = cn_loop s"
  by (simp_all add: deliver_def)

lemma conn_inv_sends: "conn_inv rcd c creds input s \<Longrightarrow> cn_registry s \<Longrightarrow> conn_inv rcd c creds input (fold daemon_send ms s)"
proof (induction ms arbitrary: s)
  case (Cons m ms)
  have "conn_inv rcd c creds input (daemon_send m s)" by (rule conn_inv_step [OF Cons.prems(1) sends [OF Cons.prems(2)]])
  with Cons show ?case by simp
qed simp

lemma conn_inv_deliver:
  assumes "conn_inv rcd c creds input s" "registered old c \<Longrightarrow> cn_registry s"
  shows "conn_inv rcd c creds input (deliver old new c s)"
proof (cases "registered old c")
  case True
  from assms(2) [OF True] have "conn_inv rcd c creds input (s\<lparr>cn_registry := False\<rparr>)"
    by (intro conn_inv_step [OF assms(1) drops])
  with conn_inv_sends [OF assms(1) assms(2) [OF True]] True show ?thesis by (simp add: deliver_def)
qed (use assms(1) in \<open>simp add: deliver_def\<close>)

text \<open>What a turn of a connection's own threads does.\<close>

lemma thread_turn:
  assumes "conn_step rcd mcd s e t" "\<not> daemon_side e"
  shows "cn_registry t = cn_registry s \<and> cn_sent t = cn_sent s \<and> cn_loop t = cn_loop s
    \<and> (\<exists>ms. cn_posted t = cn_posted s @ ms \<and> (\<forall>m \<in> set ms. msg_conn m = cn_id s))"
  using assms
proof cases
  case reads
  then show ?thesis by (simp add: reader_turn_def post_def split: prod.split sum.split)
next
  case (writes m rest answer)
  then show ?thesis by (simp add: writer_turn_def split: prod.split sum.split)
next
  case joins
  then show ?thesis by (simp add: post_def)
qed simp_all

lemma connection_opened:
  assumes "connection_start c creds clone True input = Some cn"
  shows "conn_inv rcd c creds input cn" "cn_loop cn" "cn_registry cn" "cn_sent cn = []"
    "\<exists>peer. cn_posted cn = [Connected c peer]"
  using conn_runs.start_inv [OF assms] assms
  by (auto simp: connection_start_def split: sum.splits)

lemma read_loop_commands: "set (read_loop cd c peer input) \<subseteq> range (Command c peer)"
proof (induction cd c peer input rule: read_loop.induct)
  case (1 cd c peer s)
  then show ?case by (subst read_loop.simps) (force split: prod.split sum.split)
qed

lemma posted_head:
  assumes "conn_inv rcd c creds input cn"
  obtains cmds where "cn_posted cn = Connected c (cn_peer cn) # cmds" "\<forall>m \<in> set cmds. msg_conn m = c \<and> (\<forall>c' p. m \<noteq> Connected c' p)"
proof -
  from assms obtain cmds rest where "read_loop rcd c (cn_peer cn) input = cmds @ rest"
    "cn_posted cn = Connected c (cn_peer cn) # cmds \<or> cn_posted cn = Connected c (cn_peer cn) # cmds @ [Disconnected c]"
    by (auto simp: conn_inv_def posted_ok_def)
  moreover from this(1) read_loop_commands [of rcd c "cn_peer cn" input] have "set cmds \<subseteq> range (Command c (cn_peer cn))" by simp
  then have "\<forall>m \<in> set cmds. msg_conn m = c \<and> (\<forall>c' p. m \<noteq> Connected c' p)" by force
  ultimately show thesis using that [of cmds] that [of "cmds @ [Disconnected c]"] by auto
qed

lemma posted_commands:
  assumes "conn_inv rcd c creds input cn" "cn_loop cn"
  shows "prefix (filter is_command (cn_posted cn)) (read_loop rcd c (cn_peer cn) input)"
    and "cn_phase cn \<noteq> Reading \<Longrightarrow> filter is_command (cn_posted cn) = read_loop rcd c (cn_peer cn) input"
proof -
  from assms obtain cmds rest where parts: "read_loop rcd c (cn_peer cn) input = cmds @ rest"
    "cn_phase cn \<noteq> Reading \<longrightarrow> rest = []"
    "cn_posted cn = Connected c (cn_peer cn) # cmds \<or> cn_posted cn = Connected c (cn_peer cn) # cmds @ [Disconnected c]"
    by (auto simp: conn_inv_def posted_ok_def)
  with read_loop_commands [of rcd c "cn_peer cn" input] have "\<forall>m \<in> set cmds. is_command m" by force
  then have "filter is_command cmds = cmds" by simp
  with parts(3) have "filter is_command (cn_posted cn) = cmds" by auto
  with parts(1,2) show "prefix (filter is_command (cn_posted cn)) (read_loop rcd c (cn_peer cn) input)"
    and "cn_phase cn \<noteq> Reading \<Longrightarrow> filter is_command (cn_posted cn) = read_loop rcd c (cn_peer cn) input" by simp_all
qed

subsection \<open>The daemon's turns\<close>

lemma reachable_dstep: "reachable_in k d \<Longrightarrow> dstep d e d' \<Longrightarrow> reachable_in (Suc k) d'"
  unfolding reachable_in_def by (metis length_append_singleton run_step)

lemma after_turn_fields [simp]:
  "sy_daemon (after_turn ev rest d' s) = d'" "sy_inbox (after_turn ev rest d' s) = rest"
  "sy_next (after_turn ev rest d' s) = sy_next s" "sy_accepted (after_turn ev rest d' s) = sy_accepted s"
  "sy_conns (after_turn ev rest d' s) c = map_option (deliver (reg_of s) (d_registry d') c) (sy_conns s c)"
  "handled_on (after_turn ev rest d' s) c = handled_on s c @ filter (\<lambda>m. msg_conn m = c) (taken ev)"
  by (simp_all add: after_turn_def daemon_turn_def handled_on_def)

lemma request_on_message [simp]: "request_on c (IpcEvent m) \<longleftrightarrow> is_command m \<and> msg_conn m = c"
  by (cases m) auto

lemma commands_after [simp]:
  "commands_on (after_turn ev rest d' s) c = commands_on s c + (if request_on c ev then 1 else 0)"
  by (cases ev) (simp_all add: commands_on_def)

text \<open>A connection that does not connect in a turn.\<close>

lemma dstep_outbox:
  assumes "dstep d (w, ev) u" "\<forall>peer. ev \<noteq> IpcEvent (Connected c peer)" "registered (d_registry u) c"
  shows "registered (d_registry d) c \<and> prefix (sent_to (d_registry d) c) (sent_to (d_registry u) c)"
proof (cases "\<exists>c' peer. ev = IpcEvent (Connected c' peer)")
  case True
  then obtain c' peer where ev: "ev = IpcEvent (Connected c' peer)" by blast
  with assms(2) have "c' \<noteq> c" by blast
  with assms(1,3) ev show ?thesis
    by (auto simp: same_daemon_def register_def registered_def sent_to_def elim!: dstepE)
next
  case False
  with dstep_grows [OF assms(1)] assms(3) show ?thesis by (auto simp: grows_def)
qed

text \<open>A turn's first message of a connection is \<open>Connected\<close>, and a later one is not.\<close>

lemma taken_order:
  assumes "channel_ok s c" "threads_ok rcd s c" "sy_inbox s = taken ev @ rest" "filter (\<lambda>m. msg_conn m = c) (taken ev) \<noteq> []"
  shows "handled_on s c = [] \<longleftrightarrow> (\<exists>peer. ev = IpcEvent (Connected c peer))"
    "sy_conns s c \<noteq> None"
proof -
  from assms(4) have "taken ev \<noteq> []" by auto
  then obtain m where m: "ev = IpcEvent m" by (cases ev) simp_all
  with assms(4) have ev: "ev = IpcEvent m" "msg_conn m = c" by (simp_all split: if_splits)
  let ?waiting = "filter (\<lambda>m. msg_conn m = c) (sy_inbox s)"
  have w: "?waiting = m # filter (\<lambda>m. msg_conn m = c) rest" using assms(3) ev by simp
  have ok: "handled_on s c @ ?waiting = (case sy_conns s c of None \<Rightarrow> [] | Some cn \<Rightarrow> cn_posted cn)"
    using assms(1) by (simp add: channel_ok_def)
  with w show conn: "sy_conns s c \<noteq> None" by (cases "sy_conns s c") simp_all
  then obtain cn where cn: "sy_conns s c = Some cn" by blast
  with ok have posted: "handled_on s c @ ?waiting = cn_posted cn" by simp
  from assms(2) cn obtain creds input where "conn_inv rcd c creds input cn"
    unfolding threads_ok_def by blast
  then obtain cmds where cmds: "cn_posted cn = Connected c (cn_peer cn) # cmds"
    "\<forall>m \<in> set cmds. msg_conn m = c \<and> (\<forall>c' p. m \<noteq> Connected c' p)" by (rule posted_head)
  show "handled_on s c = [] \<longleftrightarrow> (\<exists>peer. ev = IpcEvent (Connected c peer))"
  proof (cases "handled_on s c")
    case Nil
    with posted w cmds(1) have "m = Connected c (cn_peer cn)" by simp
    with Nil ev show ?thesis by simp
  next
    case (Cons x xs)
    with posted w cmds(1) have "cmds = xs @ m # filter (\<lambda>m. msg_conn m = c) rest" by simp
    then have "m \<in> set cmds" by simp
    with cmds(2) have "\<forall>c' p. m \<noteq> Connected c' p" by blast
    with Cons ev show ?thesis by simp
  qed
qed

text \<open>The turn that takes the \<open>Connected\<close> message of a connection.\<close>

lemma dstep_connects:
  assumes "dstep d (w, IpcEvent (Connected c peer)) u"
  shows "registered (d_registry u) c \<and> sent_to (d_registry u) c = [] \<and> replies (d_registry u) c = 0"
  using assms
  by (auto simp: same_daemon_def register_def registered_def sent_to_def replies_def elim!: dstepE)

lemma outbox_fresh:
  "handled_on s c = [] \<Longrightarrow> outbox_linked s c \<longleftrightarrow> \<not> registered (reg_of s) c \<and> owed (d_elevation (sy_daemon s)) c = 0
     \<and> (\<forall>cn. sy_conns s c = Some cn \<longrightarrow> cn_registry cn \<and> cn_sent cn = [])"
  by (simp add: outbox_linked_def)

lemma outbox_known:
  "handled_on s c \<noteq> [] \<Longrightarrow> outbox_linked s c \<longleftrightarrow>
     (\<forall>cn. sy_conns s c = Some cn \<longrightarrow> cn_registry cn = registered (reg_of s) c)
     \<and> (registered (reg_of s) c \<longrightarrow> (\<forall>cn. sy_conns s c = Some cn \<longrightarrow> cn_sent cn = sent_to (reg_of s) c)
          \<and> replies (reg_of s) c + owed (d_elevation (sy_daemon s)) c = commands_on s c)"
  by (simp add: outbox_linked_def)

lemma deliver_registry:
  "registered old c \<Longrightarrow> cn_registry (deliver old new c s) = (if registered new c then cn_registry s else False)"
  "\<not> registered old c \<Longrightarrow> deliver old new c s = s"
  by (simp_all add: deliver_def)

lemma deliver_sent:
  "registered old c \<Longrightarrow> registered new c \<Longrightarrow> cn_sent s = sent_to old c \<Longrightarrow> prefix (sent_to old c) (sent_to new c)
   \<Longrightarrow> cn_sent (deliver old new c s) = sent_to new c"
  by (auto simp: deliver_def prefix_def)

lemma outbox_after:
  assumes inv: "daemon_inv n (sy_daemon s)" "n < 2 ^ 32 - 2" and turn: "dstep (sy_daemon s) (w, ev) d'"
    and box: "sy_inbox s = taken ev @ rest"
    and ok: "channel_ok s c" "threads_ok rcd s c" "outbox_linked s c"
  shows "outbox_linked (after_turn ev rest d' s) c"
proof (cases "handled_on s c = []")
  case True
  note fresh = ok(3) [unfolded outbox_fresh [OF True]]
  show ?thesis
  proof (cases "\<exists>peer. ev = IpcEvent (Connected c peer)")
    case conn: True
    then obtain peer where ev: "ev = IpcEvent (Connected c peer)" by blast
    have "owed (d_elevation d') c = 0" using dstep_owed [OF inv turn, of c] fresh ev by simp
    moreover have "commands_on s c = 0" using True by (simp add: commands_on_def)
    ultimately show ?thesis
      using True fresh dstep_connects [OF turn [unfolded ev]] ev
      by (subst outbox_known) (auto simp: deliver_registry)
  next
    case False
    then have none: "filter (\<lambda>m. msg_conn m = c) (taken ev) = []" using taken_order(1) [OF ok(1,2) box] True by blast
    then have "\<not> request_on c ev" by (cases ev) (auto split: if_splits)
    then have "owed (d_elevation d') c = 0" using dstep_owed [OF inv turn, of c] fresh by simp
    moreover have "\<not> registered (d_registry d') c" using dstep_outbox [OF turn, of c] False fresh by blast
    ultimately show ?thesis
      using True none fresh by (subst outbox_fresh) (auto simp: deliver_registry)
  qed
next
  case False
  note known = ok(3) [unfolded outbox_known [OF False]]
  have old: "\<forall>peer. ev \<noteq> IpcEvent (Connected c peer)" using taken_order(1) [OF ok(1,2) box] False by force
  have reg: "registered (d_registry d') c \<Longrightarrow> registered (reg_of s) c \<and> prefix (sent_to (reg_of s) c) (sent_to (d_registry d') c)"
    by (rule dstep_outbox [OF turn old])
  have "cn_registry (deliver (reg_of s) (d_registry d') c cn) = registered (d_registry d') c" if "sy_conns s c = Some cn" for cn
    using known reg that by (cases "registered (reg_of s) c") (auto simp: deliver_registry)
  moreover have "cn_sent (deliver (reg_of s) (d_registry d') c cn) = sent_to (d_registry d') c"
    if "sy_conns s c = Some cn" "registered (d_registry d') c" for cn
    using known reg [OF that(2)] that by (intro deliver_sent) auto
  moreover have "replies (d_registry d') c + owed (d_elevation d') c = commands_on (after_turn ev rest d' s) c"
    if "registered (d_registry d') c"
    using dstep_replies [OF inv turn _ that old] known reg [OF that] by simp
  ultimately show ?thesis using False by (subst outbox_known) auto
qed

lemma threads_after:
  assumes "outbox_linked (after_turn ev rest d' s) c" "threads_ok rcd s c" "outbox_linked s c"
  shows "threads_ok rcd (after_turn ev rest d' s) c"
proof -
  { fix cn assume cn: "sy_conns s c = Some cn"
    with assms(2) obtain creds clone input where "sy_accepted s c = Some (creds, clone, input)"
      "conn_inv rcd c creds input cn" "cn_loop cn" and le: "length (filter is_response (cn_sent cn)) \<le> commands_on s c"
      unfolding threads_ok_def by blast
    moreover have "registered (reg_of s) c \<Longrightarrow> cn_registry cn"
      using assms(3) cn by (auto simp: outbox_linked_def split: if_splits)
    ultimately have "\<exists>creds clone input. sy_accepted s c = Some (creds, clone, input)
        \<and> conn_inv rcd c creds input (deliver (reg_of s) (d_registry d') c cn) \<and> cn_loop cn"
      using conn_inv_deliver by blast
    moreover have "length (filter is_response (cn_sent (deliver (reg_of s) (d_registry d') c cn)))
        \<le> commands_on (after_turn ev rest d' s) c"
    proof (cases "registered (reg_of s) c \<and> registered (d_registry d') c")
      case True
      with assms(1,3) cn show ?thesis by (auto simp: outbox_linked_def replies_def split: if_splits)
    next
      case False
      with le show ?thesis by (auto simp: deliver_def)
    qed
    ultimately have "(\<exists>creds clone input. sy_accepted s c = Some (creds, clone, input)
        \<and> conn_inv rcd c creds input (deliver (reg_of s) (d_registry d') c cn) \<and> cn_loop cn)
      \<and> length (filter is_response (cn_sent (deliver (reg_of s) (d_registry d') c cn)))
        \<le> commands_on (after_turn ev rest d' s) c" by blast }
  then show ?thesis unfolding threads_ok_def by auto
qed

lemma channel_after:
  assumes "channel_ok s c" "sy_inbox s = taken ev @ rest"
  shows "channel_ok (after_turn ev rest d' s) c"
  using assms by (simp add: channel_ok_def option.case_eq_if option.map_sel)

lemma system_inv_turn:
  assumes inv: "system_inv rcd n s" and "n < 2 ^ 32 - 2" "dstep (sy_daemon s) (w, ev) d'" "sy_inbox s = taken ev @ rest"
  shows "system_inv rcd (Suc n) (after_turn ev rest d' s)"
proof -
  from inv obtain k where k: "k \<le> n" "reachable_in k (sy_daemon s)" and ids: "ids_ok n s"
    and ok: "\<And>c. channel_ok s c" "\<And>c. threads_ok rcd s c" "\<And>c. outbox_linked s c"
    unfolding system_inv_def by blast
  from k assms(2) have lim: "k < 2 ^ 32 - 2" by simp
  have dinv: "daemon_inv k (sy_daemon s)" by (rule reachable_inv [OF k(2)]) (use lim in simp)
  have out: "outbox_linked (after_turn ev rest d' s) c" for c by (rule outbox_after [OF dinv lim assms(3,4) ok])
  have "ids_ok (Suc n) (after_turn ev rest d' s)" using ids by (simp add: ids_ok_def le_SucI)
  moreover have "reachable_in (Suc k) d'" by (rule reachable_dstep [OF k(2) assms(3)])
  ultimately show ?thesis
    using k(1) out channel_after [OF ok(1) assms(4)] threads_after [OF out ok(2,3)]
    unfolding system_inv_def by (intro conjI exI [of _ "Suc k"] allI) simp_all
qed

lemma system_inv_accept:
  assumes "system_inv rcd n s" "n < 2 ^ 32 - 2" "fetch_conn_id (sy_next s) = (c, c')"
  shows "system_inv rcd (Suc n) (s\<lparr>sy_next := c', sy_accepted := (sy_accepted s)(c \<mapsto> (creds, clone, input))\<rparr>)"
proof -
  let ?t = "s\<lparr>sy_next := c', sy_accepted := (sy_accepted s)(c \<mapsto> (creds, clone, input))\<rparr>"
  have ids: "ids_ok n s" using assms(1) by (simp add: system_inv_def)
  have c: "c = sy_next s" "c' = sy_next s + 1" using assms(3) by (auto simp: fetch_conn_id_def)
  then have c': "unat c' = Suc (unat c)"
    using ids assms(2) by (simp add: ids_ok_def unat_word_ariths)
  with ids c have "ids_ok (Suc n) ?t" by (auto simp: ids_ok_def less_Suc_eq)
  moreover have "sy_conns s c = None" using ids c(1) unfolding ids_ok_def by (metis less_irrefl)
  then have "threads_ok rcd s i \<Longrightarrow> threads_ok rcd ?t i" for i
    by (auto simp: threads_ok_def commands_on_def handled_on_def)
  moreover have "channel_ok ?t i = channel_ok s i" "outbox_linked ?t i = outbox_linked s i" for i
    by (simp_all add: channel_ok_def outbox_linked_def commands_on_def handled_on_def)
  ultimately show ?thesis using assms(1) unfolding system_inv_def by (auto intro: le_SucI)
qed

text \<open>A connection's own turns: what it posts waits in the channel behind what is there.\<close>

lemma system_inv_conn:
  assumes inv: "system_inv rcd n s" and acc: "sy_accepted s c = Some (creds, clone, input)"
    and cn: "conn_inv rcd c creds input cn'" "cn_loop cn'"
      "cn_posted cn' = (case sy_conns s c of None \<Rightarrow> [] | Some cn \<Rightarrow> cn_posted cn) @ ms" "\<forall>m \<in> set ms. msg_conn m = c"
    and same: "case sy_conns s c of None \<Rightarrow> cn_registry cn' \<and> cn_sent cn' = []
      | Some cn \<Rightarrow> cn_registry cn' = cn_registry cn \<and> cn_sent cn' = cn_sent cn"
  shows "system_inv rcd (Suc n) (s\<lparr>sy_conns := (sy_conns s)(c \<mapsto> cn'), sy_inbox := sy_inbox s @ ms\<rparr>)"
proof -
  let ?t = "s\<lparr>sy_conns := (sy_conns s)(c \<mapsto> cn'), sy_inbox := sy_inbox s @ ms\<rparr>"
  from inv have ok: "channel_ok s i" "threads_ok rcd s i" "outbox_linked s i" for i unfolding system_inv_def by blast+
  have [simp]: "handled_on ?t i = handled_on s i" "commands_on ?t i = commands_on s i" for i
    by (simp_all add: handled_on_def commands_on_def)
  have "channel_ok ?t i" for i
    using ok(1) [of i] cn(3,4) by (cases "i = c") (auto simp: channel_ok_def)
  moreover have "threads_ok rcd ?t i" for i
    using ok(2) [of i] acc cn(1,2) same by (cases "i = c") (auto simp: threads_ok_def split: option.splits)
  moreover have "outbox_linked ?t i" for i
  proof (cases "i = c")
    case True
    have "sy_conns s c \<noteq> None" if "handled_on s c \<noteq> []"
      using ok(1) [of c] that by (auto simp: channel_ok_def split: option.splits)
    with True ok(3) [of c] same show ?thesis
      by (cases "handled_on s c = []") (auto simp: outbox_fresh outbox_known split: option.splits)
  qed (use ok(3) [of i] in \<open>simp add: outbox_linked_def\<close>)
  moreover have "ids_ok (Suc n) ?t" using inv acc by (auto simp: system_inv_def ids_ok_def)
  ultimately show ?thesis using inv unfolding system_inv_def by (auto intro: le_SucI)
qed

lemma system_inv_step:
  assumes "system_inv rcd n s" "n < 2 ^ 32 - 2" "system_step rcd mcd s e s'"
  shows "system_inv rcd (Suc n) s'"
  using assms(3)
proof cases
  case (accept c n' creds clone input)
  with system_inv_accept [OF assms(1,2)] show ?thesis by simp
next
  case (opens c creds clone input cn)
  from connection_opened [OF opens(5)] opens(3-) show ?thesis
    unfolding opens(2) by (intro system_inv_conn [OF assms(1) opens(3)]) auto
next
  case (turns c cn e' cn')
  from assms(1) turns(3) obtain creds clone input where acc: "sy_accepted s c = Some (creds, clone, input)"
    and inv: "conn_inv rcd c creds input cn" "cn_loop cn" unfolding system_inv_def threads_ok_def by blast
  then have "cn_id cn = c" by (simp add: conn_inv_def)
  with thread_turn [OF turns(5,4)] inv turns(3) show ?thesis
    unfolding turns(2) by (intro system_inv_conn [OF assms(1) acc conn_inv_step [OF inv(1) turns(5)]]) auto
next
  case (handles m rest w d')
  have "sy_inbox s = taken (IpcEvent m) @ rest" using handles(3) by simp
  from system_inv_turn [OF assms(1,2) handles(4) this] show ?thesis by (simp add: handles(2) after_turn_def)
next
  case (elapses ev w d')
  then have none: "taken ev = []" by (cases ev) auto
  then have "sy_inbox s = taken ev @ sy_inbox s" by simp
  moreover have "s' = after_turn ev (sy_inbox s) d' s" using none by (simp add: elapses(2) after_turn_def daemon_turn_def)
  ultimately show ?thesis using system_inv_turn [OF assms(1,2) elapses(4)] by simp
qed

lemma system_inv_start:
  assumes "system_start s"
  shows "system_inv rcd 0 s"
proof -
  from assms obtain w os cfg where s: "s = system_init (daemon_startup w os cfg)"
    by (auto simp: system_start_def initial_daemon_def)
  let ?d = "daemon_startup w os cfg"
  have "d_registry ?d = registry_new" "\<exists>uid. d_elevation ?d = set_requester_uid uid em_new"
    by (auto simp: daemon_startup_def daemon_new_def Let_def split: sum.split)
  then have "\<not> registered (d_registry ?d) c" "owed (d_elevation ?d) c = 0" for c
    by (auto simp: registered_def registry_new_def owed_def set_requester_uid_def em_new_def)
  then show ?thesis
    using reachable_startup [of w os cfg]
    by (auto simp: s system_inv_def system_init_def ids_ok_def channel_ok_def threads_ok_def outbox_linked_def handled_on_def)
qed

interpretation system_runs: bounded_invariant "system_step rcd mcd" system_start "system_inv rcd" "2 ^ 32 - 2" for rcd mcd
  by unfold_locales (rule system_inv_start, assumption, rule system_inv_step)

subsection \<open>Schedules\<close>

lemma thread_exec_step: "thread_exec rcd mcd e s = Some t \<Longrightarrow> conn_step rcd mcd s e t \<and> \<not> daemon_side e"
  by (cases e) (auto intro: conn_step.intros split: if_splits list.splits)

lemma system_exec_step: "system_exec rcd mcd e s = Some t \<Longrightarrow> system_step rcd mcd s e t"
  by (cases e) (auto intro!: system_step.intros dstep dest: thread_exec_step split: prod.splits option.splits list.splits)

lemma exec_all_run:
  assumes "exec_all rcd mcd es t = Some u" "run (system_step rcd mcd) s ds t"
  shows "run (system_step rcd mcd) s (ds @ es) u"
  using assms
proof (induction es arbitrary: t ds)
  case (Cons e es)
  then obtain t' where t': "system_exec rcd mcd e t = Some t'" "exec_all rcd mcd es t' = Some u"
    by (auto split: option.splits)
  have "run (system_step rcd mcd) s (ds @ [e]) t'" by (rule run_step [OF Cons.prems(2) system_exec_step [OF t'(1)]])
  from Cons.IH [OF t'(2) this] show ?case by simp
qed simp

lemma script_read:
  "read_message script_codec \<lparr>st_bytes = 1 # 0 # 0 # 0 # b # rest, st_end = eof\<rparr> =
     (\<lparr>st_bytes = rest, st_end = eof\<rparr>, map_err from_bincode (deserialize script_codec [b]))"
  by (subst read_message_frame [where payload = "[b]" and rest = rest])
     (simp_all add: max_message_len_def frame_def to_le_bytes_def)

lemma script_requests:
  "deserialize script_codec [0] = Inr (CreateSession ''alice'' None None)"
  "deserialize script_codec [1] = Inr (RegisterCompositor 1)"
  "deserialize script_codec [2] = Inr (LockSession 1)"
  "deserialize script_codec [3] = Inr (Unlock 1 ''alice'' ''hunter2'')"
  by (simp_all add: script_codec_def)

lemmas script_evals = unlock_script_def script_start_def system_init_def fetch_conn_id_def connection_start_def
  peer_credentials_def reader_turn_def post_def script_read script_requests map_err_def

lemma handle_all:
  assumes "run (system_step rcd mcd) s ds t" "sy_inbox t = ms @ rest"
  shows "\<exists>u. run (system_step rcd mcd) s (ds @ replicate (length ms) (Handle sample_world)) u
    \<and> sy_daemon u = run_events (map IpcEvent ms) (sy_daemon t) \<and> sy_inbox u = rest"
  using assms
proof (induction ms arbitrary: t ds)
  case Nil
  then show ?case by (auto simp: run_events_def)
next
  case (Cons m ms)
  let ?t = "(daemon_turn (daemon_event sample_world (IpcEvent m) (sy_daemon t)) t)\<lparr>sy_inbox := ms @ rest, sy_handled := sy_handled t @ [m]\<rparr>"
  have "system_step rcd mcd t (Handle sample_world) ?t" using Cons.prems(2) by (intro handles dstep) simp_all
  from Cons.IH [OF run_step [OF Cons.prems(1) this]] show ?case
    by (simp add: daemon_turn_def run_events_def)
qed

lemma script_starts: "system_start script_start"
  by (auto simp: system_start_def script_start_def initial_daemon_def)

text \<open>The channel after the first schedule, and the daemon once all but the last message is handled.\<close>

lemma unlock_script_run:
  "\<exists>s es. run (system_step script_codec blank_codec) script_start es s \<and> length es = 16 \<and> sy_daemon s = locked_daemon
     \<and> sy_inbox s = [Command 2 alice_cred (Unlock 1 ''alice'' ''hunter2'')]"
proof -
  let ?ms = "[Connected 1 root_cred, Connected 2 alice_cred, Connected 3 mallory_cred,
     Command 1 root_cred (CreateSession ''alice'' None None), Command 2 alice_cred (RegisterCompositor 1),
     Command 2 alice_cred (LockSession 1)]"
  have "\<exists>t. exec_all script_codec blank_codec unlock_script script_start = Some t
      \<and> sy_inbox t = ?ms @ [Command 2 alice_cred (Unlock 1 ''alice'' ''hunter2'')]
      \<and> sy_daemon t = daemon_startup sample_world sample_udev default_settings"
    by (simp add: script_evals)
  then obtain t where t: "exec_all script_codec blank_codec unlock_script script_start = Some t"
    "sy_inbox t = ?ms @ [Command 2 alice_cred (Unlock 1 ''alice'' ''hunter2'')]"
    "sy_daemon t = daemon_startup sample_world sample_udev default_settings" by blast
  note t(3)
  moreover have "run_events (map IpcEvent ?ms) (daemon_startup sample_world sample_udev default_settings) = locked_daemon"
    by (simp add: locked_daemon_def sample_daemon_def run_events_def)
  moreover obtain u where u: "run (system_step script_codec blank_codec) script_start
      (([] @ unlock_script) @ replicate (length ?ms) (Handle sample_world)) u"
    "sy_daemon u = run_events (map IpcEvent ?ms) (sy_daemon t)" "sy_inbox u = [Command 2 alice_cred (Unlock 1 ''alice'' ''hunter2'')]"
    using handle_all [OF exec_all_run [OF t(1) run_start] t(2)] by blast
  ultimately have "sy_daemon u = locked_daemon" by simp
  moreover have "length (([] @ unlock_script) @ replicate (length ?ms) (Handle sample_world)) = 16" by (simp add: unlock_script_def)
  ultimately show ?thesis using u(1,3) by blast
qed

subsection \<open>Unlocking\<close>

lemma dstep_unlocks:
  assumes "daemon_inv n d" "n < 2 ^ 32 - 2" "dstep d (w, ev) u" "lm_is_locked (d_locks d) sid" "\<not> lm_is_locked (d_locks u) sid"
  shows "\<not> lm_is_locked (d_locks (daemon_event w ev d)) sid"
proof -
  have "dstep d (w, ev) (daemon_event w ev d)" by (rule dstep) simp
  then have "daemon_inv (Suc n) (daemon_event w ev d)" by (rule daemon_runs.inv_step [OF assms(1,2)])
  then have "lm_ok (d_locks (daemon_event w ev d))" by (simp add: daemon_inv_def locks_safe_def)
  moreover have "same_locks (d_locks (daemon_event w ev d)) (d_locks u)" using assms(3) by (auto simp: same_daemon_def elim!: dstepE)
  ultimately show ?thesis using assms(5) by (simp add: lm_is_locked_iff locks_same_state)
qed

text \<open>A command in the channel was read from the socket of its connection.\<close>

lemma waiting_command:
  assumes "system_inv rcd n s" "Command c peer r \<in> set (sy_inbox s)"
  shows "\<exists>creds clone input. sy_accepted s c = Some (creds, clone, input) \<and> peer_credentials creds = Inr peer
    \<and> Command c peer r \<in> set (read_loop rcd c peer input)"
proof -
  from assms(1) have ok: "channel_ok s c" "threads_ok rcd s c" by (simp_all add: system_inv_def)
  from assms(2) have "Command c peer r \<in> set (handled_on s c @ filter (\<lambda>m. msg_conn m = c) (sy_inbox s))" by simp
  with ok(1) obtain cn where cn: "sy_conns s c = Some cn" "Command c peer r \<in> set (cn_posted cn)"
    unfolding channel_ok_def by (cases "sy_conns s c") auto
  from ok(2) cn(1) obtain creds clone input where acc: "sy_accepted s c = Some (creds, clone, input)"
    and inv: "conn_inv rcd c creds input cn" unfolding threads_ok_def by blast
  from inv cn(2) have "Command c peer r \<in> set (read_loop rcd c (cn_peer cn) input)" "peer_credentials creds = Inr (cn_peer cn)"
    by (auto simp: conn_inv_def posted_ok_def)
  moreover from this(1) read_loop_commands [of rcd c "cn_peer cn" input] have "cn_peer cn = peer" by auto
  ultimately show ?thesis using acc by blast
qed

subsection \<open>Properties\<close>

text \<open>
  C3. From the socket to the lock. In every run of the daemon with all its connections, accepting,
  reading, writing and handling messages in any order, a step that opens a locked session is the
  handling of a message that the daemon took off its channel, and that message is an \<open>Unlock\<close> request
  for this session which is in the bytes a peer sent on its socket; the kernel says of that socket that
  its peer is root or the owner of the session, and PAM accepts the credential in the request.
\<close>

theorem unlock_comes_from_the_socket:
  assumes "system_start s0" "run (system_step rcd mcd) s0 es s" "length es < 2 ^ 32 - 2" "system_step rcd mcd s e s'"
    and "lm_is_locked (d_locks (sy_daemon s)) sid" "\<not> lm_is_locked (d_locks (sy_daemon s')) sid"
  shows "\<exists>w c creds clone input peer name password. e = Handle w
    \<and> sy_accepted s c = Some (creds, clone, input) \<and> peer_credentials creds = Inr peer
    \<and> Command c peer (Unlock sid name password) \<in> set (read_loop rcd c peer input)
    \<and> (peer_is_root peer \<or> (\<exists>ctx. hm_get (sm_sessions (d_sessions (sy_daemon s))) sid = Some ctx
          \<and> sess_uid (ctx_session ctx) = peer_uid peer))
    \<and> pam_authenticate (w_pam w) (d_authenticator (sy_daemon s))
        \<lparr>req_session_id = sid, req_user_name = name, req_password = password\<rparr> = Inr ()"
proof -
  have inv: "system_inv rcd (length es) s" using system_runs.run_inv [OF assms(2,1)] assms(3) by simp
  then obtain k where "k \<le> length es" "reachable_in k (sy_daemon s)" unfolding system_inv_def by blast
  with assms(3) have k: "k < 2 ^ 32 - 2" "daemon_inv k (sy_daemon s)" by (auto intro: reachable_inv)
  have turn: "\<exists>conn peer name password. ev = IpcEvent (Command conn peer (Unlock sid name password))
      \<and> (peer_is_root peer \<or> (\<exists>ctx. hm_get (sm_sessions (d_sessions (sy_daemon s))) sid = Some ctx
            \<and> sess_uid (ctx_session ctx) = peer_uid peer))
      \<and> pam_authenticate (w_pam w) (d_authenticator (sy_daemon s))
          \<lparr>req_session_id = sid, req_user_name = name, req_password = password\<rparr> = Inr ()"
    if "dstep (sy_daemon s) (w, ev) (sy_daemon s')" for w ev
    using released_by_accepted_unlock [OF assms(5) dstep_unlocks [OF k(2,1) that assms(5,6)]] by blast
  from assms(4) show ?thesis
  proof cases
    case (handles m rest w d')
    then have "sy_daemon s' = d'" by (simp add: daemon_turn_def)
    with turn [of w "IpcEvent m"] handles(4) obtain conn peer name password where
      m: "m = Command conn peer (Unlock sid name password)" and
      facts: "peer_is_root peer \<or> (\<exists>ctx. hm_get (sm_sessions (d_sessions (sy_daemon s))) sid = Some ctx
            \<and> sess_uid (ctx_session ctx) = peer_uid peer)"
        "pam_authenticate (w_pam w) (d_authenticator (sy_daemon s))
          \<lparr>req_session_id = sid, req_user_name = name, req_password = password\<rparr> = Inr ()" by auto
    have "Command conn peer (Unlock sid name password) \<in> set (sy_inbox s)" using handles(3) m by simp
    from waiting_command [OF inv this] facts handles(1) show ?thesis by blast
  next
    case (elapses ev w d')
    then have "dstep (sy_daemon s) (w, ev) (sy_daemon s')" by (simp add: daemon_turn_def)
    with turn elapses(3) show ?thesis by blast
  qed (use assms(5,6) in simp_all)
qed

theorem unlock_comes_from_the_socket_witness:
  "\<exists>s s'. system_step script_codec blank_codec s (Handle sample_world) s' \<and> sy_daemon s = locked_daemon
    \<and> (\<exists>c creds clone input peer name password. sy_accepted s c = Some (creds, clone, input) \<and> peer_credentials creds = Inr peer
      \<and> Command c peer (Unlock 1 name password) \<in> set (read_loop script_codec c peer input))"
proof -
  from unlock_script_run obtain s es where s: "run (system_step script_codec blank_codec) script_start es s" "length es = 16"
    "sy_daemon s = locked_daemon" "sy_inbox s = [Command 2 alice_cred (Unlock 1 ''alice'' ''hunter2'')]" by blast
  let ?d = "daemon_event sample_world (IpcEvent (Command 2 alice_cred (Unlock 1 ''alice'' ''hunter2''))) locked_daemon"
  let ?s = "(daemon_turn ?d s)\<lparr>sy_inbox := [], sy_handled := sy_handled s @ [Command 2 alice_cred (Unlock 1 ''alice'' ''hunter2'')]\<rparr>"
  have step: "system_step script_codec blank_codec s (Handle sample_world) ?s"
    by (rule handles [OF s(4)]) (simp add: dstep s(3))
  have lim: "length es < 2 ^ 32 - 2" using s(2) by simp
  have locked: "lm_is_locked (d_locks locked_daemon) 1" by code_simp
  then have before: "lm_is_locked (d_locks (sy_daemon s)) 1" by (simp only: s(3))
  have "\<not> lm_is_locked (d_locks ?d) 1" by code_simp
  then have after: "\<not> lm_is_locked (d_locks (sy_daemon ?s)) 1" by (simp add: daemon_turn_def del: handle_ipc.simps)
  from unlock_comes_from_the_socket [OF script_starts s(1) lim step before after] step s(3) show ?thesis by blast
qed

text \<open>
  C7. Every request is answered. In every such run, the commands of a connection the daemon has handled are
  the first of those in the bytes the peer sent, in order, and the responses written back are never more
  than these. Once the peer has stopped sending, its messages are taken and its outbox is
  drained, and as long as it is registered, no write failed and no prompt of its is open, there is one
  response on its socket for each request in its bytes.
\<close>

theorem system_answers_every_request:
  assumes "system_start s0" "run (system_step rcd mcd) s0 es s" "length es \<le> 2 ^ 32 - 2" "sy_conns s c = Some cn"
  shows "\<exists>creds clone input peer. sy_accepted s c = Some (creds, clone, input) \<and> peer_credentials creds = Inr peer
    \<and> prefix (filter is_command (handled_on s c)) (read_loop rcd c peer input)
    \<and> length (filter is_response (cn_written cn)) \<le> commands_on s c
    \<and> (cn_phase cn \<noteq> Reading \<and> (\<forall>m \<in> set (sy_inbox s). msg_conn m \<noteq> c) \<and> cn_queue cn = [] \<and> \<not> cn_write_failed cn
        \<and> registered (d_registry (sy_daemon s)) c \<and> owed (d_elevation (sy_daemon s)) c = 0 \<longrightarrow>
          length (filter is_response (cn_written cn)) = length (read_loop rcd c peer input))"
proof -
  have "system_inv rcd (length es) s" using system_runs.run_inv [OF assms(2,1)] assms(3) by simp
  then have ok: "channel_ok s c" "threads_ok rcd s c" "outbox_linked s c" by (simp_all add: system_inv_def)
  from ok(2) assms(4) obtain creds clone input where acc: "sy_accepted s c = Some (creds, clone, input)"
    and inv: "conn_inv rcd c creds input cn" "cn_loop cn" "length (filter is_response (cn_sent cn)) \<le> commands_on s c"
    unfolding threads_ok_def by blast
  let ?peer = "cn_peer cn" and ?loop = "read_loop rcd c (cn_peer cn) input"
  note all = posted_commands [OF inv(1,2)]
  have posted: "handled_on s c @ filter (\<lambda>m. msg_conn m = c) (sy_inbox s) = cn_posted cn"
    using ok(1) assms(4) by (simp add: channel_ok_def)
  from arg_cong [OF this, of "filter is_command"] have
    "filter is_command (handled_on s c) @ filter is_command (filter (\<lambda>m. msg_conn m = c) (sy_inbox s)) = filter is_command (cn_posted cn)"
    by simp
  with all(1) have pre: "prefix (filter is_command (handled_on s c)) ?loop" by (metis prefixI prefix_order.trans)
  have "prefix (cn_written cn) (cn_sent cn)" using inv(1) by (auto simp: conn_inv_def outbox_ok_def split: if_splits)
  then have "length (filter is_response (cn_written cn)) \<le> commands_on s c" using inv(3) by (auto simp: prefix_def)
  moreover have "cn_phase cn \<noteq> Reading \<and> (\<forall>m \<in> set (sy_inbox s). msg_conn m \<noteq> c) \<and> cn_queue cn = [] \<and> \<not> cn_write_failed cn
      \<and> registered (d_registry (sy_daemon s)) c \<and> owed (d_elevation (sy_daemon s)) c = 0 \<longrightarrow>
        length (filter is_response (cn_written cn)) = length ?loop"
  proof (intro impI, elim conjE)
    assume quiet: "cn_phase cn \<noteq> Reading" "\<forall>m \<in> set (sy_inbox s). msg_conn m \<noteq> c" "cn_queue cn = []" "\<not> cn_write_failed cn"
      "registered (d_registry (sy_daemon s)) c" "owed (d_elevation (sy_daemon s)) c = 0"
    have handled: "handled_on s c = cn_posted cn" using posted filter_False [of "sy_inbox s" "\<lambda>m. msg_conn m = c"] quiet(2) by simp
    obtain cmds where "cn_posted cn = Connected c ?peer # cmds" using posted_head [OF inv(1)] by blast
    with handled have known: "handled_on s c \<noteq> []" by simp
    from ok(3) quiet(5,6) assms(4) have link: "cn_registry cn" "cn_sent cn = sent_to (reg_of s) c" "replies (reg_of s) c = commands_on s c"
      unfolding outbox_known [OF known] by simp_all
    then have "cn_written cn = sent_to (reg_of s) c"
      using inv(1) quiet(3,4) by (simp add: conn_inv_def outbox_ok_def split: if_splits)
    then show "length (filter is_response (cn_written cn)) = length ?loop" using link(3) handled all(2) [OF quiet(1)] by (simp add: replies_def commands_on_def)
  qed
  moreover have "peer_credentials creds = Inr ?peer" using inv(1) by (simp add: conn_inv_def)
  ultimately show ?thesis
    using acc pre by (intro exI [of _ creds] exI [of _ clone] exI [of _ input] exI [of _ ?peer] conjI)
qed

theorem system_answers_every_request_witness:
  "\<exists>s cn. exec_all script_codec blank_codec answer_script script_start = Some s \<and> sy_conns s 1 = Some cn
    \<and> length (filter is_response (cn_written cn)) = 1"
proof -
  let ?in = "\<lparr>st_bytes = [1, 0, 0, 0, 2], st_end = eof\<rparr>"
  have "case exec_all script_codec blank_codec answer_script script_start of None \<Rightarrow> False | Some s \<Rightarrow>
      (case sy_conns s 1 of None \<Rightarrow> False | Some cn \<Rightarrow>
        sy_accepted s 1 = Some (Inr root_cred, Inr (), ?in) \<and> cn_phase cn = Joining \<and> sy_inbox s = [] \<and> cn_queue cn = []
        \<and> \<not> cn_write_failed cn \<and> registered (d_registry (sy_daemon s)) 1 \<and> owed (d_elevation (sy_daemon s)) 1 = 0)"
    by code_simp
  then obtain s cn where s: "exec_all script_codec blank_codec answer_script script_start = Some s" "sy_conns s 1 = Some cn"
    and acc: "sy_accepted s 1 = Some (Inr root_cred, Inr (), ?in)"
    and quiet: "cn_phase cn \<noteq> Reading \<and> (\<forall>m \<in> set (sy_inbox s). msg_conn m \<noteq> 1) \<and> cn_queue cn = [] \<and> \<not> cn_write_failed cn
        \<and> registered (d_registry (sy_daemon s)) 1 \<and> owed (d_elevation (sy_daemon s)) 1 = 0"
    by (simp split: option.splits)
  have len: "length ([] @ answer_script) \<le> 2 ^ 32 - 2" by (simp add: answer_script_def)
  have one: "length (read_loop script_codec 1 root_cred ?in) = 1"
    by (subst read_loop.simps) (simp add: script_evals, subst read_loop.simps, simp add: read_message_eof)
  from system_answers_every_request [OF script_starts exec_all_run [OF s(1) run_start] len s(2)]
  obtain creds clone input peer where got: "sy_accepted s 1 = Some (creds, clone, input)" "peer_credentials creds = Inr peer"
    and "length (filter is_response (cn_written cn)) = length (read_loop script_codec 1 peer input)"
    by (elim exE conjE) (drule mp [OF _ quiet], rule that)
  moreover have "input = ?in \<and> peer = root_cred" using acc got by (simp add: peer_credentials_def)
  ultimately have "length (filter is_response (cn_written cn)) = 1" using one by simp
  with s show ?thesis by blast
qed

end
