(* ===== verification/Hang_Up.thy ===== *)
theory Hang_Up
  imports System
begin

section \<open>When the daemon lets go of a connection\<close>

text \<open>
  The registry of \<open>src/main.rs\<close> holds a sender for every connection, and the thread that writes to the socket in
  \<open>src/ipc/server.rs\<close> lives as long as one exists. Here are all the ways a connection leaves the
  registry, in every run of the daemon with its connections.
\<close>

subsection \<open>A compositor that exits\<close>

text \<open>A session that still has a compositor connection afterwards has the connection and the process it had.\<close>

definition compositors_kept :: "daemon \<Rightarrow> daemon \<Rightarrow> bool" where
  "compositors_kept d d' \<longleftrightarrow>
     (\<forall>sid ctx' c. hm_get (sm_sessions (d_sessions d')) sid = Some ctx' \<and> ctx_compositor_conn ctx' = Some c \<longrightarrow>
        (\<exists>ctx. hm_get (sm_sessions (d_sessions d)) sid = Some ctx \<and> ctx_compositor_conn ctx = Some c
           \<and> ctx_compositor_process ctx = ctx_compositor_process ctx'))"

text \<open>The session \<open>i\<close> has no compositor connection any more, and every other one is as it was.\<close>

definition compositor_cleared :: "session_id \<Rightarrow> daemon \<Rightarrow> daemon \<Rightarrow> bool" where
  "compositor_cleared i d d' \<longleftrightarrow>
     (\<forall>sid ctx. hm_get (sm_sessions (d_sessions d')) sid = Some ctx \<longrightarrow>
        (if sid = i then ctx_compositor_conn ctx = None else hm_get (sm_sessions (d_sessions d)) sid = Some ctx))"

definition compositor_of :: "daemon \<Rightarrow> conn_id \<Rightarrow> u32 \<Rightarrow> bool" where
  "compositor_of d c pid \<longleftrightarrow>
     (\<exists>ctx \<in> set (sm_list (d_sessions d)). ctx_compositor_conn ctx = Some c \<and> ctx_compositor_process ctx = Some pid)"

text \<open>A schedule: a peer asks for something, hangs up, and its answer cannot be written.\<close>

definition broken_pipe :: "write_op \<Rightarrow> io_error + unit" where
  "broken_pipe op = Inl \<lparr>io_kind = OtherKind, io_text = ''Broken pipe''\<rparr>"

definition hang_up_script :: "system_event list" where
  "hang_up_script =
     [Accept (Inr root_cred) (Inr ()) \<lparr>st_bytes = [1, 0, 0, 0, 2], st_end = eof\<rparr>, Open 1, ThreadTurn 1 ReaderReads,
      ThreadTurn 1 ReaderReads, Handle sample_world, Handle sample_world, ThreadTurn 1 (WriterWrites broken_pipe),
      ThreadTurn 1 ReaderJoins]"

lemma compositor_of_iff:
  assumes "hm_ok (sm_sessions (d_sessions d))"
  shows "compositor_of d c pid \<longleftrightarrow>
    (\<exists>sid ctx. hm_get (sm_sessions (d_sessions d)) sid = Some ctx \<and> ctx_compositor_conn ctx = Some c
       \<and> ctx_compositor_process ctx = Some pid)"
  unfolding compositor_of_def sm_list_def Bex_def set_hm_values [OF assms] by blast

lemma compositors_kept_refl [simp]: "compositors_kept d d"
  by (simp add: compositors_kept_def)

lemma cleared_modify:
  assumes "compositor_cleared i d d'" "\<And>ctx. ctx_compositor_conn ctx = None \<Longrightarrow> ctx_compositor_conn (f ctx) = None"
  shows "compositor_cleared i d (d_modify_session i f d')"
  using assms unfolding compositor_cleared_def d_modify_session_def by (auto split: if_splits)

lemma cleared_frame [simp]:
  "compositor_cleared i d (emit effs d') = compositor_cleared i d d'"
  "compositor_cleared i d (d'\<lparr>d_registry := reg\<rparr>) = compositor_cleared i d d'"
  by (simp_all add: compositor_cleared_def)

lemma cleared_spawn: "compositor_cleared i d d' \<Longrightarrow> compositor_cleared i d (try_spawn_compositor w i d')"
  by (auto simp: try_spawn_compositor_def intro!: cleared_modify split: sum.splits prod.splits)

lemma cleared_start:
  "(\<And>ctx. ctx_compositor_conn (f ctx) = None) \<Longrightarrow> compositor_cleared i d (d_modify_session i f d)"
  unfolding compositor_cleared_def d_modify_session_def by auto

lemma cleared_exit:
  assumes "session_of_pid (d_sessions d) pid = Some ctx"
  shows "compositor_cleared (ctx_id ctx) d (handle_compositor_exit w pid d)"
  unfolding handle_compositor_exit_def assms option.case Let_def
  by (auto intro!: cleared_spawn cleared_modify cleared_start
      split: option.splits sum.splits prod.splits restart_decision.splits)

lemma exit_compositors: "compositors_kept d (handle_compositor_exit w pid d)"
proof (cases "session_of_pid (d_sessions d) pid")
  case (Some ctx)
  from cleared_exit [OF this] show ?thesis
    unfolding compositor_cleared_def compositors_kept_def by (force split: if_splits)
qed (simp add: handle_compositor_exit_def)

lemma exit_drops:
  assumes "registered (d_registry d) c" "\<not> registered (d_registry (handle_compositor_exit w pid d)) c"
  shows "compositor_of d c pid"
proof (cases "session_of_pid (d_sessions d) pid")
  case (Some ctx)
  then have "ctx \<in> set (sm_list (d_sessions d))" "ctx_compositor_process ctx = Some pid"
    by (auto simp: session_of_pid_def find_Some_iff)
  moreover have "ctx_compositor_conn ctx = Some c"
    using assms Some
    by (auto simp: handle_compositor_exit_def try_spawn_compositor_def d_modify_session_def Let_def
        split: if_splits option.splits sum.splits prod.splits restart_decision.splits)
  ultimately show ?thesis unfolding compositor_of_def by blast
qed (use assms in \<open>simp add: handle_compositor_exit_def\<close>)

lemma kept_compositor:
  assumes "compositors_kept d d'" "sessions_safe d" "sessions_safe d'" "compositor_of d' c pid"
  shows "compositor_of d c pid"
proof -
  have "hm_ok (sm_sessions (d_sessions d))" "hm_ok (sm_sessions (d_sessions d'))"
    using assms(2,3) by (simp_all add: sessions_safe_def sm_inv_def)
  with assms(1,4) show ?thesis unfolding compositors_kept_def by (auto simp: compositor_of_iff) metis
qed

lemma reap_drops:
  assumes "sessions_safe d" "registered (d_registry d) c" "\<not> registered (d_registry (reap_children w ws d)) c"
  shows "\<exists>pid. ChildStatus (Some pid) \<in> set ws \<and> compositor_of d c pid"
  using assms
proof (induction w ws d rule: reap_children.induct)
  case (5 w pid rest d)
  let ?d = "handle_compositor_exit w pid d"
  show ?case
  proof (cases "registered (d_registry ?d) c")
    case True
    with 5 obtain q where "ChildStatus (Some q) \<in> set rest" "compositor_of ?d c q"
      by (auto simp: sessions_safe_exit)
    with kept_compositor [OF exit_compositors 5(2) sessions_safe_exit [OF 5(2)]] show ?thesis by auto
  next
    case False
    with exit_drops [OF 5(3)] show ?thesis by auto
  qed
qed auto

subsection \<open>Every other callback\<close>

lemma command_registered:
  assumes "hm_ok (em_pending (d_elevation d))"
  shows "registered (d_registry (handle_command w conn peer r d)) c = registered (d_registry d) c"
  using dispatch_registered [OF assms, of w conn peer r c]
  by (auto simp: handle_command_def d_send_response_def split: sum.split prod.split option.split)

lemma tick_registered: "registered (d_registry (on_idle_tick w d)) c = registered (d_registry d) c"
proof -
  have "quiet (d_registry d) (d_registry (fold (handle_idle_change w p) chs (d\<lparr>d_idle := det\<rparr>)))" for p chs det
    using quiet_idle_changes [of "d\<lparr>d_idle := det\<rparr>"] by simp
  from quietD [OF this] show ?thesis by (simp add: on_idle_tick_def Let_def split: prod.split)
qed

lemma event_drops:
  assumes "daemon_inv n d" "registered (d_registry d) c" "\<not> registered (d_registry (daemon_event w ev d)) c"
  shows "ev = IpcEvent (Disconnected c)
    \<or> (\<exists>sig ws pid. ev = SignalEvent sig ws \<and> ChildStatus (Some pid) \<in> set ws \<and> compositor_of d c pid)"
proof (cases ev)
  case (IpcEvent m)
  have "hm_ok (em_pending (d_elevation d))" using assms(1) by (simp add: daemon_inv_def elev_safe_def em_inv_def)
  with assms(2,3) IpcEvent command_registered show ?thesis
    by (cases m) (auto simp: Let_def split: prod.splits)
next
  case TickEvent
  with assms(2,3) show ?thesis by (simp add: tick_registered)
next
  case (SignalEvent sig ws)
  have safe: "sessions_safe d" using assms(1) by (simp add: daemon_inv_def)
  from SignalEvent assms(2,3) have "classify_signal sig = Some ReapChildren"
    by (cases "classify_signal sig"; cases "the (classify_signal sig)")
       (auto simp: Let_def reload_config_def split: prod.splits sum.splits)
  with SignalEvent assms(3) have "\<not> registered (d_registry (reap_children w ws d)) c" by simp
  from reap_drops [OF safe assms(2) this] SignalEvent show ?thesis by blast
qed

lemma dstep_drops:
  assumes "daemon_inv n d" "dstep d (w, ev) u" "registered (d_registry d) c" "\<not> registered (d_registry u) c"
  shows "ev = IpcEvent (Disconnected c)
    \<or> (\<exists>sig ws pid. ev = SignalEvent sig ws \<and> ChildStatus (Some pid) \<in> set ws \<and> compositor_of d c pid)"
  using assms(2,4) by (intro event_drops [OF assms(1,3), of w]) (auto simp: same_daemon_def elim!: dstepE)

subsection \<open>The connection's own threads\<close>

text \<open>
  While the registry holds the sender of a connection its writer ends only with a failed write, and the
  reader posts \<open>Disconnected\<close> only after the writer has ended.
\<close>

lemma posted_disconnect:
  assumes "conn_inv rcd c creds input cn" "Disconnected c \<in> set (cn_posted cn)" "cn_registry cn"
  shows "cn_write_failed cn"
proof -
  from assms(1) have id: "cn_id cn = c" by (simp add: conn_inv_def)
  from assms(1) obtain cmds rest where "read_loop rcd c (cn_peer cn) input = cmds @ rest"
    "cn_posted cn = Connected c (cn_peer cn) # cmds \<or> cn_phase cn = Finished" unfolding conn_inv_def posted_ok_def id by blast
  moreover from this(1) read_loop_commands [of rcd c "cn_peer cn" input] have "Disconnected c \<notin> set cmds" by auto
  ultimately have "cn_phase cn = Finished" using assms(2) by auto
  with assms(1,3) show ?thesis by (auto simp: conn_inv_def outbox_ok_def)
qed

subsection \<open>Properties\<close>

text \<open>
  C25. A connection is let go only after a failed write or with its compositor. In every run of the daemon
  with all its connections, a step after which a connection is no longer registered either handles the
  \<open>Disconnected\<close> message of this connection, and then a write to its socket has failed, or reaps a process
  that was the compositor of a session with this connection. So a peer that merely hangs up stays
  registered, and its open prompts and its place as a compositor stay with it, until the daemon has
  something to write to it.
\<close>

theorem connection_dropped_only_by:
  assumes "system_start s0" "run (system_step rcd mcd) s0 es s" "length es < 2 ^ 32 - 2" "system_step rcd mcd s e s'"
    and "registered (d_registry (sy_daemon s)) c" "\<not> registered (d_registry (sy_daemon s')) c"
  shows "(\<exists>w rest cn. e = Handle w \<and> sy_inbox s = Disconnected c # rest \<and> sy_conns s c = Some cn \<and> cn_write_failed cn)
    \<or> (\<exists>w sig ws pid. e = Elapse w (SignalEvent sig ws) \<and> ChildStatus (Some pid) \<in> set ws
          \<and> compositor_of (sy_daemon s) c pid)"
proof -
  have inv: "system_inv rcd (length es) s" using system_runs.run_inv [OF assms(2,1)] assms(3) by simp
  then obtain k where "k \<le> length es" "reachable_in k (sy_daemon s)" unfolding system_inv_def by blast
  with assms(3) have k: "daemon_inv k (sy_daemon s)" by (auto intro: reachable_inv)
  from inv have ok: "channel_ok s c" "threads_ok rcd s c" "outbox_linked s c" unfolding system_inv_def by blast+
  from assms(4) show ?thesis
  proof cases
    case (handles m rest w d')
    then have "sy_daemon s' = d'" by (simp add: daemon_turn_def)
    with dstep_drops [OF k handles(4) assms(5)] assms(6) have m: "m = Disconnected c" by blast
    have "Disconnected c \<in> set (handled_on s c @ filter (\<lambda>m. msg_conn m = c) (sy_inbox s))" by (simp add: handles(3) m)
    then obtain cn where cn: "sy_conns s c = Some cn" "Disconnected c \<in> set (cn_posted cn)"
      using ok(1) unfolding channel_ok_def by (cases "sy_conns s c") simp_all
    with ok(2) obtain creds clone input where "conn_inv rcd c creds input cn" unfolding threads_ok_def by blast
    moreover have "cn_registry cn" using ok(3) assms(5) cn(1) by (simp add: outbox_linked_def split: if_splits)
    ultimately have "cn_write_failed cn" using posted_disconnect cn(2) by blast
    with handles(1,3) m cn(1) show ?thesis by blast
  next
    case (elapses ev w d')
    then have "sy_daemon s' = d'" by (simp add: daemon_turn_def)
    with dstep_drops [OF k elapses(4) assms(5)] assms(6) elapses(1,3) show ?thesis by blast
  qed (use assms(5,6) in simp_all)
qed

theorem connection_dropped_only_by_witness:
  "\<exists>s s'. exec_all script_codec blank_codec hang_up_script script_start = Some s
    \<and> system_step script_codec blank_codec s (Handle sample_world) s' \<and> \<not> registered (d_registry (sy_daemon s')) 1
    \<and> (\<exists>cn. sy_conns s 1 = Some cn \<and> cn_write_failed cn)"
proof -
  have "case exec_all script_codec blank_codec hang_up_script script_start of None \<Rightarrow> False | Some s \<Rightarrow>
      registered (d_registry (sy_daemon s)) 1
      \<and> (case system_exec script_codec blank_codec (Handle sample_world) s of None \<Rightarrow> False | Some s' \<Rightarrow>
           \<not> registered (d_registry (sy_daemon s')) 1)" by code_simp
  then obtain s s' where s: "exec_all script_codec blank_codec hang_up_script script_start = Some s"
    "system_exec script_codec blank_codec (Handle sample_world) s = Some s'"
    and drops: "registered (d_registry (sy_daemon s)) 1" "\<not> registered (d_registry (sy_daemon s')) 1"
    by (auto split: option.splits simp del: system_exec.simps)
  note step = system_exec_step [OF s(2)]
  have len: "length ([] @ hang_up_script) < 2 ^ 32 - 2" by (simp add: hang_up_script_def)
  from connection_dropped_only_by [OF script_starts exec_all_run [OF s(1) run_start] len step drops]
  have "\<exists>cn. sy_conns s 1 = Some cn \<and> cn_write_failed cn" by blast
  with s(1) step drops(2) show ?thesis by blast
qed

end
