(* ===== verification/Crash_Loop.thy ===== *)
theory Crash_Loop
  imports Daemon_Reachable
begin

section \<open>A compositor that keeps crashing\<close>

text \<open>
  The life of one session over a run of the daemon: what is launched each time the session's
  compositor (or the terminal that took its place) exits, and what the restart count is then. The count
  is kept by \<open>handle_compositor_exit\<close> of \<open>src/main.rs\<close>, which asks \<open>decide_restart\<close> of
  \<open>src/launcher/compositor.rs\<close>; everything else the daemon does leaves it alone.
\<close>

subsection \<open>The exits of a session\<close>

text \<open>The programs asked for between two states, read off the trace.\<close>

definition new_spawns :: "daemon \<Rightarrow> daemon \<Rightarrow> spawn_call list" where
  "new_spawns d d' = [call. SpawnEffect call \<leftarrow> drop (length (d_trace d)) (d_trace d')]"

definition exit_of :: "session_id \<Rightarrow> u32 \<Rightarrow> daemon \<Rightarrow> bool" where
  "exit_of sid pid d = (case session_of_pid (d_sessions d) pid of Some ctx \<Rightarrow> ctx_id ctx = sid | None \<Rightarrow> False)"

text \<open>
  One entry for each exit of a process of session \<open>sid\<close> that the loop of \<open>reap_children\<close> comes to: the
  operating system it ran on and the programs that were then asked for.
\<close>

fun exits_reaped :: "world \<Rightarrow> session_id \<Rightarrow> wait_status list \<Rightarrow> daemon \<Rightarrow> (launch_os \<times> spawn_call list) list" where
  "exits_reaped w sid [] d = []"
| "exits_reaped w sid (StillAlive # rest) d = []"
| "exits_reaped w sid (WaitError # rest) d = []"
| "exits_reaped w sid (ChildStatus None # rest) d = exits_reaped w sid rest d"
| "exits_reaped w sid (ChildStatus (Some pid) # rest) d =
     (let d' = handle_compositor_exit w pid d
      in (if exit_of sid pid d then [(w_launch w, new_spawns d d')] else []) @ exits_reaped w sid rest d')"

fun exits_in :: "session_id \<Rightarrow> world \<Rightarrow> loop_event \<Rightarrow> daemon \<Rightarrow> (launch_os \<times> spawn_call list) list" where
  "exits_in sid w (SignalEvent SIGCHLD ws) d = exits_reaped w sid ws d"
| "exits_in sid w _ d = []"

definition session_in :: "daemon \<Rightarrow> session_id \<Rightarrow> session_context option" where
  "session_in d sid = hm_get (sm_sessions (d_sessions d)) sid"

text \<open>
  A stretch of a run over which the session exists and the settings stay the same, with its events
  and with the exits of the session's processes.
\<close>

inductive lives :: "session_id \<Rightarrow> daemon \<Rightarrow> (world \<times> loop_event) list \<Rightarrow> (launch_os \<times> spawn_call list) list \<Rightarrow> daemon \<Rightarrow> bool"
  for sid d where
  lives_start: "session_in d sid \<noteq> None \<Longrightarrow> lives sid d [] [] d"
| lives_step: "lives sid d es exits t \<Longrightarrow> dstep t (w, ev) u \<Longrightarrow> session_in u sid \<noteq> None \<Longrightarrow> d_settings u = d_settings t \<Longrightarrow>
    lives sid d (es @ [(w, ev)]) (exits @ exits_in sid w ev t) u"

subsection \<open>The ledger\<close>

text \<open>How many more times the compositor of a session may be started, and what its \<open>i\<close>-th exit leads to.\<close>

definition restarts_left :: "session_settings \<Rightarrow> session_context \<Rightarrow> nat" where
  "restarts_left s ctx = unat (max_compositor_restarts s) - unat (ctx_compositor_restarts ctx)"

definition relaunch :: "session_settings \<Rightarrow> session_context \<Rightarrow> nat \<Rightarrow> launch_os \<Rightarrow> spawn_call list" where
  "relaunch s ctx i os =
     fst (if i < restarts_left s ctx then spawn_compositor os (ctx_user ctx) (ctx_environment ctx) (compositor_binary s)
          else spawn_fallback_terminal os (ctx_user ctx) (ctx_environment ctx))"

definition same_account :: "session_context \<Rightarrow> session_context \<Rightarrow> bool" where
  "same_account ctx ctx' \<longleftrightarrow> ctx_user ctx' = ctx_user ctx \<and> ctx_environment ctx' = ctx_environment ctx"

definition ledger :: "session_settings \<Rightarrow> session_context \<Rightarrow> (launch_os \<times> spawn_call list) list \<Rightarrow> session_context \<Rightarrow> bool" where
  "ledger s ctx exits ctx' \<longleftrightarrow> same_account ctx ctx'
     \<and> unat (ctx_compositor_restarts ctx') = unat (ctx_compositor_restarts ctx) + min (length exits) (restarts_left s ctx)
     \<and> (\<forall>i < length exits. snd (exits ! i) = relaunch s ctx i (fst (exits ! i)))"

text \<open>The session was there before, and nothing the ledger is about has changed.\<close>

definition count_kept :: "session_id \<Rightarrow> daemon \<Rightarrow> daemon \<Rightarrow> bool" where
  "count_kept sid d d' \<longleftrightarrow> (\<forall>ctx'. session_in d' sid = Some ctx' \<longrightarrow>
     (\<exists>ctx. session_in d sid = Some ctx \<and> same_account ctx ctx' \<and> ctx_compositor_restarts ctx' = ctx_compositor_restarts ctx))"

text \<open>Five exits of the compositor of session 1, which may be restarted three times.\<close>

definition sample_crashes :: loop_event where
  "sample_crashes = SignalEvent SIGCHLD (replicate 5 (ChildStatus (Some 4242)))"

text \<open>What \<open>handle_compositor_exit\<close> has done when it comes to decide.\<close>

definition exit_cleanup :: "session_context \<Rightarrow> daemon \<Rightarrow> daemon" where
  "exit_cleanup ctx d =
     d_modify_session (ctx_id ctx) (try_transition Starting)
       (let d1 = d_modify_session (ctx_id ctx) (\<lambda>c. c\<lparr>ctx_compositor_process := None, ctx_compositor_conn := None\<rparr>) d
        in case ctx_compositor_conn ctx of None \<Rightarrow> d1 | Some conn \<Rightarrow> d1\<lparr>d_registry := unregister conn (d_registry d1)\<rparr>)"

lemma ledger_same: "same_account ctx ctx' \<Longrightarrow> ctx_compositor_restarts ctx' = ctx_compositor_restarts ctx \<Longrightarrow> ledger s ctx [] ctx'"
  by (simp add: ledger_def)

lemma ledger_trans:
  assumes "ledger s a xs b" "ledger s b ys c"
  shows "ledger s a (xs @ ys) c"
proof -
  have left: "restarts_left s b = restarts_left s a - length xs"
    using assms(1) by (auto simp: ledger_def restarts_left_def)
  have same: "same_account a b" "same_account b c" using assms by (simp_all add: ledger_def)
  have "snd ((xs @ ys) ! i) = relaunch s a i (fst ((xs @ ys) ! i))" if "i < length (xs @ ys)" for i
  proof (cases "i < length xs")
    case True
    with assms(1) show ?thesis by (simp add: ledger_def nth_append)
  next
    case False
    have "snd (ys ! (i - length xs)) = relaunch s b (i - length xs) (fst (ys ! (i - length xs)))"
      using False that assms(2) by (simp add: ledger_def)
    moreover have "relaunch s b (i - length xs) = relaunch s a i"
      using False same left by (auto simp: relaunch_def same_account_def fun_eq_iff)
    ultimately show ?thesis using False by (simp add: nth_append)
  qed
  moreover have "unat (ctx_compositor_restarts c) = unat (ctx_compositor_restarts a) + min (length (xs @ ys)) (restarts_left s a)"
    using assms left by (auto simp: ledger_def)
  moreover have "same_account a c" using same by (simp add: same_account_def)
  ultimately show ?thesis by (simp add: ledger_def)
qed

subsection \<open>One exit\<close>

lemma session_of_pid_get:
  assumes "sm_inv (d_sessions d)" "session_of_pid (d_sessions d) pid = Some ctx"
  shows "session_in d (ctx_id ctx) = Some ctx"
proof -
  have ok: "hm_ok (sm_sessions (d_sessions d))" using assms(1) by (simp add: sm_inv_def)
  from assms(2) have "ctx \<in> set (sm_list (d_sessions d))" by (auto simp: session_of_pid_def find_Some_iff)
  then obtain i where i: "hm_get (sm_sessions (d_sessions d)) i = Some ctx" by (auto simp: sm_list_def set_hm_values [OF ok])
  then have "ctx_id ctx = i" using assms(1) by (auto simp: sm_inv_def ctx_ok_def)
  with i show ?thesis by (simp add: session_in_def)
qed

lemma new_spawns_emit: "d_trace d' = d_trace d @ map SpawnEffect made \<Longrightarrow> new_spawns d d' = made"
proof -
  have "[call. SpawnEffect call \<leftarrow> map SpawnEffect made] = made" by (induction made) simp_all
  then show "d_trace d' = d_trace d @ map SpawnEffect made \<Longrightarrow> ?thesis" by (simp add: new_spawns_def)
qed

lemma session_in_simps [simp]:
  "session_in (emit effs d) sid = session_in d sid"
  "session_in (d_modify_session i f d) sid = (if sid = i then map_option f (session_in d i) else session_in d sid)"
  "session_in (d\<lparr>d_registry := reg\<rparr>) sid = session_in d sid"
  by (simp_all add: session_in_def d_modify_session_def)

lemma sm_get_session_in: "sm_get (d_sessions d) sid = (case session_in d sid of Some ctx \<Rightarrow> Inr ctx | None \<Rightarrow> Inl (UnknownSession sid))"
  by (simp add: sm_get_def session_in_def ok_or_def split: option.split)

lemma try_spawn_trace:
  assumes "session_in d sid = Some ctx"
  shows "d_trace (try_spawn_compositor w sid d) = d_trace d @ map SpawnEffect
      (fst (spawn_compositor (w_launch w) (ctx_user ctx) (ctx_environment ctx) (compositor_binary (set_session (d_settings d)))))"
    and "\<exists>p. session_in (try_spawn_compositor w sid d) sid = Some (ctx\<lparr>ctx_compositor_process := p\<rparr>)"
proof -
  show "d_trace (try_spawn_compositor w sid d) = d_trace d @ map SpawnEffect
      (fst (spawn_compositor (w_launch w) (ctx_user ctx) (ctx_environment ctx) (compositor_binary (set_session (d_settings d)))))"
    using assms by (simp add: try_spawn_compositor_def sm_get_session_in emit_def split: prod.split sum.split)
  show "\<exists>p. session_in (try_spawn_compositor w sid d) sid = Some (ctx\<lparr>ctx_compositor_process := p\<rparr>)"
    using assms try_spawn_session unfolding session_in_def by blast
qed

lemma exit_cleanup_frame:
  "d_settings (exit_cleanup ctx d) = d_settings d" "d_trace (exit_cleanup ctx d) = d_trace d"
  "session_in (exit_cleanup ctx d) sid = (if sid = ctx_id ctx
     then map_option (\<lambda>c. try_transition Starting (c\<lparr>ctx_compositor_process := None, ctx_compositor_conn := None\<rparr>)) (session_in d sid)
     else session_in d sid)"
  by (simp_all add: exit_cleanup_def Let_def option.map_comp comp_def split: option.split)

lemma handle_exit_eq:
  assumes "session_of_pid (d_sessions d) pid = Some ctx"
  shows "handle_compositor_exit w pid d =
    (if ctx_compositor_restarts ctx < max_compositor_restarts (set_session (d_settings d))
     then try_spawn_compositor w (ctx_id ctx)
       (d_modify_session (ctx_id ctx) (\<lambda>c. c\<lparr>ctx_compositor_restarts := ctx_compositor_restarts c + 1\<rparr>) (exit_cleanup ctx d))
     else (case sm_get (d_sessions (exit_cleanup ctx d)) (ctx_id ctx) of
         Inl _ \<Rightarrow> exit_cleanup ctx d
       | Inr ctx' \<Rightarrow>
           (case spawn_fallback_terminal (w_launch w) (ctx_user ctx') (ctx_environment ctx') of
              (made, Inr child) \<Rightarrow> d_modify_session (ctx_id ctx) (\<lambda>c. c\<lparr>ctx_compositor_process := Some child\<rparr>)
                  (emit (map SpawnEffect made) (exit_cleanup ctx d))
            | (made, Inl _) \<Rightarrow> emit (map SpawnEffect made) (exit_cleanup ctx d))))"
proof -
  have "d_settings (exit_cleanup ctx d) = d_settings d" by (rule exit_cleanup_frame)
  then show ?thesis
    unfolding handle_compositor_exit_def assms option.case Let_def decide_restart_def
    by (simp only: exit_cleanup_def Let_def) simp
qed

lemma exit_ledger:
  assumes "session_of_pid (d_sessions d) pid = Some ctx" "session_in d (ctx_id ctx) = Some ctx"
  shows "\<exists>ctx'. session_in (handle_compositor_exit w pid d) (ctx_id ctx) = Some ctx'
    \<and> ledger (set_session (d_settings d)) ctx [(w_launch w, new_spawns d (handle_compositor_exit w pid d))] ctx'"
proof -
  let ?s = "set_session (d_settings d)" and ?d' = "handle_compositor_exit w pid d"
  define ctx3 where "ctx3 = try_transition Starting (ctx\<lparr>ctx_compositor_process := None, ctx_compositor_conn := None\<rparr>)"
  have ctx3: "session_in (exit_cleanup ctx d) (ctx_id ctx) = Some ctx3" "same_account ctx ctx3"
    "ctx_compositor_restarts ctx3 = ctx_compositor_restarts ctx"
    using assms(2) by (simp_all add: exit_cleanup_frame ctx3_def same_account_def)
  show ?thesis
  proof (cases "ctx_compositor_restarts ctx < max_compositor_restarts ?s")
    case True
    let ?ctx4 = "ctx3\<lparr>ctx_compositor_restarts := ctx_compositor_restarts ctx3 + 1\<rparr>"
    let ?d4 = "d_modify_session (ctx_id ctx) (\<lambda>c. c\<lparr>ctx_compositor_restarts := ctx_compositor_restarts c + 1\<rparr>) (exit_cleanup ctx d)"
    have "session_in ?d4 (ctx_id ctx) = Some ?ctx4" using ctx3(1) by simp
    note spawn = try_spawn_trace [OF this, of w]
    have "new_spawns d ?d' = relaunch ?s ctx 0 (w_launch w)"
      using True spawn(1) ctx3(2)
      by (intro new_spawns_emit)
        (simp add: handle_exit_eq [OF assms(1)] exit_cleanup_frame relaunch_def restarts_left_def same_account_def word_less_nat_alt)
    moreover have "unat (ctx_compositor_restarts ctx + 1) = Suc (unat (ctx_compositor_restarts ctx))"
      using True by (intro unat_Suc_word [simplified]) (metis less_trans_Suc unsigned_less word_less_nat_alt)
    ultimately show ?thesis
      using True spawn(2) ctx3(2,3)
      by (auto simp: handle_exit_eq [OF assms(1)] ledger_def restarts_left_def same_account_def word_less_nat_alt)
  next
    case False
    have "sm_get (d_sessions (exit_cleanup ctx d)) (ctx_id ctx) = Inr ctx3" by (simp add: sm_get_session_in ctx3(1))
    note d' = handle_exit_eq [OF assms(1), unfolded this if_not_P [OF False] sum.case]
    have "new_spawns d ?d' = relaunch ?s ctx 0 (w_launch w)"
      using False ctx3(2)
      by (intro new_spawns_emit)
        (simp add: d' exit_cleanup_frame(2) emit_def relaunch_def restarts_left_def
          same_account_def word_less_nat_alt split: prod.split sum.split)
    moreover have self: "\<exists>p. ctx3 = ctx3\<lparr>ctx_compositor_process := p\<rparr>"
      by (rule exI [of _ "ctx_compositor_process ctx3"]) simp
    have "\<exists>p. session_in ?d' (ctx_id ctx) = Some (ctx3\<lparr>ctx_compositor_process := p\<rparr>)"
      unfolding d' by (auto simp: ctx3(1) self split: prod.split sum.split)
    ultimately show ?thesis
      using False ctx3(2,3)
      by (auto simp: ledger_def restarts_left_def same_account_def word_less_nat_alt)
  qed
qed

lemma exit_other:
  assumes "\<not> exit_of sid pid d"
  shows "session_in (handle_compositor_exit w pid d) sid = session_in d sid"
proof (cases "session_of_pid (d_sessions d) pid")
  case None
  then show ?thesis by (simp add: handle_compositor_exit_def)
next
  case (Some ctx)
  with assms have "sid \<noteq> ctx_id ctx" by (auto simp: exit_of_def)
  moreover from this have "session_in (try_spawn_compositor w (ctx_id ctx) d') sid = session_in d' sid" for d'
    by (simp add: try_spawn_compositor_def split: sum.split prod.split)
  ultimately show ?thesis
    by (simp add: handle_exit_eq [OF Some] exit_cleanup_frame(3) split: sum.split prod.split)
qed

lemma reap_ledger:
  assumes "sessions_safe d" "session_in d sid = Some ctx" "s = set_session (d_settings d)"
  shows "\<exists>ctx'. session_in (reap_children w ws d) sid = Some ctx' \<and> ledger s ctx (exits_reaped w sid ws d) ctx'"
  using assms
proof (induction w ws d arbitrary: ctx rule: reap_children.induct)
  case (5 w pid rest d)
  let ?d = "handle_compositor_exit w pid d"
  have safe: "sessions_safe ?d" by (rule sessions_safe_exit [OF 5(2)])
  obtain ctx1 xs where ctx1: "session_in ?d sid = Some ctx1" "ledger s ctx xs ctx1"
    "exits_reaped w sid (ChildStatus (Some pid) # rest) d = xs @ exits_reaped w sid rest ?d"
  proof (cases "exit_of sid pid d")
    case True
    then obtain c where c: "session_of_pid (d_sessions d) pid = Some c" "ctx_id c = sid"
      by (auto simp: exit_of_def split: option.splits)
    with session_of_pid_get [of d pid c] 5(2,3) have "c = ctx" by (simp add: sessions_safe_def)
    with exit_ledger [of d pid c w] c 5(3,4) that True show ?thesis by (auto simp: Let_def)
  next
    case False
    with exit_other [OF False, of w] 5(3) ledger_same [of ctx ctx s] that show ?thesis
      by (simp add: Let_def same_account_def)
  qed
  from 5(1) [OF safe ctx1(1)] 5(4) obtain ctx' where "session_in (reap_children w rest ?d) sid = Some ctx'"
    "ledger s ctx1 (exits_reaped w sid rest ?d) ctx'" by auto
  with ctx1(3) ledger_trans [OF ctx1(2)] show ?case by auto
qed (auto simp: same_account_def intro!: ledger_same)

subsection \<open>Everything else\<close>

lemma count_kept_same: "d_sessions d' = d_sessions d \<Longrightarrow> count_kept sid d d'"
  by (simp add: count_kept_def session_in_def same_account_def)

lemma count_kept_trans: "count_kept sid d d' \<Longrightarrow> count_kept sid d' d'' \<Longrightarrow> count_kept sid d d''"
  by (fastforce simp: count_kept_def same_account_def)

lemma count_kept_modify:
  assumes "\<And>ctx. same_account ctx (f ctx) \<and> ctx_compositor_restarts (f ctx) = ctx_compositor_restarts ctx"
  shows "count_kept sid d (d_modify_session i f d)"
  using assms by (auto simp: count_kept_def same_account_def)

lemma count_kept_shrink:
  assumes "\<And>ctx. hm_get (sm_sessions (d_sessions d')) sid = Some ctx \<Longrightarrow> hm_get (sm_sessions (d_sessions d)) sid = Some ctx"
  shows "count_kept sid d d'"
  using assms by (auto simp: count_kept_def session_in_def same_account_def)

lemma count_kept_show_lock: "count_kept sid d (show_lock i reason d)"
proof -
  have "count_kept sid d (d_modify_session i (try_transition Locked) d)"
    by (rule count_kept_modify) (simp add: same_account_def)
  then show ?thesis
    by (auto simp: show_lock_def count_kept_same intro: count_kept_trans split: sum.split)
qed

lemma count_kept_idle: "count_kept sid d (fold (handle_idle_change w p) chs d)"
proof (induction chs arbitrary: d)
  case (Cons ch chs)
  have "count_kept sid d (show_lock i reason (d\<lparr>d_locks := lm\<rparr>))" for i reason lm
    using count_kept_trans [OF count_kept_same count_kept_show_lock, of "d\<lparr>d_locks := lm\<rparr>"] by simp
  then have "count_kept sid d (idle_lock w p seat d)" for seat
    by (auto simp: idle_lock_def count_kept_same split: sum.split option.split prod.split)
  then have "count_kept sid d (handle_idle_change w p ch d)"
    by (auto simp: handle_idle_change_def count_kept_same split: idle_stage.split)
  then show ?case using Cons.IH count_kept_trans by fastforce
qed (simp add: count_kept_same)

lemma count_kept_spawn: "count_kept sid d (try_spawn_compositor w i d)"
proof -
  have "count_kept sid (emit effs d) (d_modify_session i (\<lambda>c. c\<lparr>ctx_compositor_process := p\<rparr>) (emit effs d))" for p effs
    by (rule count_kept_modify) (simp add: same_account_def)
  moreover have emit: "count_kept sid d (emit effs d)" for effs by (simp add: count_kept_same)
  ultimately have "count_kept sid d (d_modify_session i (\<lambda>c. c\<lparr>ctx_compositor_process := p\<rparr>) (emit effs d))" for p effs
    by (rule count_kept_trans [rotated])
  then show ?thesis by (simp add: try_spawn_compositor_def count_kept_same emit split: sum.split prod.split)
qed

lemma count_kept_create:
  assumes "daemon_inv n d" "Suc n < 2 ^ 32 - 1" "session_in d sid \<noteq> None"
  shows "count_kept sid d (fst (create_session w peer name seat ty d))"
proof (cases "by_name (w_db w) name")
  case (Inl e)
  then show ?thesis by (simp add: create_session_unknown count_kept_same)
next
  case (Inr u)
  obtain sm made r where cr: "sm_create_session (w_fs w) (w_unix w) u
      (case seat of Some s \<Rightarrow> s | None \<Rightarrow> default_seat (set_seat (d_settings d)))
      (choose_session_type (set_session (d_settings d)) ty) (set_session (d_settings d)) (d_sessions d) = (sm, made, r)"
    by (metis prod_cases3)
  have inv: "sm_inv (d_sessions d)" "Suc (sm_high (d_sessions d)) < 2 ^ 32 - 1"
    using assms(1,2) by (simp_all add: daemon_inv_def sessions_safe_def)
  have "count_kept sid d d'" if "d_sessions d' = sm" for d'
    using sm_create_cases [OF cr] sm_inv_create(4) [OF inv cr, of sid] assms(3) that
    by (intro count_kept_shrink) (auto simp: session_in_def split: if_splits)
  moreover from this have "count_kept sid d (try_spawn_compositor w i d')" if "d_sessions d' = sm" for i d'
    using that count_kept_spawn count_kept_trans by blast
  ultimately show ?thesis
    using create_session_refused [OF Inr, where seat = seat and d = d and ty = ty and sm = sm and made = made]
      create_session_granted [OF Inr, where seat = seat and d = d and ty = ty and sm = sm and made = made] cr
    by (cases r) (simp_all add: Let_def)
qed

lemma count_kept_power:
  "count_kept sid d (fst (do_reboot w d))" "count_kept sid d (fst (do_poweroff w d))"
proof -
  have "count_kept sid d d'" if "d_sessions d' = fst (sm_terminate_all sids (d_sessions d))" for d' sids
    using that by (intro count_kept_shrink) (simp add: sm_terminate_all_get split: if_splits)
  then show "count_kept sid d (fst (do_reboot w d))" "count_kept sid d (fst (do_poweroff w d))"
    using do_power_sessions [of w d] count_kept_same by blast+
qed

lemma count_kept_register: "count_kept sid d (fst (register_compositor conn i d))"
proof -
  have one: "count_kept sid d (d_modify_session i (\<lambda>c. c\<lparr>ctx_compositor_conn := Some conn\<rparr>) d)" for d
    by (rule count_kept_modify) (simp add: same_account_def)
  have two: "count_kept sid d (d_modify_session i (try_transition st) d)" for st d
    by (rule count_kept_modify) (simp add: same_account_def)
  have three: "count_kept sid d (d_send_event c e d)" for c e d by (rule count_kept_same) simp
  show ?thesis
    by (auto simp: register_compositor_def Let_def count_kept_same
        intro!: count_kept_trans [OF one two] count_kept_trans [OF count_kept_trans [OF one two] three] split: sum.split)
qed

lemma count_kept_lock_session: "count_kept sid d (fst (lock_session w peer i reason d))"
proof -
  have "count_kept sid d (audit e (show_lock i reason (d\<lparr>d_locks := lm\<rparr>)))" for e lm
    by (rule count_kept_trans [OF count_kept_trans [OF count_kept_same count_kept_show_lock] count_kept_same]) simp_all
  then show ?thesis by (simp add: lock_session_def count_kept_same split: sum.split prod.split)
qed

lemma count_kept_unlock: "count_kept sid d (fst (unlock w peer i name password d))"
proof -
  have mod: "count_kept sid (d\<lparr>d_locks := lm\<rparr>) (d_modify_session i (try_transition Active) (d\<lparr>d_locks := lm\<rparr>))" for lm
    by (rule count_kept_modify) (simp add: same_account_def)
  have "count_kept sid d d'" if "d_sessions d' = d_sessions (d_modify_session i (try_transition Active) (d\<lparr>d_locks := lm\<rparr>))" for d' lm
    by (rule count_kept_trans [OF count_kept_trans [OF count_kept_same mod] count_kept_same [OF that]]) simp
  then show ?thesis by (simp add: unlock_def Let_def count_kept_same split: sum.split prod.split)
qed

lemma count_kept_dispatch:
  assumes "daemon_inv n d" "Suc n < 2 ^ 32 - 1" "session_in d sid \<noteq> None"
  shows "count_kept sid d (fst (dispatch w conn peer r d))"
proof (cases r)
  case (TerminateSession i)
  then show ?thesis
    by (intro count_kept_shrink) (simp add: reply_def terminate_session_sessions sm_terminate_session_get split: if_splits)
qed (simp_all add: reply_def split_def count_kept_create [OF assms] count_kept_power count_kept_register count_kept_same
    count_kept_lock_session count_kept_unlock)

lemma event_kept:
  assumes "daemon_inv n d" "Suc n < 2 ^ 32 - 1" "session_in d sid \<noteq> None" "\<And>ws. ev \<noteq> SignalEvent SIGCHLD ws"
  shows "count_kept sid d (daemon_event w ev d)"
proof (cases ev)
  case TickEvent
  obtain det chs where "tick (w_now w) (idle_policy_from (set_idle (d_settings d))) (d_idle d) = (det, chs)" by fastforce
  then have after: "after_idle w d = fold (handle_idle_change w (lock_policy_from (set_lock (d_settings d)))) chs (d\<lparr>d_idle := det\<rparr>)"
    by (simp add: after_idle_def)
  have "count_kept sid d (after_idle w d)"
    unfolding after by (rule count_kept_trans [OF count_kept_same count_kept_idle]) simp
  with TickEvent show ?thesis
    by (auto intro: count_kept_trans [OF _ count_kept_same] simp: on_idle_tick_parts)
next
  case (SignalEvent sig ws)
  have "count_kept sid d (on_signal w ws Terminate d)"
    by (rule count_kept_shrink) (simp add: graceful_shutdown_def Let_def split_def sm_terminate_all_get split: if_splits)
  moreover have "count_kept sid d (reload_config w d)"
    by (rule count_kept_same) (simp add: reload_config_def split: sum.split)
  ultimately show ?thesis
    using SignalEvent assms(4) by (cases sig) (simp_all add: count_kept_same del: on_signal.simps(1))
next
  case (IpcEvent msg)
  show ?thesis
  proof (cases msg)
    case (Disconnected conn)
    have "d_sessions (handle_ipc w (Disconnected conn) d) = sm_map_all (drop_compositor conn) (d_sessions d)"
      by (simp add: Let_def split: prod.split)
    then have "count_kept sid d (handle_ipc w (Disconnected conn) d)"
      by (auto simp: count_kept_def session_in_def same_account_def drop_compositor_def simp del: handle_ipc.simps)
    with IpcEvent Disconnected show ?thesis by simp
  next
    case (Command conn peer r)
    have "count_kept sid d (d_send_response conn resp (fst (dispatch w conn peer r d)))" for resp
      by (rule count_kept_trans [OF count_kept_dispatch [OF assms(1-3)] count_kept_same]) simp
    with count_kept_dispatch [OF assms(1-3), of w conn peer r] IpcEvent Command show ?thesis
      by (auto simp: handle_command_def count_kept_same split: sum.split prod.split option.split)
  qed (use IpcEvent in \<open>simp add: count_kept_same\<close>)
qed

subsection \<open>Along a run\<close>

lemma event_ledger:
  assumes "daemon_inv n d" "Suc n < 2 ^ 32 - 1" "session_in d sid = Some ctx" "session_in (daemon_event w ev d) sid = Some ctx'"
  shows "ledger (set_session (d_settings d)) ctx (exits_in sid w ev d) ctx'"
proof (cases "\<exists>ws. ev = SignalEvent SIGCHLD ws")
  case True
  then obtain ws where "ev = SignalEvent SIGCHLD ws" ..
  with reap_ledger [OF daemon_inv_parts(1) [OF assms(1)] assms(3) refl, of w ws] assms(4) show ?thesis by auto
next
  case False
  then have "exits_in sid w ev d = []" by (cases "(sid, w, ev, d)" rule: exits_in.cases) auto
  moreover have "count_kept sid d (daemon_event w ev d)"
    using assms(3) False by (intro event_kept [OF assms(1,2)]) auto
  ultimately show ?thesis using assms(3,4) by (auto simp: count_kept_def intro: ledger_same)
qed

lemma lives_ledger:
  assumes "lives sid d es exits d'" "daemon_inv n d" "n + length es \<le> 2 ^ 32 - 2" "session_in d sid = Some ctx"
  shows "daemon_inv (n + length es) d' \<and> d_settings d' = d_settings d
    \<and> (\<exists>ctx'. session_in d' sid = Some ctx' \<and> ledger (set_session (d_settings d)) ctx exits ctx')"
  using assms(1,3)
proof (induction rule: lives.induct)
  case lives_start
  with assms(2,4) show ?case by (simp add: ledger_same same_account_def)
next
  case (lives_step es exits t w ev u)
  from lives_step.prems have lim: "n + length es < 2 ^ 32 - 2" by simp
  from lives_step.IH [OF less_imp_le [OF this]] obtain ctx1 where t: "daemon_inv (n + length es) t" "d_settings t = d_settings d"
    and ctx1: "session_in t sid = Some ctx1" "ledger (set_session (d_settings d)) ctx exits ctx1" by blast
  have "daemon_inv (Suc (n + length es)) (daemon_event w ev t)" using lim by (intro daemon_inv_event [OF t(1)]) simp
  then have "hm_ok (sm_sessions (d_sessions (daemon_event w ev t)))"
    using daemon_inv_parts(1) by (simp add: sessions_safe_def sm_inv_def)
  moreover have "hm_same (sm_sessions (d_sessions (daemon_event w ev t))) (sm_sessions (d_sessions u))"
    using lives_step.hyps(2) by (auto elim!: dstepE simp: same_daemon_def same_sessions_def)
  ultimately have same: "session_in u sid = session_in (daemon_event w ev t) sid"
    unfolding session_in_def by (rule hm_same_get)
  obtain ctx2 where ctx2: "session_in u sid = Some ctx2" using lives_step.hyps(3) by blast
  have "Suc (n + length es) < 2 ^ 32 - 1" using lim by simp
  from event_ledger [OF t(1) this ctx1(1) ctx2 [unfolded same]] have
    "ledger (set_session (d_settings d)) ctx1 (exits_in sid w ev t) ctx2" by (simp only: t(2))
  with ledger_trans [OF ctx1(2)] have "ledger (set_session (d_settings d)) ctx (exits @ exits_in sid w ev t) ctx2" by blast
  moreover have "daemon_inv (Suc (n + length es)) u" by (rule daemon_runs.inv_step [OF t(1) lim lives_step.hyps(2)])
  ultimately show ?case using ctx2 t(2) lives_step.hyps(4) by simp
qed

subsection \<open>Properties\<close>

text \<open>
  C21. A compositor that keeps crashing is restarted only so often. Take a session over any stretch of a
  run in which it exists and the settings stay the same, whatever else happens. Each exit of its
  process is answered: as long as the count of restarts is below \<open>max_compositor_restarts\<close>, by launching the
  compositor for the session's user and environment, and every time after that by launching the fallback terminal instead;
  nothing else is launched on an exit. The count goes up by one with each restart of the compositor, and
  with nothing else, so that it never passes the limit.
\<close>

theorem crash_loop_ends_in_terminal:
  assumes "reachable_in n d" "n + length es \<le> 2 ^ 32 - 2" "lives sid d es exits d'" "session_in d sid = Some ctx"
    and "s = set_session (d_settings d)" "left = unat (max_compositor_restarts s) - unat (ctx_compositor_restarts ctx)"
  shows "(\<forall>i < length exits. case exits ! i of (os, made) \<Rightarrow>
        made = fst (if i < left then spawn_compositor os (ctx_user ctx) (ctx_environment ctx) (compositor_binary s)
                    else spawn_fallback_terminal os (ctx_user ctx) (ctx_environment ctx)))
    \<and> (\<exists>ctx'. session_in d' sid = Some ctx'
        \<and> unat (ctx_compositor_restarts ctx') = unat (ctx_compositor_restarts ctx) + min (length exits) left
        \<and> ctx_user ctx' = ctx_user ctx \<and> ctx_environment ctx' = ctx_environment ctx)"
proof -
  have "daemon_inv n d" using assms(2) by (intro reachable_inv [OF assms(1)]) simp
  from lives_ledger [OF assms(3) this assms(2,4)] obtain ctx' where "session_in d' sid = Some ctx'" "ledger s ctx exits ctx'"
    using assms(5) by auto
  then show ?thesis
    unfolding assms(6) by (auto simp: ledger_def same_account_def relaunch_def restarts_left_def split_def)
qed

theorem crash_loop_ends_in_terminal_witness:
  "let exits = exits_in 1 sample_world sample_crashes sample_daemon; ctx = the (session_in sample_daemon 1)
   in length exits = 5 \<and> snd (exits ! 2) = fst (spawn_compositor (fst (exits ! 2)) (ctx_user ctx) (ctx_environment ctx)
          (compositor_binary default_session_settings))
    \<and> snd (exits ! 3) = fst (spawn_fallback_terminal (fst (exits ! 3)) (ctx_user ctx) (ctx_environment ctx))
    \<and> (\<exists>ctx'. session_in (daemon_event sample_world sample_crashes sample_daemon) 1 = Some ctx'
         \<and> unat (ctx_compositor_restarts ctx') = 3)"
proof -
  let ?d' = "daemon_event sample_world sample_crashes sample_daemon"
  let ?exits = "exits_in 1 sample_world sample_crashes sample_daemon" and ?ctx = "the (session_in sample_daemon 1)"
  have ctx: "session_in sample_daemon 1 = Some ?ctx" by code_simp
  have len: "length ?exits = 5" by code_simp
  have s: "default_session_settings = set_session (d_settings sample_daemon)" by code_simp
  have left: "3 = unat (max_compositor_restarts default_session_settings) - unat (ctx_compositor_restarts ?ctx)" by code_simp
  have "lives 1 sample_daemon [] [] sample_daemon" using ctx by (intro lives_start) (metis option.distinct(1))
  moreover have "dstep sample_daemon (sample_world, sample_crashes) ?d'" by (rule dstep) simp
  moreover have "session_in ?d' 1 \<noteq> None" by code_simp
  moreover have "d_settings ?d' = d_settings sample_daemon" by (simp add: sample_crashes_def)
  ultimately have "lives 1 sample_daemon ([] @ [(sample_world, sample_crashes)]) ([] @ ?exits) ?d'" by (rule lives_step)
  then have "lives 1 sample_daemon [(sample_world, sample_crashes)] ?exits ?d'" by (simp only: append_Nil)
  note all = crash_loop_ends_in_terminal [OF reachable_samples(1) _ this ctx s left, unfolded len]
  from all have "case ?exits ! i of (os, made) \<Rightarrow>
        made = fst (if i < 3 then spawn_compositor os (ctx_user ?ctx) (ctx_environment ?ctx) (compositor_binary default_session_settings)
                    else spawn_fallback_terminal os (ctx_user ?ctx) (ctx_environment ?ctx))" if "i < 5" for i
    using that by simp
  from this [of 2] this [of 3] have "snd (?exits ! 2) = fst (spawn_compositor (fst (?exits ! 2)) (ctx_user ?ctx) (ctx_environment ?ctx)
          (compositor_binary default_session_settings))"
    "snd (?exits ! 3) = fst (spawn_fallback_terminal (fst (?exits ! 3)) (ctx_user ?ctx) (ctx_environment ?ctx))"
    by (simp_all add: split_def)
  moreover have "ctx_compositor_restarts ?ctx = 0" by code_simp
  with all have "\<exists>ctx'. session_in ?d' 1 = Some ctx' \<and> unat (ctx_compositor_restarts ctx') = 3" by auto
  ultimately show ?thesis using len unfolding Let_def by blast
qed

end
