(* ===== verification/Lock_Doors.thy ===== *)
theory Lock_Doors
  imports Lock
begin

section \<open>The lock manager as a family of doors\<close>

text \<open>
  What \<open>src/lock\<close> promises its callers, as a specification without hash maps and machine integers: every
  session has a door of its own that is open, locked or barred, with the wrong passwords counted since it
  last opened and the time a bar is lifted; and there is a table of inhibitors. The lock manager
  implements it, call by call and answer by answer.
\<close>

subsection \<open>Calls\<close>

text \<open>
  \<open>SweepCall\<close> is what the tick of \<open>on_idle_tick\<close> in \<open>src/main.rs\<close> does with lockouts: \<open>clear_lockout\<close> for each session
  that \<open>expired_lockouts\<close> reports.
\<close>

datatype lock_call =
    LockCall session_id lock_policy
  | UnlockCall session_id
  | TryCall authenticator auth_policy auth_request instant
  | SweepCall instant
  | InhibitCall inhibit_what string string inhibit_mode
  | ReleaseCall u64

datatype lock_answer = Silent | Answered "unit result" | Outcome auth_outcome | Held nat

definition sweep_lockouts :: "instant \<Rightarrow> lock_manager \<Rightarrow> lock_manager" where
  "sweep_lockouts now m =
     (case expired_lockouts (lm_timeouts m) now of (t, sids) \<Rightarrow> fold clear_lockout sids (m\<lparr>lm_timeouts := t\<rparr>))"

fun lm_call :: "lock_call \<Rightarrow> lock_manager \<Rightarrow> lock_manager \<times> lock_answer" where
  "lm_call (LockCall sid p) m = (case lm_lock sid p m of (m', r) \<Rightarrow> (m', Answered r))"
| "lm_call (UnlockCall sid) m = (lm_unlock sid m, Silent)"
| "lm_call (TryCall auth policy r now) m = (case attempt_unlock auth r policy now m of (m', out) \<Rightarrow> (m', Outcome out))"
| "lm_call (SweepCall now) m = (sweep_lockouts now m, Silent)"
| "lm_call (InhibitCall what who why mode) m =
     (case add_inhibitor what who why mode m of (m', i) \<Rightarrow> (m', Held (unat i)))"
| "lm_call (ReleaseCall i) m = (case release_inhibitor i m of (m', r) \<Rightarrow> (m', Answered r))"

subsection \<open>The specification\<close>

record door =
  dr_state :: lock_state
  dr_wrong :: nat
  dr_lifted :: "instant option"

record doors =
  door_of :: "session_id \<Rightarrow> door"
  holds :: "nat \<Rightarrow> inhibitor option"
  last_hold :: nat

definition doors_new :: doors where
  "doors_new = \<lparr>door_of = (\<lambda>_. \<lparr>dr_state = LockUnlocked, dr_wrong = 0, dr_lifted = None\<rparr>),
     holds = Map.empty, last_hold = 0\<rparr>"

definition door_try :: "bool \<Rightarrow> auth_policy \<Rightarrow> instant \<Rightarrow> door \<Rightarrow> door \<times> auth_outcome" where
  "door_try accepted policy now d =
     (let barred = AuthLockedOut (as_secs (ap_lockout policy)); wrong = Suc (dr_wrong d); most = unat (ap_max_attempts policy)
      in if dr_state d = LockLockedOut then (d, barred)
         else if accepted then (d\<lparr>dr_state := LockUnlocked, dr_wrong := 0\<rparr>, AuthSuccess)
         else if most \<le> wrong then
           (d\<lparr>dr_state := LockLockedOut, dr_wrong := wrong, dr_lifted := Some (now + ap_lockout policy)\<rparr>, barred)
         else (d\<lparr>dr_wrong := wrong\<rparr>, AuthFailure (of_nat (most - wrong))))"

definition door_sweep :: "instant \<Rightarrow> door \<Rightarrow> door" where
  "door_sweep now d =
     (case dr_lifted d of
        None \<Rightarrow> d
      | Some t \<Rightarrow>
          if t \<le> now then
            if dr_state d = LockLockedOut then \<lparr>dr_state = LockLocked, dr_wrong = 0, dr_lifted = None\<rparr>
            else d\<lparr>dr_lifted := None\<rparr>
          else d)"

definition lock_held :: "doors \<Rightarrow> bool" where
  "lock_held s \<longleftrightarrow> (\<exists>i h. holds s i = Some h \<and> inh_what h = InhibitLock \<and> inh_mode h = BlockMode)"

fun doors_call :: "lock_call \<Rightarrow> doors \<Rightarrow> doors \<times> lock_answer" where
  "doors_call (LockCall sid p) s =
     (if \<not> lp_enabled p then (s, Answered (Inl (Unsupported ''locking is disabled in config'')))
      else if lock_held s then (s, Answered (Inl (PermissionDenied ''an application is inhibiting the lock screen'')))
      else (s\<lparr>door_of := (door_of s)(sid := (door_of s sid)\<lparr>dr_state := LockLocked\<rparr>)\<rparr>, Answered (Inr ())))"
| "doors_call (UnlockCall sid) s =
     (s\<lparr>door_of := (door_of s)(sid := (door_of s sid)\<lparr>dr_state := LockUnlocked, dr_wrong := 0\<rparr>)\<rparr>, Silent)"
| "doors_call (TryCall auth policy r now) s =
     (case door_try (auth r = Inr ()) policy now (door_of s (req_session_id r)) of
        (d, out) \<Rightarrow> (s\<lparr>door_of := (door_of s)(req_session_id r := d)\<rparr>, Outcome out))"
| "doors_call (SweepCall now) s = (s\<lparr>door_of := door_sweep now \<circ> door_of s\<rparr>, Silent)"
| "doors_call (InhibitCall what who why mode) s =
     (let n = Suc (last_hold s)
      in (s\<lparr>last_hold := n,
           holds := (holds s)(n \<mapsto> \<lparr>inh_id = of_nat n, inh_what = what, inh_who = who, inh_why = why, inh_mode = mode\<rparr>)\<rparr>, Held n))"
| "doors_call (ReleaseCall i) s =
     (s\<lparr>holds := (holds s)(unat i := None)\<rparr>, Answered (if holds s (unat i) = None then Inl (UnknownInhibitor i) else Inr ()))"

subsection \<open>The view\<close>

definition door_view :: "lock_manager \<Rightarrow> session_id \<Rightarrow> door" where
  "door_view m sid = \<lparr>dr_state = lock_state_of m sid, dr_wrong = unat (attempts_of m sid),
     dr_lifted = hm_get (lockout_expiry (lm_timeouts m)) sid\<rparr>"

text \<open>A table with 64-bit ids, as a table with natural numbers.\<close>

definition by_nat :: "(u64 \<Rightarrow> 'v option) \<Rightarrow> nat \<Rightarrow> 'v option" where
  "by_nat f n = (if n < 2 ^ 64 then f (of_nat n) else None)"

definition lock_view :: "lock_manager \<Rightarrow> doors" where
  "lock_view m = \<lparr>door_of = door_view m, holds = by_nat (hm_get (inhibitors (lm_inhibitors m))), last_hold = unat (inh_next_id (lm_inhibitors m))\<rparr>"

text \<open>After \<open>n\<close> calls no counter exceeds \<open>n\<close>.\<close>

definition lm_keeps :: "nat \<Rightarrow> lock_manager \<Rightarrow> bool" where
  "lm_keeps n m \<longleftrightarrow> lm_ok m \<and> (\<forall>sid. unat (attempts_of m sid) \<le> n) \<and> unat (inh_next_id (lm_inhibitors m)) \<le> n"

subsection \<open>Each call\<close>

lemma by_nat_unat [simp]: "by_nat f (unat i) = f i"
  using unsigned_less [where 'a = nat, of i] by (simp add: by_nat_def)

lemma by_nat_cases:
  obtains i where "n = unat i" "by_nat f n = f i" | "by_nat f n = None" "\<forall>i. n \<noteq> unat (i :: u64)"
proof (cases "n < 2 ^ 64")
  case True
  then have "unat (word_of_nat n :: u64) = n" by (simp add: unat_of_nat)
  with that(1) [of "word_of_nat n"] by_nat_unat [of f "word_of_nat n"] show ?thesis by simp
next
  case False
  moreover have "unat (i :: u64) < 2 ^ 64" for i using unsigned_less [where 'a = nat, of i] by simp
  ultimately show ?thesis using that(2) by (auto simp: by_nat_def)
qed

lemma by_nat_None: "\<forall>i. n \<noteq> unat (i :: u64) \<Longrightarrow> by_nat f n = None"
  by (auto intro: by_nat_cases [of n f])

lemma by_nat_eqI: "(\<And>i. f i = g (unat i)) \<Longrightarrow> (\<And>n. \<forall>i. n \<noteq> unat (i :: u64) \<Longrightarrow> g n = None) \<Longrightarrow> by_nat f = g"
  by (rule ext, rule_tac n = x and f = f in by_nat_cases) simp_all

lemma by_nat_update: "by_nat (f(i := v)) = (by_nat f)(unat i := v)"
proof (rule by_nat_eqI)
  show "(f(i := v)) j = ((by_nat f)(unat i := v)) (unat j)" for j
    by (auto simp: word_unat_eq_iff)
  show "((by_nat f)(unat i := v)) n = None" if "\<forall>i. n \<noteq> unat (i :: u64)" for n
    using that by (simp add: by_nat_None)
qed

lemma blocks_view:
  assumes "hm_ok (inhibitors (lm_inhibitors m))"
  shows "lock_held (lock_view m) \<longleftrightarrow> blocks InhibitLock (lm_inhibitors m)"
proof -
  let ?f = "hm_get (inhibitors (lm_inhibitors m))"
  have "(\<exists>n. by_nat ?f n = Some h) \<longleftrightarrow> (\<exists>i. ?f i = Some h)" for h
    by (metis by_nat_cases by_nat_unat option.distinct(1))
  then show ?thesis unfolding lock_held_def lock_view_def blocks_iff [OF assms] doors.simps by metis
qed

lemma door_view_lock:
  "door_view (fst (lm_lock sid p m)) =
     (if lp_enabled p \<and> \<not> blocks InhibitLock (lm_inhibitors m)
      then (door_view m)(sid := (door_view m sid)\<lparr>dr_state := LockLocked\<rparr>) else door_view m)"
  by (auto simp: door_view_def lm_lock_def lock_state_of_def attempts_of_def hm_entry_def fun_eq_iff)

lemma door_view_unlock:
  "door_view (lm_unlock sid m) = (door_view m)(sid := (door_view m sid)\<lparr>dr_state := LockUnlocked, dr_wrong := 0\<rparr>)"
  by (auto simp: door_view_def lm_unlock_def cancel_grace_def lock_state_of_def attempts_of_def hm_entry_def
      session_lock_default_def fun_eq_iff split: option.split)

lemma check_view:
  assumes "unat n < 2 ^ 32 - 1"
  shows "check a r p n =
    (if a r = Inr () then (AuthSuccess, 0)
     else if unat (ap_max_attempts p) \<le> Suc (unat n) then (AuthLockedOut (as_secs (ap_lockout p)), n + 1)
     else (AuthFailure (of_nat (unat (ap_max_attempts p) - Suc (unat n))), n + 1))"
    and "unat (n + 1) = Suc (unat n)"
proof -
  have inc: "unat (n + 1) = Suc (unat n)" using assms unat_Suc_word [of n] by simp
  then show "unat (n + 1) = Suc (unat n)" .
  have le: "ap_max_attempts p \<le> n + 1 \<longleftrightarrow> unat (ap_max_attempts p) \<le> Suc (unat n)" by (simp add: word_le_nat_alt inc)
  have "ap_max_attempts p - (n + 1) = of_nat (unat (ap_max_attempts p) - Suc (unat n))"
    if "\<not> unat (ap_max_attempts p) \<le> Suc (unat n)"
    using that inc by (simp add: of_nat_diff)
  with le show "check a r p n =
    (if a r = Inr () then (AuthSuccess, 0)
     else if unat (ap_max_attempts p) \<le> Suc (unat n) then (AuthLockedOut (as_secs (ap_lockout p)), n + 1)
     else (AuthFailure (of_nat (unat (ap_max_attempts p) - Suc (unat n))), n + 1))"
    by (cases "a r") (simp_all add: check_def Let_def)
qed

lemma door_view_try:
  assumes "unat (attempts_of m (req_session_id r)) < 2 ^ 32 - 1"
  shows "door_try (a r = Inr ()) p now (door_view m (req_session_id r)) =
      (door_view (fst (attempt_unlock a r p now m)) (req_session_id r), snd (attempt_unlock a r p now m))"
proof (cases "lock_state_of m (req_session_id r) = LockLockedOut")
  case True
  then show ?thesis
    by (simp add: attempt_unlock_locked_out door_try_def door_view_def lock_state_of_def attempts_of_def hm_entry_def)
next
  case False
  let ?n = "attempts_of m (req_session_id r)"
  show ?thesis
    using False check_view(1) [OF assms, of a r p] check_view(2) [OF assms]
    by (simp add: door_view_def door_try_def attempt_unlock_outcome attempt_unlock_state attempt_unlock_attempts
        attempt_unlock_timeouts start_lockout_def)
qed

lemma door_view_try_other:
  "i \<noteq> req_session_id r \<Longrightarrow> door_view (fst (attempt_unlock a r p now m)) i = door_view m i"
  by (simp add: door_view_def attempt_unlock_state attempt_unlock_attempts attempt_unlock_timeouts start_lockout_def)

lemma clear_lockouts_entry:
  "hm_entry i session_lock_default (lm_locks (fold clear_lockout sids m)) =
     (let l = hm_entry i session_lock_default (lm_locks m)
      in if i \<in> set sids \<and> lk_state l = LockLockedOut then l\<lparr>lk_state := LockLocked, lk_attempts := 0\<rparr> else l)"
proof (induction sids arbitrary: m)
  case (Cons x sids)
  then show ?case
    by (auto simp: clear_lockout_def hm_entry_def Let_def session_lock_default_def split: option.split)
qed simp

lemma lm_ok_unlock: "lm_ok m \<Longrightarrow> lm_ok (lm_unlock sid m)"
  by (simp add: lm_ok_def lm_unlock_def cancel_grace_def)

lemma lm_ok_sweep:
  assumes "lm_ok m"
  shows "lm_ok (sweep_lockouts now m)"
proof -
  have "lm_ok (m\<lparr>lm_timeouts := fst (expired_lockouts (lm_timeouts m) now)\<rparr>)"
    using assms by (simp add: expired_lockouts_eq lm_ok_def drain_expired_ok)
  then show ?thesis by (simp add: sweep_lockouts_def split_def lm_ok_clear_lockouts)
qed

lemma door_view_sweep:
  assumes "lm_ok m"
  shows "door_view (sweep_lockouts now m) = door_sweep now \<circ> door_view m"
proof
  fix i
  let ?t = "lockout_expiry (lm_timeouts m)"
  have "i \<in> set (snd (drain_expired ?t now)) \<longleftrightarrow> (\<exists>t. hm_get ?t i = Some t \<and> t \<le> now)"
    using assms by (intro drain_expired_reports) (simp add: lm_ok_def)
  then show "door_view (sweep_lockouts now m) i = (door_sweep now \<circ> door_view m) i"
    by (auto simp: sweep_lockouts_def expired_lockouts_eq door_view_def door_sweep_def lock_state_of_def attempts_of_def
        clear_lockouts_entry drain_expired_get Let_def split: option.split)
qed

lemma holds_view_add:
  assumes "unat (inh_next_id reg) < 2 ^ 32" "inhibitor_add what who why mode reg = (reg', i)"
  shows "unat i = Suc (unat (inh_next_id reg))" "unat (inh_next_id reg') = Suc (unat (inh_next_id reg))"
    "by_nat (hm_get (inhibitors reg')) = (by_nat (hm_get (inhibitors reg)))(unat i \<mapsto>
       \<lparr>inh_id = i, inh_what = what, inh_who = who, inh_why = why, inh_mode = mode\<rparr>)"
proof -
  have inc: "unat (inh_next_id reg + 1) = Suc (unat (inh_next_id reg))"
    using assms(1) unat_Suc_word [of "inh_next_id reg"] by simp
  have get: "hm_get (inhibitors reg') =
      (hm_get (inhibitors reg))(i \<mapsto> \<lparr>inh_id = i, inh_what = what, inh_who = who, inh_why = why, inh_mode = mode\<rparr>)"
    using assms(2) by (auto simp: inhibitor_add_def Let_def)
  show "unat i = Suc (unat (inh_next_id reg))" "unat (inh_next_id reg') = Suc (unat (inh_next_id reg))"
    using assms(2) inc by (auto simp: inhibitor_add_def Let_def)
  show "by_nat (hm_get (inhibitors reg')) = (by_nat (hm_get (inhibitors reg)))(unat i \<mapsto>
       \<lparr>inh_id = i, inh_what = what, inh_who = who, inh_why = why, inh_mode = mode\<rparr>)"
    unfolding get by (rule by_nat_update)
qed

lemma holds_view_remove:
  "by_nat (hm_get (inhibitors (fst (inhibitor_remove i reg)))) = (by_nat (hm_get (inhibitors reg)))(unat i := None)"
  "snd (inhibitor_remove i reg) = (if by_nat (hm_get (inhibitors reg)) (unat i) = None then Inl (UnknownInhibitor i) else Inr ())"
proof -
  have "hm_get (inhibitors (fst (inhibitor_remove i reg))) = (hm_get (inhibitors reg))(i := None)"
    by (simp add: fun_eq_iff inhibitor_remove_def)
  then show "by_nat (hm_get (inhibitors (fst (inhibitor_remove i reg)))) = (by_nat (hm_get (inhibitors reg)))(unat i := None)"
    by (simp only: by_nat_update)
qed (simp add: inhibitor_remove_def split: option.split)

lemma door_view_inhibitors [simp]: "door_view (m\<lparr>lm_inhibitors := reg\<rparr>) = door_view m"
  by (simp add: door_view_def fun_eq_iff lock_state_of_def attempts_of_def)

lemma lm_call_refines:
  assumes "lm_keeps n m" "n < 2 ^ 32 - 1" "lm_call x m = (m', r)"
  shows "doors_call x (lock_view m) = (lock_view m', r)"
proof -
  have ok: "lm_ok m" "hm_ok (inhibitors (lm_inhibitors m))" and small: "unat (attempts_of m sid) < 2 ^ 32 - 1"
    "unat (inh_next_id (lm_inhibitors m)) < 2 ^ 32" for sid
    using assms(1,2) by (auto simp: lm_keeps_def lm_ok_def intro: le_less_trans)
  show ?thesis
  proof (cases x)
    case (LockCall sid q)
    with assms(3) blocks_view [OF ok(2)] door_view_lock [of sid q m] show ?thesis
      by (auto simp: lock_view_def lm_lock_def)
  next
    case (UnlockCall sid)
    with assms(3) show ?thesis
      by (auto simp: lock_view_def door_view_unlock) (simp_all add: lm_unlock_def)
  next
    case (TryCall a p req now)
    with assms(3) show ?thesis
      using door_view_try [where r = req and a = a and p = p and now = now, OF small(1)] door_view_try_other [where r = req and a = a and p = p and now = now and m = m]
      by (auto simp: lock_view_def split_def fun_eq_iff)
  next
    case (SweepCall now)
    with assms(3) show ?thesis
      using door_view_sweep [OF ok(1), of now]
      by (auto simp: lock_view_def sweep_lockouts_def expired_lockouts_eq)
  next
    case (InhibitCall what who why mode)
    obtain reg i where add: "inhibitor_add what who why mode (lm_inhibitors m) = (reg, i)" by fastforce
    note view = holds_view_add [OF small(2) add]
    have "of_nat (Suc (unat (inh_next_id (lm_inhibitors m)))) = i" by (simp flip: view(1))
    with assms(3) InhibitCall add view show ?thesis
      by (auto simp: lock_view_def add_inhibitor_def Let_def simp del: of_nat_Suc)
  next
    case (ReleaseCall i)
    have "inh_next_id (fst (inhibitor_remove i reg)) = inh_next_id reg" for reg by (simp add: inhibitor_remove_def)
    then show ?thesis
      using assms(3) ReleaseCall holds_view_remove [of i "lm_inhibitors m"]
      by (auto simp: lock_view_def release_inhibitor_def split_def)
  qed
qed

lemma doors_call_wrong:
  assumes "\<forall>sid. dr_wrong (door_of s sid) \<le> n"
  shows "dr_wrong (door_of (fst (doors_call x s)) sid) \<le> Suc n"
proof -
  have "dr_wrong (fst (door_try ok p now d)) \<le> Suc n" "dr_wrong (door_sweep now d) \<le> Suc n" if "dr_wrong d \<le> n" for ok p now d
    using that by (simp_all add: door_try_def door_sweep_def Let_def split: option.split)
  with assms show ?thesis by (cases x) (auto simp: split_def Let_def intro: le_SucI)
qed

lemma doors_call_holds: "last_hold s \<le> n \<Longrightarrow> last_hold (fst (doors_call x s)) \<le> Suc n"
  by (cases x) (simp_all add: split_def Let_def)

lemma lm_call_keeps:
  assumes "lm_keeps n m" "n < 2 ^ 32 - 1" "lm_call x m = (m', r)"
  shows "lm_keeps (Suc n) m'"
proof -
  have ok: "lm_ok m" using assms(1) by (simp add: lm_keeps_def)
  have "lm_ok m'"
    using assms(3) lm_ok_lock [OF ok] lm_ok_attempt [OF ok] lm_ok_add_inhibitor [OF ok] lm_ok_release_inhibitor [OF ok]
      lm_ok_unlock [OF ok] lm_ok_sweep [OF ok]
    by (cases x) (auto simp: split_def)
  moreover have "unat (attempts_of m' sid) \<le> Suc n" for sid
    using doors_call_wrong [of "lock_view m" n x sid] assms(1) lm_call_refines [OF assms]
    by (simp add: lm_keeps_def lock_view_def door_view_def)
  moreover have "unat (inh_next_id (lm_inhibitors m')) \<le> Suc n"
    using doors_call_holds [of "lock_view m" n x] assms(1) lm_call_refines [OF assms]
    by (simp add: lm_keeps_def lock_view_def)
  ultimately show ?thesis by (simp add: lm_keeps_def)
qed

text \<open>No call of the lock manager has a precondition.\<close>

interpretation lock_doors: refinement lm_call doors_call lock_view lm_keeps "\<lambda>_ _. True" "2 ^ 32 - 1"
  by unfold_locales (intro conjI lm_call_refines lm_call_keeps; assumption)

lemma lm_keeps_new: "lm_keeps 0 lm_new" "lock_view lm_new = doors_new"
  by (simp_all add: lm_keeps_def lm_new_def attempts_of_def hm_entry_def session_lock_default_def inhibitors_new_def
      lm_ok_def lock_timeouts_new_def lock_view_def doors_new_def door_view_def lock_state_of_def by_nat_def fun_eq_iff)

lemma always_admitted: "admitted (\<lambda>_ _. True) spec xs s"
  by (induction xs arbitrary: s) simp_all

subsection \<open>Properties\<close>

text \<open>
  C11. The lock manager implements the doors: whatever calls are made of it from the start, fewer than
  $2^{32}$ of them and in any order, each attempt with its own authenticator and policy, it gives the answers
  of the specification, error for error, and each session's lock state, count of wrong passwords and
  end of lockout, and the inhibitors held with all they say, are the specification's. So sessions do not
  affect each other, an inhibitor's id is never given out twice, a lock is refused exactly while
  locking is disabled or a blocking inhibitor is held, and hash maps and 32-bit counters make no
  difference.
\<close>

theorem lock_manager_implements_doors:
  assumes "length xs < 2 ^ 32" "calls lm_call xs lm_new = (m, answers)"
  shows "calls doors_call xs doors_new = (lock_view m, answers)"
  using lock_doors.calls_refine [OF lm_keeps_new(1) _ always_admitted assms(2)] assms(1) lm_keeps_new(2) by simp

theorem lock_manager_implements_doors_witness:
  "snd (calls doors_call
      [LockCall 1 sample_lock_policy, TryCall (password_auth ''alice'' ''d'') sample_auth_policy (guess 1 ''a'') 0,
       InhibitCall InhibitLock ''kiosk'' ''demo'' BlockMode, LockCall 2 sample_lock_policy, ReleaseCall 1,
       TryCall (password_auth ''alice'' ''d'') sample_auth_policy (guess 1 ''d'') 0] doors_new) =
     [Answered (Inr ()), Outcome (AuthFailure 2), Held 1,
      Answered (Inl (PermissionDenied ''an application is inhibiting the lock screen'')), Answered (Inr ()), Outcome AuthSuccess]"
  (is "snd (calls _ ?xs _) = ?answers")
proof -
  let ?c = "calls lm_call ?xs lm_new"
  have "snd ?c = ?answers" by code_simp
  moreover have "length ?xs < 2 ^ 32" by simp
  from lock_manager_implements_doors [OF this prod.collapse [symmetric]] have
    "calls doors_call ?xs doors_new = (lock_view (fst ?c), snd ?c)" .
  ultimately show ?thesis by simp
qed

end
