(* ===== verification/Elevation_Desk.thy ===== *)
theory Elevation_Desk
  imports Elevation Lock_Doors
begin

section \<open>The elevation manager as a desk of open prompts\<close>

text \<open>
  What \<open>src/elevation/manager.rs\<close> promises, as a specification without hash maps and machine integers: a
  numbered list of open prompts, each with its session, its two connections and the time it is due, and
  for every session a guard with the wrong passwords counted, whether the session is barred, and the time
  the bar is lifted. The manager implements it, call by call and answer by answer.
\<close>

subsection \<open>Calls\<close>

datatype elev_call =
    BeginCall session_id conn_id conn_id elevation_policy auth_policy instant
  | AnswerCall request_id authenticator auth_request auth_policy instant
  | CancelCall request_id
  | LiftCall instant
  | ExpireCall instant
  | EndSessionCall session_id
  | DropConnCall conn_id

text \<open>
  Prompts closed without an answer are reported in the order of a hash map, so the answer is the set
  of reports, together with whether all of them are of different prompts.
\<close>

datatype elev_answer =
    Opened nat
  | Refused session_error
  | Resolved "elevation_outcome option"
  | Closed_Prompts "abandoned_elevation set" bool
  | Nothing

definition closed_prompts :: "abandoned_elevation list \<Rightarrow> elev_answer" where
  "closed_prompts as = Closed_Prompts (set as) (distinct (map ab_request_id as))"

fun em_call :: "elev_call \<Rightarrow> elevation_manager \<Rightarrow> elevation_manager \<times> elev_answer" where
  "em_call (BeginCall sid cconn rconn ep policy now) m =
     (case em_begin sid cconn rconn ep policy now m of
        (m', Inr i) \<Rightarrow> (m', Opened (unat i))
      | (m', Inl e) \<Rightarrow> (m', Refused e))"
| "em_call (AnswerCall i auth r policy now) m = (case em_attempt i auth r policy now m of (m', out) \<Rightarrow> (m', Resolved out))"
| "em_call (CancelCall i) m = (case em_cancel i m of (m', out) \<Rightarrow> (m', Resolved out))"
| "em_call (LiftCall now) m = (clear_expired_lockouts now m, Nothing)"
| "em_call (ExpireCall now) m = (case expire_pending now m of (m', as) \<Rightarrow> (m', closed_prompts as))"
| "em_call (EndSessionCall sid) m = (case abandon_session sid m of (m', as) \<Rightarrow> (m', closed_prompts as))"
| "em_call (DropConnCall c) m = (case abandon_connection c m of (m', as) \<Rightarrow> (m', closed_prompts as))"

subsection \<open>The specification\<close>

record prompt =
  pr_of :: pending_elevation
  pr_due :: instant

record guard =
  gd_barred :: bool
  gd_wrong :: nat
  gd_lifted :: "instant option"

record desk =
  dk_open :: "nat \<Rightarrow> prompt option"
  dk_last :: nat
  dk_guard :: "session_id \<Rightarrow> guard"

definition desk_new :: desk where
  "desk_new = \<lparr>dk_open = Map.empty, dk_last = 0, dk_guard = (\<lambda>_. \<lparr>gd_barred = False, gd_wrong = 0, gd_lifted = None\<rparr>)\<rparr>"

definition open_for :: "desk \<Rightarrow> session_id \<Rightarrow> nat" where
  "open_for d sid = card {n. \<exists>p. dk_open d n = Some p \<and> pe_session_id (pr_of p) = sid}"

definition guard_try :: "bool \<Rightarrow> auth_policy \<Rightarrow> instant \<Rightarrow> guard \<Rightarrow> guard \<times> auth_outcome" where
  "guard_try accepted policy now g =
     (let wrong = Suc (gd_wrong g); most = unat (ap_max_attempts policy)
      in if accepted then (g\<lparr>gd_wrong := 0\<rparr>, AuthSuccess)
         else if most \<le> wrong then
           (g\<lparr>gd_wrong := wrong, gd_barred := True, gd_lifted := Some (now + ap_lockout policy)\<rparr>,
            AuthLockedOut (as_secs (ap_lockout policy)))
         else (g\<lparr>gd_wrong := wrong\<rparr>, AuthFailure (of_nat (most - wrong))))"

definition guard_lift :: "instant \<Rightarrow> guard \<Rightarrow> guard" where
  "guard_lift now g =
     (case gd_lifted g of
        Some t \<Rightarrow> if t \<le> now then \<lparr>gd_barred = False, gd_wrong = 0, gd_lifted = None\<rparr> else g
      | None \<Rightarrow> g)"

definition outcome_of :: "pending_elevation \<Rightarrow> auth_outcome \<Rightarrow> elevation_outcome" where
  "outcome_of p out = \<lparr>eo_session_id = pe_session_id p, eo_compositor_conn = pe_compositor_conn p,
     eo_requester_conn = pe_requester_conn p, eo_outcome = out, eo_terminal = (\<not> is_AuthFailure out)\<rparr>"

text \<open>Closing every open prompt that satisfies a condition.\<close>

definition desk_close :: "(prompt \<Rightarrow> bool) \<Rightarrow> desk \<Rightarrow> desk \<times> elev_answer" where
  "desk_close P d =
     (d\<lparr>dk_open := (\<lambda>n. case dk_open d n of None \<Rightarrow> None | Some p \<Rightarrow> if P p then None else Some p)\<rparr>,
      Closed_Prompts {abandoned_of (of_nat n) (pr_of p) | n p. dk_open d n = Some p \<and> P p} True)"

fun desk_call :: "elev_call \<Rightarrow> desk \<Rightarrow> desk \<times> elev_answer" where
  "desk_call (BeginCall sid cconn rconn ep policy now) d =
     (if gd_barred (dk_guard d sid) then (d, Refused (LockedOutError (as_secs (ap_lockout policy))))
      else if ep_max_pending ep \<le> open_for d sid then
        (d, Refused (PermissionDenied
           (''session '' @ show_word sid @ '' already has '' @ dec_digits (open_for d sid) @ '' elevation prompt(s) pending'')))
      else
        (d\<lparr>dk_last := Suc (dk_last d),
           dk_open := (dk_open d)(Suc (dk_last d) \<mapsto>
             \<lparr>pr_of = \<lparr>pe_session_id = sid, pe_compositor_conn = cconn, pe_requester_conn = rconn\<rparr>,
              pr_due = now + ep_prompt_timeout ep\<rparr>)\<rparr>,
         Opened (Suc (dk_last d))))"
| "desk_call (AnswerCall i auth r policy now) d =
     (case dk_open d (unat i) of
        None \<Rightarrow> (d, Resolved None)
      | Some p \<Rightarrow>
          (let sid = pe_session_id (pr_of p)
           in (case guard_try (auth r = Inr ()) policy now (dk_guard d sid) of
                 (g, out) \<Rightarrow>
                   (d\<lparr>dk_guard := (dk_guard d)(sid := g),
                      dk_open := (if is_AuthFailure out then dk_open d else (dk_open d)(unat i := None))\<rparr>,
                    Resolved (Some (outcome_of (pr_of p) out))))))"
| "desk_call (CancelCall i) d =
     (case dk_open d (unat i) of
        None \<Rightarrow> (d, Resolved None)
      | Some p \<Rightarrow> (d\<lparr>dk_open := (dk_open d)(unat i := None)\<rparr>, Resolved (Some (outcome_of (pr_of p) AuthCancelled))))"
| "desk_call (LiftCall now) d = (d\<lparr>dk_guard := guard_lift now \<circ> dk_guard d\<rparr>, Nothing)"
| "desk_call (ExpireCall now) d = desk_close (\<lambda>p. pr_due p \<le> now) d"
| "desk_call (EndSessionCall sid) d = desk_close (\<lambda>p. pe_session_id (pr_of p) = sid) d"
| "desk_call (DropConnCall c) d =
     desk_close (\<lambda>p. pe_compositor_conn (pr_of p) = c \<or> pe_requester_conn (pr_of p) = c) d"

subsection \<open>The view\<close>

definition prompt_view :: "elevation_manager \<Rightarrow> request_id \<Rightarrow> prompt option" where
  "prompt_view m i =
     (case hm_get (em_pending m) i of
        None \<Rightarrow> None
      | Some p \<Rightarrow> Some \<lparr>pr_of = p, pr_due = the (hm_get (prompt_expiry (em_timeouts m)) i)\<rparr>)"

definition guard_view :: "elevation_manager \<Rightarrow> session_id \<Rightarrow> guard" where
  "guard_view m sid = \<lparr>gd_barred = elev_locked_out m sid, gd_wrong = unat (elev_attempts m sid),
     gd_lifted = hm_get (elev_lockout_expiry (em_timeouts m)) sid\<rparr>"

definition desk_view :: "elevation_manager \<Rightarrow> desk" where
  "desk_view m = \<lparr>dk_open = by_nat (prompt_view m), dk_last = unat (em_next_id m), dk_guard = guard_view m\<rparr>"

definition em_keeps :: "nat \<Rightarrow> elevation_manager \<Rightarrow> bool" where
  "em_keeps n m \<longleftrightarrow> em_inv m \<and> (\<forall>sid. unat (elev_attempts m sid) \<le> n) \<and> unat (em_next_id m) \<le> n"

subsection \<open>Counting and closing\<close>

lemma hm_count_card:
  assumes "hm_ok m"
  shows "hm_count P m = card {k. \<exists>v. hm_get m k = Some v \<and> P v}"
proof -
  have "{k. \<exists>v. hm_get m k = Some v \<and> P v} = set (map fst (filter (\<lambda>(_, v). P v) m))"
    by (force simp: hm_get_iff [OF assms])
  moreover have "distinct (map fst (filter (\<lambda>(_, v). P v) m))"
    using assms by (simp add: hm_ok_def hm_keys_def distinct_map_filter)
  moreover have "length (filter P (map snd m)) = length (filter (\<lambda>(_, v). P v) m)"
    by (simp add: filter_map comp_def split_def)
  ultimately show ?thesis by (metis distinct_card hm_count_def hm_values_def length_map)
qed

lemma card_by_nat: "card {n. \<exists>v. by_nat f n = Some v \<and> P v} = card {i. \<exists>v. f i = Some v \<and> P v}"
proof -
  have "{n. \<exists>v. by_nat f n = Some v \<and> P v} = unat ` {i. \<exists>v. f i = Some v \<and> P v}"
  proof (intro equalityI subsetI)
    fix n assume "n \<in> {n. \<exists>v. by_nat f n = Some v \<and> P v}"
    then show "n \<in> unat ` {i. \<exists>v. f i = Some v \<and> P v}" by (cases rule: by_nat_cases [of n f]) auto
  qed auto
  then show ?thesis by (simp add: card_image inj_on_def word_unat_eq_iff)
qed

lemma open_for_view:
  assumes "em_inv m"
  shows "open_for (desk_view m) sid = pending_of sid m"
proof -
  have "{i. \<exists>v. prompt_view m i = Some v \<and> pe_session_id (pr_of v) = sid} =
      {i. \<exists>p. hm_get (em_pending m) i = Some p \<and> pe_session_id p = sid}"
    by (auto simp: prompt_view_def split: option.splits)
  moreover have "hm_ok (em_pending m)" using assms by (simp add: em_inv_def)
  ultimately show ?thesis by (simp add: open_for_def desk_view_def card_by_nat pending_of_def hm_count_card)
qed

lemma closes_view:
  assumes "closes {i. \<exists>p. prompt_view m i = Some p \<and> P p} m m'"
    and "set as = {abandoned_of i (pr_of p) | i p. prompt_view m i = Some p \<and> P p}" "distinct (map ab_request_id as)"
  shows "desk_close P (desk_view m) = (desk_view m', closed_prompts as)"
proof -
  have guards: "guard_view m' = guard_view m"
    using assms(1) by (simp add: fun_eq_iff closes_def guard_view_def elev_locked_out_def elev_attempts_def)
  have prompts: "prompt_view m' i = (case prompt_view m i of None \<Rightarrow> None | Some p \<Rightarrow> if P p then None else Some p)" for i
    using assms(1) by (cases "prompt_view m i") (auto simp: closes_def prompt_view_def split: option.splits if_splits)
  have "by_nat (prompt_view m') =
      (\<lambda>n. case by_nat (prompt_view m) n of None \<Rightarrow> None | Some p \<Rightarrow> if P p then None else Some p)"
    by (rule by_nat_eqI) (simp_all add: prompts by_nat_None)
  moreover have "{abandoned_of (of_nat n) (pr_of p) | n p. by_nat (prompt_view m) n = Some p \<and> P p} = set as"
    unfolding assms(2)
  proof (intro equalityI subsetI)
    fix x assume "x \<in> {abandoned_of (of_nat n) (pr_of p) | n p. by_nat (prompt_view m) n = Some p \<and> P p}"
    then obtain n p where x: "x = abandoned_of (of_nat n) (pr_of p)" "by_nat (prompt_view m) n = Some p" "P p" by blast
    then show "x \<in> {abandoned_of i (pr_of p) | i p. prompt_view m i = Some p \<and> P p}"
      by (cases rule: by_nat_cases [of n "prompt_view m"]) auto
  next
    fix x assume "x \<in> {abandoned_of i (pr_of p) | i p. prompt_view m i = Some p \<and> P p}"
    then obtain i p where "x = abandoned_of i (pr_of p)" "prompt_view m i = Some p" "P p" by blast
    then show "x \<in> {abandoned_of (of_nat n) (pr_of p) | n p. by_nat (prompt_view m) n = Some p \<and> P p}"
      by (intro CollectI exI [of _ "unat i"] exI [of _ p]) simp
  qed
  ultimately show ?thesis
    using assms(1,3) by (simp add: desk_close_def desk_view_def closed_prompts_def guards closes_def)
qed

lemma abandon_view:
  assumes "em_inv m"
  shows "desk_close (\<lambda>p. Q (pr_of p)) (desk_view m) =
    (desk_view (fst (abandon_where Q m)), closed_prompts (snd (abandon_where Q m)))"
proof -
  have ok: "hm_ok (em_pending m)" using assms by (simp add: em_inv_def)
  have eq: "(\<exists>p. prompt_view m i = Some p \<and> Q (pr_of p)) \<longleftrightarrow> (\<exists>p. hm_get (em_pending m) i = Some p \<and> Q p)" for i
    by (auto simp: prompt_view_def split: option.splits)
  have "{abandoned_of i (pr_of p) | i p. prompt_view m i = Some p \<and> Q (pr_of p)} =
      {abandoned_of i p | i p. hm_get (em_pending m) i = Some p \<and> Q p}"
    by (force simp: prompt_view_def split: option.splits)
  with abandon_where_closes [OF ok, of Q] abandon_where_reports [OF ok, of Q] show ?thesis
    by (intro closes_view) (simp_all add: eq)
qed

lemma expire_view:
  assumes "em_inv m"
  shows "desk_close (\<lambda>p. pr_due p \<le> now) (desk_view m) =
    (desk_view (fst (expire_pending now m)), closed_prompts (snd (expire_pending now m)))"
proof -
  have due: "(\<exists>p. prompt_view m i = Some p \<and> pr_due p \<le> now) \<longleftrightarrow>
      (\<exists>t. hm_get (prompt_expiry (em_timeouts m)) i = Some t \<and> t \<le> now)" for i
  proof -
    have "hm_get (prompt_expiry (em_timeouts m)) i = None \<longleftrightarrow> hm_get (em_pending m) i = None"
      using assms by (simp add: em_inv_def)
    then show ?thesis by (auto simp: prompt_view_def split: option.splits)
  qed
  have "{abandoned_of i (pr_of p) | i p. prompt_view m i = Some p \<and> pr_due p \<le> now} =
      {abandoned_of i p | i p. hm_get (em_pending m) i = Some p
         \<and> (\<exists>t. hm_get (prompt_expiry (em_timeouts m)) i = Some t \<and> t \<le> now)}"
    unfolding due [symmetric] by (force simp: prompt_view_def split: option.splits)
  with expire_pending_closes [OF assms, of now] expire_pending_reports [OF assms, of now] show ?thesis
    by (intro closes_view) (simp_all add: due)
qed

subsection \<open>Each call\<close>

lemma begin_view:
  assumes inv: "em_inv m" and small: "unat (em_next_id m) < 2 ^ 32"
    and b: "em_call (BeginCall sid cconn rconn ep policy now) m = (m', r)"
  shows "desk_call (BeginCall sid cconn rconn ep policy now) (desk_view m) = (desk_view m', r)"
proof -
  let ?i = "em_next_id m + 1" and ?p = "\<lparr>pe_session_id = sid, pe_compositor_conn = cconn, pe_requester_conn = rconn\<rparr>"
  have inc: "unat ?i = Suc (unat (em_next_id m))" using small unat_Suc_word [of "em_next_id m"] by simp
  have barred: "(case hm_get (em_session_auth m) sid of None \<Rightarrow> False | Some a \<Rightarrow> ea_locked_out a) = elev_locked_out m sid"
    by (simp add: elev_locked_out_def hm_entry_def session_elevation_auth_default_def split: option.split)
  let ?m = "m\<lparr>em_next_id := ?i, em_pending := hm_insert ?i ?p (em_pending m),
      em_timeouts := start_prompt (em_timeouts m) ?i now (ep_prompt_timeout ep)\<rparr>"
  have "prompt_view ?m = (prompt_view m)(?i \<mapsto> \<lparr>pr_of = ?p, pr_due = now + ep_prompt_timeout ep\<rparr>)"
    by (simp add: fun_eq_iff prompt_view_def start_prompt_def split: option.split)
  moreover have "guard_view ?m = guard_view m"
    by (simp add: fun_eq_iff guard_view_def elev_locked_out_def elev_attempts_def start_prompt_def)
  ultimately have new: "desk_view ?m = (desk_view m)\<lparr>dk_last := Suc (unat (em_next_id m)),
      dk_open := (by_nat (prompt_view m))(Suc (unat (em_next_id m)) \<mapsto> \<lparr>pr_of = ?p, pr_due = now + ep_prompt_timeout ep\<rparr>)\<rparr>"
    by (simp add: desk_view_def by_nat_update inc)
  have flds: "gd_barred (dk_guard (desk_view m) sid) = elev_locked_out m sid" "dk_last (desk_view m) = unat (em_next_id m)"
    "dk_open (desk_view m) = by_nat (prompt_view m)" by (simp_all add: desk_view_def guard_view_def)
  show ?thesis
    using b new inc by (auto simp: em_begin_def barred flds open_for_view [OF inv] pending_of_def Let_def split: if_splits)
qed

lemma answer_view:
  assumes small: "\<And>sid. unat (elev_attempts m sid) < 2 ^ 32 - 1"
    and b: "em_call (AnswerCall i auth req policy now) m = (m', r)"
  shows "desk_call (AnswerCall i auth req policy now) (desk_view m) = (desk_view m', r)"
proof (cases "hm_get (em_pending m) i")
  case None
  with b have "m' = m" "r = Resolved None" by (simp_all add: em_attempt_None)
  with None show ?thesis by (simp add: desk_view_def prompt_view_def)
next
  case (Some pe)
  let ?sid = "pe_session_id pe"
  obtain out n where ch: "check auth req policy (elev_attempts m ?sid) = (out, n)" by fastforce
  have m': "m' = fst (em_attempt i auth req policy now m)"
    and r: "r = Resolved (Some (outcome_of pe out))"
    using b em_attempt_outcome [OF Some, of auth req policy now] ch by (auto simp: split_def Let_def outcome_of_def)
  note st = em_attempt_state [OF Some refl ch m']
  have tried: "guard_try (auth req = Inr ()) policy now (guard_view m ?sid) = (guard_view m' ?sid, out)"
    using check_view(1) [OF small, of auth req policy ?sid] check_view(2) [OF small, of ?sid] ch
    by (auto simp: guard_try_def guard_view_def st(1,2,5) split: if_splits)
  have other: "guard_view m' s = guard_view m s" if "s \<noteq> ?sid" for s
    using that by (simp add: guard_view_def st(1,2,5))
  then have guards: "guard_view m' = (guard_view m)(?sid := guard_view m' ?sid)" by (simp add: fun_eq_iff)
  have "prompt_view m' = (if is_AuthFailure out then prompt_view m else (prompt_view m)(i := None))"
    by (simp add: fun_eq_iff prompt_view_def st(3,4) split: option.split)
  then have prompts: "by_nat (prompt_view m') = (if is_AuthFailure out then by_nat (prompt_view m) else (by_nat (prompt_view m))(unat i := None))"
    by (simp add: by_nat_update)
  from Some obtain p where p: "prompt_view m i = Some p" "pr_of p = pe" by (simp add: prompt_view_def)
  show ?thesis
    using guards by (simp add: desk_view_def p tried prompts st(6) r)
qed

lemma cancel_view:
  assumes "em_call (CancelCall i) m = (m', r)"
  shows "desk_call (CancelCall i) (desk_view m) = (desk_view m', r)"
proof (cases "hm_get (em_pending m) i")
  case None
  with assms show ?thesis by (auto simp: em_cancel_def desk_view_def prompt_view_def)
next
  case (Some pe)
  have cl: "closes {i} m (fst (em_cancel i m))" using Some by (intro closes_cancel) simp
  then have "prompt_view (fst (em_cancel i m)) = (prompt_view m)(i := None)" "guard_view (fst (em_cancel i m)) = guard_view m"
    "em_next_id (fst (em_cancel i m)) = em_next_id m"
    by (auto simp: closes_def fun_eq_iff prompt_view_def guard_view_def elev_locked_out_def elev_attempts_def split: option.split)
  with Some assms show ?thesis
    by (auto simp: desk_view_def by_nat_update prompt_view_def em_cancel_def outcome_of_def)
qed

lemma lift_view:
  assumes "em_inv m"
  shows "desk_view (clear_expired_lockouts now m) = (desk_view m)\<lparr>dk_guard := guard_lift now \<circ> dk_guard (desk_view m)\<rparr>"
proof -
  let ?t = "elev_lockout_expiry (em_timeouts m)" and ?m = "clear_expired_lockouts now m"
  have ok: "hm_ok ?t" using assms by (simp add: em_inv_def)
  have frame: "em_pending ?m = em_pending m" "prompt_expiry (em_timeouts ?m) = prompt_expiry (em_timeouts m)" "em_next_id ?m = em_next_id m"
    "elev_lockout_expiry (em_timeouts ?m) = fst (drain_expired ?t now)"
    by (simp_all add: clear_expired_lockouts_def elev_expired_lockouts_eq)
  have "guard_view ?m s = guard_lift now (guard_view m s)" for s
  proof -
    have due: "s \<in> set (snd (drain_expired ?t now)) \<longleftrightarrow> (\<exists>t. hm_get ?t s = Some t \<and> t \<le> now)" by (rule drain_expired_reports [OF ok])
    have "hm_get (em_session_auth ?m) s = (if s \<in> set (snd (drain_expired ?t now))
        then map_option (\<lambda>a. a\<lparr>ea_locked_out := False, ea_attempts := 0\<rparr>) (hm_get (em_session_auth m) s) else hm_get (em_session_auth m) s)"
      by (simp add: clear_expired_lockouts_def elev_expired_lockouts_eq clear_elev_lockouts_get)
    then show ?thesis
      using due by (auto simp: guard_view_def guard_lift_def frame drain_expired_get elev_locked_out_def elev_attempts_def
          hm_entry_def session_elevation_auth_default_def split: option.split)
  qed
  then have "guard_view ?m = guard_lift now \<circ> guard_view m" by (simp add: fun_eq_iff)
  moreover have "prompt_view ?m = prompt_view m" by (simp add: fun_eq_iff prompt_view_def frame split: option.split)
  ultimately show ?thesis by (simp add: desk_view_def frame)
qed

lemma em_call_refines:
  assumes "em_keeps n m" "n < 2 ^ 32 - 1" "em_call x m = (m', r)"
  shows "desk_call x (desk_view m) = (desk_view m', r)"
proof -
  have inv: "em_inv m" and small: "\<And>sid. unat (elev_attempts m sid) < 2 ^ 32 - 1" "unat (em_next_id m) < 2 ^ 32"
    using assms(1,2) by (auto simp: em_keeps_def intro: le_less_trans)
  show ?thesis
  proof (cases x)
    case (BeginCall sid cconn rconn ep policy now)
    with begin_view [OF inv small(2)] assms(3) show ?thesis by blast
  next
    case (AnswerCall i auth req policy now)
    with answer_view [OF small(1)] assms(3) show ?thesis by blast
  next
    case (CancelCall i)
    with cancel_view assms(3) show ?thesis by blast
  next
    case (LiftCall now)
    with lift_view [OF inv, of now] assms(3) show ?thesis by auto
  next
    case (ExpireCall now)
    with expire_view [OF inv, of now] assms(3) show ?thesis by (simp add: split_def)
  next
    case (EndSessionCall sid)
    with abandon_view [OF inv, of "\<lambda>p. pe_session_id p = sid"] assms(3) show ?thesis
      by (simp add: abandon_session_def split_def)
  next
    case (DropConnCall c)
    with abandon_view [OF inv, of "\<lambda>p. pe_compositor_conn p = c \<or> pe_requester_conn p = c"] assms(3) show ?thesis
      by (simp add: abandon_connection_def split_def)
  qed
qed

lemma em_inv_call:
  assumes "em_inv m" "Suc (unat (em_next_id m)) < 2 ^ 64" "em_call x m = (m', r)"
  shows "em_inv m'"
proof -
  have ok: "hm_ok (em_pending m)" using assms(1) by (simp add: em_inv_def)
  have "em_inv (fst (em_begin sid cconn rconn ep policy now m))" for sid cconn rconn ep policy now
    using em_inv_begin [OF assms(1,2)] by (metis prod.collapse)
  moreover have "em_inv (fst (abandon_where P m))" for P by (rule em_inv_closes [OF abandon_where_closes [OF ok] assms(1)])
  moreover have "em_inv (fst (expire_pending now m))" for now by (rule em_inv_closes [OF expire_pending_closes [OF assms(1)] assms(1)])
  ultimately show ?thesis
    using assms(3) em_inv_attempt [OF assms(1)] em_inv_cancel [OF assms(1)] em_inv_clear_expired [OF assms(1)]
    by (cases x) (auto simp: abandon_session_def abandon_connection_def split_def split: sum.splits)
qed

lemma desk_call_counts:
  assumes "\<forall>sid. gd_wrong (dk_guard d sid) \<le> n" "dk_last d \<le> n"
  shows "gd_wrong (dk_guard (fst (desk_call x d)) sid) \<le> Suc n \<and> dk_last (fst (desk_call x d)) \<le> Suc n"
proof -
  have g: "gd_wrong (fst (guard_try ok policy now g)) \<le> Suc n" "gd_wrong (guard_lift now g) \<le> Suc n" if "gd_wrong g \<le> n" for ok policy now g
    using that by (auto simp: guard_try_def guard_lift_def Let_def split: option.split)
  have w: "gd_wrong (dk_guard d s) \<le> Suc n" for s using assms(1) by (simp add: le_SucI)
  show ?thesis
    using assms g w by (cases x) (auto simp: desk_close_def Let_def split_def split: option.split)
qed

lemma em_call_keeps:
  assumes "em_keeps n m" "n < 2 ^ 32 - 1" "em_call x m = (m', r)"
  shows "em_keeps (Suc n) m'"
proof -
  have "\<forall>sid. gd_wrong (dk_guard (desk_view m) sid) \<le> n" "dk_last (desk_view m) \<le> n"
    using assms(1) by (simp_all add: em_keeps_def desk_view_def guard_view_def)
  note counts = desk_call_counts [OF this, of x, unfolded em_call_refines [OF assms]]
  have "em_inv m'" using assms by (intro em_inv_call [OF _ _ assms(3)]) (auto simp: em_keeps_def)
  with counts show ?thesis by (simp add: em_keeps_def desk_view_def guard_view_def)
qed

text \<open>No call of the elevation manager has a precondition.\<close>

interpretation elev_desk: refinement em_call desk_call desk_view em_keeps "\<lambda>_ _. True" "2 ^ 32 - 1"
  by unfold_locales (intro conjI em_call_refines em_call_keeps; assumption)

lemma em_keeps_new: "em_keeps 0 em_new" "desk_view em_new = desk_new"
  by (simp_all add: em_keeps_def em_new_def elev_attempts_def hm_entry_def session_elevation_auth_default_def desk_view_def desk_new_def
      elevation_timeouts_new_def guard_view_def elev_locked_out_def prompt_view_def by_nat_def fun_eq_iff em_inv_def ids_below_def)

subsection \<open>Properties\<close>

text \<open>
  C15. The elevation manager implements the desk: whatever calls are made of it from the start, fewer than
  $2^{32}$ of them and in any order, each with its own policy and authenticator, it gives the answers of the specification and holds its prompts,
  deadlines, counts and bars. So a number is never given to two prompts; a session has at most as
  many open prompts as its policy allows; a wrong password counts for the prompt's session alone and closes
  the prompt exactly when it bars the session, a cancel counts for nothing; a sweep closes exactly the prompts
  that are due, and the end of a session or of a connection exactly those it concerns, each reported once.
\<close>

theorem elevation_manager_implements_desk:
  assumes "length xs < 2 ^ 32" "calls em_call xs em_new = (m, answers)"
  shows "calls desk_call xs desk_new = (desk_view m, answers)"
  using elev_desk.calls_refine [OF em_keeps_new(1) _ always_admitted assms(2)] assms(1) em_keeps_new(2) by simp

theorem elevation_manager_implements_desk_witness:
  "snd (calls desk_call
      [BeginCall 1 2 3 sample_elevation_policy sample_auth_policy 0, AnswerCall 1 (password_auth ''alice'' ''d'') (guess 1 ''a'') sample_auth_policy 0, CancelCall 7,
       AnswerCall 1 (password_auth ''alice'' ''d'') (guess 1 ''d'') sample_auth_policy 0, BeginCall 1 2 3 sample_elevation_policy sample_auth_policy 0] desk_new) =
     [Opened 1, Resolved (Some (outcome_of \<lparr>pe_session_id = 1, pe_compositor_conn = 2, pe_requester_conn = 3\<rparr> (AuthFailure 2))),
      Resolved None,
      Resolved (Some (outcome_of \<lparr>pe_session_id = 1, pe_compositor_conn = 2, pe_requester_conn = 3\<rparr> AuthSuccess)), Opened 2]"
  (is "snd (calls _ ?xs _) = ?answers")
proof -
  let ?c = "calls em_call ?xs em_new"
  have "snd ?c = ?answers" by code_simp
  moreover have "length ?xs < 2 ^ 32" by simp
  from elevation_manager_implements_desk [OF this prod.collapse [symmetric]] have
    "calls desk_call ?xs desk_new = (desk_view (fst ?c), snd ?c)" .
  ultimately show ?thesis by simp
qed

end
