(* ===== verification/Seat_Queues.thy ===== *)
theory Seat_Queues
  imports Seat
begin

section \<open>The seats as queues\<close>

text \<open>
  What \<open>src/seat/manager.rs\<close> promises: a seat is a queue of sessions whose front is on display. The seat
  manager implements it over whole histories of calls, in which a session is attached only while it is
  on no seat, as the daemon does.
\<close>

subsection \<open>Calls\<close>

datatype seat_call =
    EnsureCall string
  | DevicesCall string "device list"
  | AttachCall string session_id
  | DetachCall session_id
  | SwitchCall string session_id
  | ActiveCall string

datatype seat_answer = NoAnswer | Switched "session_id option result" | ActiveIs "session_id option result"

fun seats_call :: "seat_call \<Rightarrow> seat_manager \<Rightarrow> seat_manager \<times> seat_answer" where
  "seats_call (EnsureCall i) m = (ensure_seat i m, NoAnswer)"
| "seats_call (DevicesCall i devices) m = (set_devices i devices m, NoAnswer)"
| "seats_call (AttachCall i sid) m = (attach_session i sid m, NoAnswer)"
| "seats_call (DetachCall sid) m = (detach_session sid m, NoAnswer)"
| "seats_call (SwitchCall i sid) m = (case switch_active i sid m of (m', r) \<Rightarrow> (m', Switched r))"
| "seats_call (ActiveCall i) m = (m, ActiveIs (seat_active_session m i))"

subsection \<open>The specification\<close>

type_synonym queues = "string \<Rightarrow> session_id list option"

definition queue_of :: "queues \<Rightarrow> string \<Rightarrow> session_id list" where
  "queue_of q i = (case q i of None \<Rightarrow> [] | Some xs \<Rightarrow> xs)"

fun queues_call :: "seat_call \<Rightarrow> queues \<Rightarrow> queues \<times> seat_answer" where
  "queues_call (EnsureCall i) q = (q(i := Some (queue_of q i)), NoAnswer)"
| "queues_call (DevicesCall i devices) q = (q(i := Some (queue_of q i)), NoAnswer)"
| "queues_call (AttachCall i sid) q = (q(i := Some (queue_of q i @ [sid])), NoAnswer)"
| "queues_call (DetachCall sid) q = ((\<lambda>i. map_option (filter (\<lambda>x. x \<noteq> sid)) (q i)), NoAnswer)"
| "queues_call (SwitchCall i sid) q =
     (case q i of
        None \<Rightarrow> (q, Switched (Inl (UnknownSeat i)))
      | Some xs \<Rightarrow>
          if sid \<notin> set xs then (q, Switched (Inl (UnknownSession sid)))
          else (q(i := Some (queue_switch sid xs)), Switched (Inr (if hd xs = sid then None else queue_active xs))))"
| "queues_call (ActiveCall i) q =
     (q, ActiveIs (case q i of None \<Rightarrow> Inl (UnknownSeat i) | Some xs \<Rightarrow> Inr (queue_active xs)))"

fun attachable :: "seat_call \<Rightarrow> queues \<Rightarrow> bool" where
  "attachable (AttachCall i sid) q \<longleftrightarrow> (\<forall>j. sid \<notin> set (queue_of q j))"
| "attachable _ q \<longleftrightarrow> True"

subsection \<open>Each call\<close>

lemma unseated_iff: "seats_ok m \<Longrightarrow> (\<forall>j. sid \<notin> set (queue_of (seat_list m) j)) \<longleftrightarrow> \<not> seated m sid"
proof -
  assume "seats_ok m"
  then have "hm_ok (seats m)" by (simp add: seats_ok_def)
  then have "seated m sid \<longleftrightarrow> (\<exists>i s. hm_get (seats m) i = Some s \<and> sid \<in> set (seat_sessions s))" by (rule seated_iff)
  moreover have "sid \<in> set (queue_of (seat_list m) j) \<longleftrightarrow> (\<exists>s. hm_get (seats m) j = Some s \<and> sid \<in> set (seat_sessions s))" for j
    by (cases "hm_get (seats m) j") (simp_all add: queue_of_def seat_list_def)
  ultimately show ?thesis by simp
qed

lemma seat_list_ensure: "seat_list (ensure_seat i m) = (seat_list m)(i := Some (queue_of (seat_list m) i))"
  by (auto simp: seat_list_def ensure_seat_get queue_of_def seat_new_def seat_sessions_def fun_eq_iff split: option.split)

interpretation seat_queues: refinement seats_call queues_call seat_list "\<lambda>_. seats_ok" attachable bound for bound
proof (unfold_locales, goal_cases)
  case (1 n m x m' r)
  note ok = 1(1)
  show ?case
  proof (cases x)
    case (EnsureCall i)
    with 1 show ?thesis by (auto simp: seat_list_ensure seats_ok_ensure)
  next
    case (DevicesCall i devices)
    have "seat_list (set_devices i devices m) = seat_list (ensure_seat i m)" by (simp add: fun_eq_iff seat_list_devices)
    with 1 DevicesCall show ?thesis by (auto simp: seat_list_ensure seats_ok_set_devices)
  next
    case (AttachCall i sid)
    with 1 have "\<not> seated m sid" using unseated_iff [OF ok] by simp
    with 1 AttachCall show ?thesis by (auto simp: seat_list_attach [OF ok] seats_ok_attach queue_of_def)
  next
    case (DetachCall sid)
    with 1 show ?thesis by (auto simp: fun_eq_iff seat_list_detach [OF ok] seats_ok_detach)
  next
    case (SwitchCall i sid)
    obtain m2 res where sw: "switch_active i sid m = (m2, res)" by fastforce
    with switch_active_front [OF ok sw] seats_ok_switch [OF ok, of i sid] 1 SwitchCall show ?thesis
      by (cases res) auto
  next
    case (ActiveCall i)
    with 1 show ?thesis by (auto simp: seat_active_queue [OF ok])
  qed
qed

subsection \<open>Properties\<close>

text \<open>
  C16. The seat manager implements its queues: over any history of calls from the start in which a session
  is attached only while it is on no seat, it gives the specification's answers and its seats hold
  the specification's queues. Attaching appends to the seat, which is created if need be; detaching
  removes the session everywhere and so promotes the oldest waiting one; switching moves a session to the
  front and the one that was there to the back, or fails without any effect; devices change no queue. The
  registry stays well-formed: sessions on a seat are distinct and no session is on two seats.
\<close>

theorem seats_implement_queues:
  assumes "admitted attachable queues_call xs Map.empty" "calls seats_call xs seats_new = (m, answers)"
  shows "calls queues_call xs Map.empty = (seat_list m, answers) \<and> seats_ok m"
proof -
  have "seat_list seats_new = Map.empty" by (simp add: fun_eq_iff seat_list_def seats_new_def)
  with seat_queues.calls_refine [where n = 0 and bound = "length xs", OF seats_ok_new _ _ assms(2)] assms(1) show ?thesis by simp
qed

theorem seats_implement_queues_witness:
  "calls queues_call [AttachCall ''seat0'' 1, AttachCall ''seat0'' 2, SwitchCall ''seat0'' 2, DetachCall 2, ActiveCall ''seat0''] Map.empty =
     (seat_list (fst (calls seats_call
        [AttachCall ''seat0'' 1, AttachCall ''seat0'' 2, SwitchCall ''seat0'' 2, DetachCall 2, ActiveCall ''seat0''] seats_new)),
      [NoAnswer, NoAnswer, Switched (Inr (Some 1)), NoAnswer, ActiveIs (Inr (Some 1))])"
proof -
  let ?xs = "[AttachCall ''seat0'' 1, AttachCall ''seat0'' 2, SwitchCall ''seat0'' 2, DetachCall 2, ActiveCall ''seat0'']"
  have "admitted attachable queues_call ?xs Map.empty" by (simp add: queue_of_def)
  from seats_implement_queues [OF this prod.collapse [symmetric]] have
    "calls queues_call ?xs Map.empty = (seat_list (fst (calls seats_call ?xs seats_new)), snd (calls seats_call ?xs seats_new))" by blast
  moreover have "snd (calls seats_call ?xs seats_new) = [NoAnswer, NoAnswer, Switched (Inr (Some 1)), NoAnswer, ActiveIs (Inr (Some 1))]"
    by code_simp
  ultimately show ?thesis by simp
qed

end
