(* ===== verification/Spec2Isabelle.thy ===== *)
theory Spec2Isabelle
  imports Startup Sessionctl Runtime_Dir Autostart Hang_Up Crash_Loop Lock_Doors Elevation_Desk Seat_Queues
begin

text \<open>
  \<^bold>\<open>A verification library of mitos-session\<close>

  mitos-session is the daemon that owns the login sessions of a machine: it creates and ends sessions,
  starts their compositors, locks and unlocks them, watches for idleness, asks for passwords on behalf of
  privileged programs (elevation) and drives suspend, reboot and power-off. Clients talk to it over a Unix
  socket. One thread owns all state and runs the callbacks of an event loop: messages from connection
  threads, a tick every second, and signals. This library models that program, function by function, and
  proves what makes it correct. Paths below are relative to the repository.

  \<^bold>\<open>The theories and the source\<close>

  \<^item> \<open>Prelude\<close>: words, hash maps (association lists with distinct keys), time, strings, sequences of
    system calls, and the lemmas on them. \<open>Interfaces\<close>: the locales, and \<open>run\<close>, the runs of a step relation.
  \<^item> \<open>Errors\<close>, \<open>Config\<close>, \<open>Logging\<close>: \<open>src/errors\<close>, \<open>src/config\<close>, \<open>src/logging\<close>.
  \<^item> \<open>User_Account\<close>: \<open>src/user\<close>, and the password check of \<open>src/main.rs\<close> (\<open>user_has_password\<close>).
  \<^item> \<open>Session\<close>: \<open>src/session\<close>: \<open>SessionState\<close>, \<open>Environment\<close>, \<open>SessionContext\<close>, \<open>begin\<close> and \<open>end\<close>,
    \<open>SessionManager\<close>. \<open>Runtime_Dir\<close>: \<open>src/session/runtime.rs\<close>.
  \<^item> \<open>Seat\<close>: \<open>src/seat\<close>, with \<open>Seat_Queues\<close>, its specification by queues. \<open>Idle\<close>: \<open>src/idle\<close>. \<open>Lock\<close>:
    \<open>src/lock\<close>, with inhibitors and lockout timers, and \<open>Lock_Doors\<close>, its specification by doors.
  \<^item> \<open>Authentication\<close>: \<open>src/authentication\<close>, with PAM as a parameter. \<open>Elevation\<close>:
    \<open>src/elevation\<close>, and \<open>Elevation_Desk\<close>, its specification by a desk that keeps prompts and bars.
  \<^item> \<open>Ipc\<close>: the messages, peer credentials and the connection registry of \<open>src/ipc\<close>; \<open>Framing\<close>: the wire
    protocol and the blocking client; \<open>Connection\<close>: the socket and the two threads of a connection.
  \<^item> \<open>Policy\<close>: \<open>src/policy\<close>: who may make which request. \<open>Launcher\<close> and \<open>Autostart\<close>: \<open>src/launcher\<close>.
  \<^item> \<open>Power_Control\<close>: \<open>src/power\<close>, all three backends. \<open>Signals\<close>: \<open>src/signals\<close>.
  \<^item> \<open>Daemon\<close>: \<open>src/main.rs\<close>, the \<open>Daemon\<close> struct and every callback, composed from the components above.
    \<open>Daemon_Lemmas\<close>, \<open>Daemon_Security\<close>, \<open>Daemon_Behaviour\<close>: what one event does. \<open>Daemon_Invariants\<close>,
    \<open>Daemon_Reachable\<close>: what holds in every reachable state and along whole runs. \<open>Daemon_Outboxes\<close>: how any
    event changes the outboxes and the prompts owed. \<open>Crash_Loop\<close>: the life of a session whose compositor keeps
    crashing. \<open>Startup\<close>: \<open>main\<close> and \<open>run\<close>.
  \<^item> \<open>System\<close>: the serving program as a whole, the daemon of \<open>Daemon\<close> with the threads of \<open>Connection\<close> for every
    socket and the channel between them, as one step relation over all interleavings. \<open>Hang_Up\<close>: when
    the daemon lets go of a connection.
  \<^item> \<open>Sessionctl\<close>: \<open>bin/mitos-sessionctl.rs\<close>.

  \<^bold>\<open>How the code is translated\<close>

  A struct is a record with the source's fields, an enum a datatype. Methods that take \<open>&mut self\<close> return
  the new state. \<open>Result\<close> is a sum whose left side is \<open>session_error\<close>, and every \<open>?\<close> and early return
  is a branch. Rust's integers are words of their width. \<open>Instant\<close> and \<open>Duration\<close> are nanoseconds; a callback
  gets the time of its call from its \<open>world\<close>. Everything outside the program, that is the kernel, PAM, udev,
  the account database, the TOML, JSON and bincode libraries, is a function in a record (\<open>world\<close>, \<open>config_os\<close>,
  \<open>fs\<close>, \<open>power_os\<close>, \<open>codec\<close>, \<open>rt_os\<close>, \<open>boot\<close> and so on); no property assumes more of them than it states.
  Calls with an effect outside are recorded in order, in \<open>d_trace\<close> for the daemon and as a returned list
  elsewhere, so that statements can be made about order.

  \<^bold>\<open>Interfaces\<close>

  \<open>id_allocator\<close> is the contract of the three registries that hand out ids (sessions, inhibitors, elevation
  prompts) and is interpreted on each; \<open>deadline_timer\<close> and \<open>cancellable_timer\<close> that of the swept timers
  of locks and prompts; \<open>bounded_invariant\<close> gives the invariants of the daemon and of the whole system along
  runs; \<open>step_invariant\<close>, a bounded invariant for every bound, that of a connection; \<open>refinement\<close> says that
  the calls of a component implement those of a specification, and is interpreted on the lock manager, the
  elevation manager and the seats; \<open>event_preorder\<close>, in \<open>Daemon_Security\<close>, carries a relation on registries that every sent event
  respects through the callbacks, and is interpreted for sending events only and for appending only.

  \<^bold>\<open>What is proved\<close>

  \<^item> Locks and passwords: only an accepted unlock by root or the owner releases a lock; lockouts come at
    exactly the configured count and end at their deadline; a success reply means PAM accepted just then;
    a crashing compositor opens nothing.
  \<^item> Requests: \<open>authorize\<close> is equal to a declarative policy, error for error, a refused request changes nothing,
    and over any stretch of a run in which a connection stays registered replies and owed prompts balance the
    requests made.
  \<^item> The whole system: a lock is opened only by a request in the bytes of a socket whose peer the kernel
    identifies as root or the owner, a peer that is served to the end gets one response per request, and
    a connection is let go only after a failed write or with its compositor.
  \<^item> Registries: ids are fresh, limits hold, over whole histories of calls seats implement queues, the lock
    manager a door per session and the elevation manager a desk, whatever policy and authenticator each call
    brings; the whole state stays consistent.
  \<^item> Elevation: when prompts open, how answers are counted, that every prompt ends.
  \<^item> Wire protocol and connections: what is written is read back, up to the reader's limit; the errors of the
    reader are classified completely; under every
    interleaving of the threads the daemon is told a consistent story, and the threads wind down.
  \<^item> Power, signals, launching, autostart, the runtime directory, start-up and the command-line client:
    the order of their steps (locking before sleep, killing before power-off), what each failure leads to, that
    the loop ends on a termination signal, and that a compositor that keeps crashing gives way to a terminal.
  \<^item> Some properties pin down behaviour that falls short of its documentation: locking again ends a
    lockout, an unlock accepts the password of any account, open prompts survive a lockout, a silent
    hang-up is not noticed.

  \<^bold>\<open>Bounds\<close>

  Session ids are 32 bits wide and their counter wraps, so properties of whole runs of the daemon are about
  fewer than $2^{32} - 2$ events, and those of the system of as many steps; prompt, inhibitor and connection ids are 64 bits wide,
  and the statements on fresh ids have the corresponding bound. The doors and the desk are about fewer than $2^{32}$ calls, so that no
  count of wrong passwords wraps. No function is given fuel: loops over streams and lists
  terminate by a measure, and the event loop is a function of the finite sequence of dispatches made so far,
  with its end, or that it goes on, as the result.

  \<^bold>\<open>Not modelled\<close>

  The lines logged through the tracing crate; the panic hook; calloop's own workings; clap's
  command-line parser; the overflow of \<open>Instant\<close> arithmetic, which panics, and clocks
  before 1970; white space outside ASCII when text is trimmed; a mitos-power daemon that sends lines forever.
  A poisoned mutex cannot occur since the state is owned by one thread. Unit tests and \<open>tests/\<close> are not part
  of the program.
\<close>

end
